(* ===== verification/Prelude.thy ===== *)
theory Prelude
  imports "HOL-Library.Word"
begin

text \<open>
  What every other theory of the development shares.

  \<^item> The vocabulary of asynchronous Rust: the result of polling a future
    (\<open>poll\<close>), a panic as a value (\<open>panicking\<close>), \<open>std::io::Error\<close> and
    \<open>Result\<close> as a sum with the operators \<open>?\<close>, \<open>map_err\<close>, \<open>and\<close> and \<open>ok\<close>,
    \<open>std::time::Duration\<close> in nanoseconds, \<open>usize\<close> as a 64 bit word.
  \<^item> Reachability of a transition system and the interface \<open>invariant_system\<close> between a
    machine that proves the two obligations of an invariant and the theorems that use it;
    the interface \<open>simulation\<close> of a machine that refines another.
  \<^item> Counting the elements of a list that satisfy a predicate under an update of one
    position, which carries the connection counter's bookkeeping.
\<close>

section \<open>Results, polls and panics\<close>

datatype 'a poll = Pending | Ready 'a

datatype 'a panicking = Panics string | Returns 'a

datatype error_kind = NotFound | InvalidInput | TimedOut | Other | OsError nat

datatype io_error = IoError (err_kind: error_kind) (err_msg: string)

type_synonym 'a io_result = "io_error + 'a"

type_synonym usize = "64 word"

type_synonym duration = nat

definition from_millis :: "nat \<Rightarrow> duration" where
  "from_millis n = n * 1000000"

definition from_secs :: "nat \<Rightarrow> duration" where
  "from_secs n = n * 1000000000"

text \<open>The operator \<open>?\<close> and the methods of \<open>Result\<close> that the code uses.\<close>

fun res_bind :: "'e + 'a \<Rightarrow> ('a \<Rightarrow> 'e + 'b) \<Rightarrow> 'e + 'b" where
  "res_bind (Inl e) f = Inl e"
| "res_bind (Inr x) f = f x"

fun map_err :: "('e \<Rightarrow> 'f) \<Rightarrow> 'e + 'a \<Rightarrow> 'f + 'a" where
  "map_err f (Inl e) = Inl (f e)"
| "map_err f (Inr x) = Inr x"

fun res_map :: "('a \<Rightarrow> 'b) \<Rightarrow> 'e + 'a \<Rightarrow> 'e + 'b" where
  "res_map f (Inl e) = Inl e"
| "res_map f (Inr x) = Inr (f x)"

fun res_ok :: "'e + 'a \<Rightarrow> 'a option" where
  "res_ok (Inl e) = None"
| "res_ok (Inr x) = Some x"

fun ok_or :: "'e \<Rightarrow> 'a option \<Rightarrow> 'e + 'a" where
  "ok_or e None = Inl e"
| "ok_or e (Some x) = Inr x"

lemma res_bind_Inr_iff [simp]: "res_bind r f = Inr y \<longleftrightarrow> (\<exists>x. r = Inr x \<and> f x = Inr y)"
  by (cases r) auto

lemma res_bind_Inl_iff: "res_bind r f = Inl e \<longleftrightarrow> r = Inl e \<or> (\<exists>x. r = Inr x \<and> f x = Inl e)"
  by (cases r) auto

lemma res_map_Inr_iff [simp]: "res_map f r = Inr y \<longleftrightarrow> (\<exists>x. r = Inr x \<and> y = f x)"
  by (cases r) auto

lemma res_map_Inl_iff [simp]: "res_map f r = Inl e \<longleftrightarrow> r = Inl e"
  by (cases r) auto

lemma map_err_Inr_iff [simp]: "map_err f r = Inr y \<longleftrightarrow> r = Inr y"
  by (cases r) auto

lemma map_err_Inl_iff [simp]: "map_err f r = Inl e \<longleftrightarrow> (\<exists>d. r = Inl d \<and> e = f d)"
  by (cases r) auto

lemma res_bind_cong [fundef_cong]:
  "r = r' \<Longrightarrow> (\<And>x. r' = Inr x \<Longrightarrow> f x = g x) \<Longrightarrow> res_bind r f = res_bind r' g"
  by (cases r') auto

lemma ok_or_Inr_iff [simp]: "ok_or e r = Inr x \<longleftrightarrow> r = Some x"
  by (cases r) auto

section \<open>Reachable states and invariants\<close>

inductive reach :: "('s \<Rightarrow> bool) \<Rightarrow> ('s \<Rightarrow> 's \<Rightarrow> bool) \<Rightarrow> 's \<Rightarrow> bool"
  for init :: "'s \<Rightarrow> bool" and step :: "'s \<Rightarrow> 's \<Rightarrow> bool"
where
  reach_start: "init s \<Longrightarrow> reach init step s"
| reach_step: "reach init step s \<Longrightarrow> step s t \<Longrightarrow> reach init step t"

lemma reach_mono:
  assumes "reach init step s" and "\<And>s t. step s t \<Longrightarrow> step' s t"
  shows "reach init step' s"
  using assms(1) by induction (auto intro: reach.intros assms(2))

text \<open>
  The interface of an invariant: a machine (\<open>init\<close>, \<open>step\<close>) that provides the two
  obligations gets the invariant on every reachable state.
\<close>

locale invariant_system =
  fixes init :: "'s \<Rightarrow> bool" and step :: "'s \<Rightarrow> 's \<Rightarrow> bool" and inv :: "'s \<Rightarrow> bool"
  assumes inv_init: "init s \<Longrightarrow> inv s"
    and inv_step: "inv s \<Longrightarrow> step s t \<Longrightarrow> inv t"
begin

lemma reach_inv: "reach init step s \<Longrightarrow> inv s"
  by (induction rule: reach.induct) (auto intro: inv_init inv_step)

end

text \<open>
  A second invariant proved relative to the first: the client may use \<open>inv\<close> before and
  after the step.
\<close>

locale relative_invariant = invariant_system init step inv
  for init :: "'s \<Rightarrow> bool" and step :: "'s \<Rightarrow> 's \<Rightarrow> bool" and inv :: "'s \<Rightarrow> bool" +
  fixes inv2 :: "'s \<Rightarrow> bool"
  assumes inv2_init: "init s \<Longrightarrow> inv2 s"
    and inv2_step: "inv s \<Longrightarrow> inv t \<Longrightarrow> inv2 s \<Longrightarrow> step s t \<Longrightarrow> inv2 t"

sublocale relative_invariant \<subseteq> both: invariant_system init step "\<lambda>s. inv s \<and> inv2 s"
  by unfold_locales (auto intro: inv_init inv_step inv2_init inv2_step)

context relative_invariant begin

lemma reach_inv2: "reach init step s \<Longrightarrow> inv2 s"
  using both.reach_inv by blast

end

text \<open>
  The interface of a refinement: a concrete machine whose every step is, through \<open>abs\<close>, a step
  of an abstract one or invisible to it. What holds on the reachable states of the abstract
  machine then holds of the concrete one.
\<close>

locale simulation =
  fixes init1 :: "'s \<Rightarrow> bool" and step1 :: "'s \<Rightarrow> 's \<Rightarrow> bool"
    and init2 :: "'t \<Rightarrow> bool" and step2 :: "'t \<Rightarrow> 't \<Rightarrow> bool" and abs :: "'t \<Rightarrow> 's"
  assumes sim_init: "init2 t \<Longrightarrow> init1 (abs t)"
    and sim_step: "step2 t u \<Longrightarrow> step1 (abs t) (abs u) \<or> abs u = abs t"
begin

lemma reach_abs: "reach init2 step2 t \<Longrightarrow> reach init1 step1 (abs t)"
  by (induction rule: reach.induct) (use sim_init sim_step in \<open>force intro: reach.intros\<close>)+

end

section \<open>Counting under an update\<close>

definition count_if :: "('a \<Rightarrow> bool) \<Rightarrow> 'a list \<Rightarrow> nat" where
  "count_if P xs = length (filter P xs)"

lemma count_if_simps [simp]:
  "count_if P [] = 0"
  "count_if P (x # xs) = (if P x then Suc (count_if P xs) else count_if P xs)"
  "count_if P (xs @ ys) = count_if P xs + count_if P ys"
  by (simp_all add: count_if_def)

lemma count_if_le_length: "count_if P xs \<le> length xs"
  by (simp add: count_if_def)

lemma count_if_0_iff: "count_if P xs = 0 \<longleftrightarrow> (\<forall>x \<in> set xs. \<not> P x)"
  by (simp add: count_if_def filter_empty_conv)

lemma count_if_pos: "x \<in> set xs \<Longrightarrow> P x \<Longrightarrow> 0 < count_if P xs"
  using count_if_0_iff [of P xs] by auto

lemma count_if_update:
  "i < length xs \<Longrightarrow>
    count_if P (xs[i := y]) + (if P (xs ! i) then 1 else 0) =
    count_if P xs + (if P y then 1 else 0)"
proof (induction xs arbitrary: i)
  case Nil
  then show ?case by simp
next
  case (Cons x xs)
  show ?case
  proof (cases i)
    case 0
    then show ?thesis by simp
  next
    case (Suc j)
    with Cons.prems Cons.IH [of j] show ?thesis by auto
  qed
qed

lemma count_if_update_same:
  "i < length xs \<Longrightarrow> P y = P (xs ! i) \<Longrightarrow> count_if P (xs[i := y]) = count_if P xs"
  using count_if_update [of i xs P y] by (simp split: if_splits)

lemma count_if_update_leave:
  "i < length xs \<Longrightarrow> P (xs ! i) \<Longrightarrow> \<not> P y \<Longrightarrow> count_if P xs = Suc (count_if P (xs[i := y]))"
  using count_if_update [of i xs P y] by simp

end
