(* ===== verification/NotifyOnce.thy ===== *)
theory NotifyOnce
  imports Prelude
begin

text \<open>
  \<open>src/src/notify_once.rs\<close>: the one-shot latch on which the shutdown protocol rests. It
  pairs a flag (an \<open>AtomicBool\<close>) with a \<open>tokio::sync::Notify\<close>.

  \<open>Notify\<close> is not code of the repository: its four operations are the fields of
  \<open>notify_api\<close>, an argument of every definition, and \<open>notify_documented\<close> is what its
  documentation promises of them. The two operations of the latch are modelled at the
  granularity of their atomic accesses (\<open>notifier_step\<close>, \<open>notified_step\<close>), so that any
  number of notifiers and waiters interleave arbitrarily (\<open>once_step\<close>). The lemmas show
  that no interleaving loses a wakeup and that no waiter is released early.
\<close>

section \<open>The latch and its operations\<close>

record 'n notify_api =
  nt_default :: "'n"
  nt_notified :: "'n \<Rightarrow> nat \<times> 'n"
  nt_enable :: "nat \<Rightarrow> 'n \<Rightarrow> bool \<times> 'n"
  nt_poll :: "nat \<Rightarrow> 'n \<Rightarrow> unit poll \<times> 'n"
  nt_notify_waiters :: "'n \<Rightarrow> 'n"

record 'n notify_once =
  no_notified :: bool
  no_notify :: "'n"

definition notify_once_default :: "'n notify_api \<Rightarrow> 'n notify_once" where
  "notify_once_default api = \<lparr>no_notified = False, no_notify = nt_default api\<rparr>"

text \<open>
  \<open>notify_waiters\<close> stores the flag and then wakes the waiters: two accesses, between which
  other threads run.
\<close>

definition store_notified :: "'n notify_once \<Rightarrow> 'n notify_once" where
  "store_notified l = l\<lparr>no_notified := True\<rparr>"

definition wake_waiters :: "'n notify_api \<Rightarrow> 'n notify_once \<Rightarrow> 'n notify_once" where
  "wake_waiters api l = l\<lparr>no_notify := nt_notify_waiters api (no_notify l)\<rparr>"

definition notify_waiters :: "'n notify_api \<Rightarrow> 'n notify_once \<Rightarrow> 'n notify_once" where
  "notify_waiters api l = wake_waiters api (store_notified l)"

definition is_notified :: "'n notify_once \<Rightarrow> bool" where
  "is_notified l = no_notified l"

text \<open>
  The future of \<open>notified()\<close>, by the point at which it stands: not started; the inner
  \<open>Notified\<close> future pinned; enabled; awaited because the flag was not set; returned.
\<close>

datatype notified_fut =
    NfStart
  | NfPinned nat
  | NfEnabled nat
  | NfAwaiting nat
  | NfDone

fun notified_step :: "'n notify_api \<Rightarrow> notified_fut \<Rightarrow> 'n notify_once \<Rightarrow> notified_fut \<times> 'n notify_once"
where
  "notified_step api NfStart l =
     (let (f, n) = nt_notified api (no_notify l) in (NfPinned f, l\<lparr>no_notify := n\<rparr>))"
| "notified_step api (NfPinned f) l =
     (let (_, n) = nt_enable api f (no_notify l) in (NfEnabled f, l\<lparr>no_notify := n\<rparr>))"
| "notified_step api (NfEnabled f) l =
     (if \<not> no_notified l then (NfAwaiting f, l) else (NfDone, l))"
| "notified_step api (NfAwaiting f) l =
     (let (r, n) = nt_poll api f (no_notify l)
      in (case r of Ready _ \<Rightarrow> NfDone | Pending \<Rightarrow> NfAwaiting f, l\<lparr>no_notify := n\<rparr>))"
| "notified_step api NfDone l = (NfDone, l)"

text \<open>The steps that a waiter takes alone, when nothing else runs in between.\<close>

fun notified_run :: "'n notify_api \<Rightarrow> nat \<Rightarrow> notified_fut \<Rightarrow> 'n notify_once \<Rightarrow> notified_fut \<times> 'n notify_once"
where
  "notified_run api 0 w l = (w, l)"
| "notified_run api (Suc k) w l =
     (let (w', l') = notified_step api w l in notified_run api k w' l')"

section \<open>What the documentation of \<open>Notify\<close> promises\<close>

text \<open>
  \<open>en n f\<close>: the future \<open>f\<close> is enabled (registered) in \<open>n\<close>; \<open>wo n f\<close>: it has
  received a wakeup. A fresh \<open>Notify\<close> has woken nobody. Enabling registers a future;
  \<open>notify_waiters\<close> wakes every registered future; polling is ready exactly for a woken
  one. No operation unregisters or un-wakes another future, and only \<open>notify_waiters\<close>
  wakes. Whether a future that is created but not enabled also receives the wakeup is left
  open: the code does not rely on it.
\<close>

definition keeps :: "('n \<Rightarrow> nat \<Rightarrow> bool) \<Rightarrow> 'n \<Rightarrow> 'n \<Rightarrow> bool" where
  "keeps en n n' \<longleftrightarrow> (\<forall>g. en n g \<longrightarrow> en n' g)"

definition same_woken :: "('n \<Rightarrow> nat \<Rightarrow> bool) \<Rightarrow> 'n \<Rightarrow> 'n \<Rightarrow> bool" where
  "same_woken wo n n' \<longleftrightarrow> (\<forall>g. wo n' g = wo n g)"

definition notify_documented ::
  "'n notify_api \<Rightarrow> ('n \<Rightarrow> nat \<Rightarrow> bool) \<Rightarrow> ('n \<Rightarrow> nat \<Rightarrow> bool) \<Rightarrow> bool" where
  "notify_documented api en wo \<longleftrightarrow>
     (\<forall>f. \<not> wo (nt_default api) f) \<and>
     (\<forall>n. keeps en n (snd (nt_notified api n)) \<and> same_woken wo n (snd (nt_notified api n))) \<and>
     (\<forall>f n. en (snd (nt_enable api f n)) f \<and> keeps en n (snd (nt_enable api f n)) \<and>
        same_woken wo n (snd (nt_enable api f n))) \<and>
     (\<forall>f n. fst (nt_poll api f n) = (if wo n f then Ready () else Pending) \<and>
        keeps en n (snd (nt_poll api f n)) \<and> same_woken wo n (snd (nt_poll api f n))) \<and>
     (\<forall>n f. en n f \<or> wo n f \<longrightarrow> wo (nt_notify_waiters api n) f) \<and>
     (\<forall>n. keeps en n (nt_notify_waiters api n))"

lemma documented_wo:
  assumes "notify_documented api en wo"
  shows "\<not> wo (nt_default api) g"
    and "wo (snd (nt_notified api n)) g = wo n g"
    and "wo (snd (nt_enable api f n)) g = wo n g"
    and "wo (snd (nt_poll api f n)) g = wo n g"
    and "en n g \<or> wo n g \<Longrightarrow> wo (nt_notify_waiters api n) g"
  using assms unfolding notify_documented_def same_woken_def by blast+

lemma documented_en:
  assumes "notify_documented api en wo"
  shows "en (snd (nt_enable api f n)) f"
    and "en n g \<Longrightarrow> en (snd (nt_notified api n)) g"
    and "en n g \<Longrightarrow> en (snd (nt_enable api f n)) g"
    and "en n g \<Longrightarrow> en (snd (nt_poll api f n)) g"
    and "en n g \<Longrightarrow> en (nt_notify_waiters api n) g"
  using assms unfolding notify_documented_def keeps_def by blast+

lemma documented_poll:
  assumes "notify_documented api en wo"
  shows "fst (nt_poll api f n) = (if wo n f then Ready () else Pending)"
  using assms unfolding notify_documented_def by blast

section \<open>Any number of notifiers and waiters\<close>

datatype notifier_pc = NtStart | NtStored | NtDone

fun notifier_step :: "'n notify_api \<Rightarrow> notifier_pc \<Rightarrow> 'n notify_once \<Rightarrow> notifier_pc \<times> 'n notify_once"
where
  "notifier_step api NtStart l = (NtStored, store_notified l)"
| "notifier_step api NtStored l = (NtDone, wake_waiters api l)"
| "notifier_step api NtDone l = (NtDone, l)"

text \<open>A notifier that is not interrupted performs \<open>notify_waiters\<close>.\<close>

lemma notifier_uninterrupted:
  "(let (p, l') = notifier_step api NtStart l in notifier_step api p l') = (NtDone, notify_waiters api l)"
  by (simp add: notify_waiters_def)

record 'n once_sys =
  os_latch :: "'n notify_once"
  os_waiter :: "nat \<Rightarrow> notified_fut"
  os_notifier :: "nat \<Rightarrow> notifier_pc"

definition once_init :: "'n notify_api \<Rightarrow> 'n once_sys \<Rightarrow> bool" where
  "once_init api s \<longleftrightarrow>
     s = \<lparr>os_latch = notify_once_default api, os_waiter = (\<lambda>_. NfStart), os_notifier = (\<lambda>_. NtStart)\<rparr>"

inductive once_step :: "'n notify_api \<Rightarrow> 'n once_sys \<Rightarrow> 'n once_sys \<Rightarrow> bool" for api where
  waiter_moves:
    "notified_step api (os_waiter s i) (os_latch s) = (w, l) \<Longrightarrow>
     once_step api s (s\<lparr>os_latch := l, os_waiter := (os_waiter s)(i := w)\<rparr>)"
| notifier_moves:
    "notifier_step api (os_notifier s j) (os_latch s) = (p, l) \<Longrightarrow>
     once_step api s (s\<lparr>os_latch := l, os_notifier := (os_notifier s)(j := p)\<rparr>)"

abbreviation once_reachable :: "'n notify_api \<Rightarrow> 'n once_sys \<Rightarrow> bool" where
  "once_reachable api \<equiv> reach (once_init api) (once_step api)"

text \<open>
  The invariant. A wakeup implies the flag; an awaiting or enabled waiter is registered; once
  some notifier has finished, the flag is set and every awaiting waiter is woken. It is
  relative to the documentation of \<open>Notify\<close>.
\<close>

definition waiter_registered ::
  "('n \<Rightarrow> nat \<Rightarrow> bool) \<Rightarrow> ('n \<Rightarrow> nat \<Rightarrow> bool) \<Rightarrow> 'n notify_once \<Rightarrow> notified_fut \<Rightarrow> bool" where
  "waiter_registered en wo l w \<longleftrightarrow>
     (\<forall>f. (w = NfEnabled f \<or> w = NfAwaiting f) \<longrightarrow> en (no_notify l) f \<or> wo (no_notify l) f)"

definition once_inv ::
  "('n \<Rightarrow> nat \<Rightarrow> bool) \<Rightarrow> ('n \<Rightarrow> nat \<Rightarrow> bool) \<Rightarrow> 'n once_sys \<Rightarrow> bool" where
  "once_inv en wo s \<longleftrightarrow>
     (\<forall>f. wo (no_notify (os_latch s)) f \<longrightarrow> no_notified (os_latch s)) \<and>
     (\<forall>i. os_waiter s i = NfDone \<longrightarrow> no_notified (os_latch s)) \<and>
     (\<forall>j. os_notifier s j \<noteq> NtStart \<longrightarrow> no_notified (os_latch s)) \<and>
     (\<forall>i. waiter_registered en wo (os_latch s) (os_waiter s i)) \<and>
     (\<forall>j i f. os_notifier s j = NtDone \<longrightarrow> os_waiter s i = NfAwaiting f \<longrightarrow>
        wo (no_notify (os_latch s)) f)"

lemma once_invI:
  assumes "\<And>f. wo (no_notify (os_latch s)) f \<Longrightarrow> no_notified (os_latch s)"
    and "\<And>i. os_waiter s i = NfDone \<Longrightarrow> no_notified (os_latch s)"
    and "\<And>j. os_notifier s j \<noteq> NtStart \<Longrightarrow> no_notified (os_latch s)"
    and "\<And>i. waiter_registered en wo (os_latch s) (os_waiter s i)"
    and "\<And>j i f. os_notifier s j = NtDone \<Longrightarrow> os_waiter s i = NfAwaiting f \<Longrightarrow>
           wo (no_notify (os_latch s)) f"
  shows "once_inv en wo s"
  using assms unfolding once_inv_def by blast

lemma once_invD:
  assumes "once_inv en wo s"
  shows "wo (no_notify (os_latch s)) f \<Longrightarrow> no_notified (os_latch s)"
    and "os_waiter s i = NfDone \<Longrightarrow> no_notified (os_latch s)"
    and "os_notifier s j \<noteq> NtStart \<Longrightarrow> no_notified (os_latch s)"
    and "waiter_registered en wo (os_latch s) (os_waiter s i)"
    and "os_notifier s j = NtDone \<Longrightarrow> os_waiter s i = NfAwaiting g \<Longrightarrow> wo (no_notify (os_latch s)) g"
  using assms unfolding once_inv_def by blast+

lemma waiter_registered_mono:
  assumes "waiter_registered en wo l w"
    and "\<And>f. en (no_notify l) f \<or> wo (no_notify l) f \<Longrightarrow> en (no_notify l') f \<or> wo (no_notify l') f"
  shows "waiter_registered en wo l' w"
  using assms unfolding waiter_registered_def by blast

section \<open>One step of a waiter\<close>

lemma notified_step_flag: "notified_step api w l = (w', l') \<Longrightarrow> no_notified l' = no_notified l"
  by (cases w) (auto split: prod.splits if_splits)

lemma notified_step_woken:
  assumes doc: "notify_documented api en wo"
  shows "wo (no_notify (snd (notified_step api w l))) g = wo (no_notify l) g"
  by (cases w) (simp_all add: case_prod_beta documented_wo [OF doc])

lemma notified_step_enabled:
  assumes doc: "notify_documented api en wo" and "en (no_notify l) g"
  shows "en (no_notify (snd (notified_step api w l))) g"
  using assms(2) by (cases w) (simp_all add: case_prod_beta documented_en [OF doc])

lemma notified_step_registers:
  assumes doc: "notify_documented api en wo" and reg: "waiter_registered en wo l w"
  shows "waiter_registered en wo (snd (notified_step api w l)) (fst (notified_step api w l))"
proof -
  let ?l = "snd (notified_step api w l)"
  have mono: "waiter_registered en wo ?l w"
    by (rule waiter_registered_mono [OF reg])
      (auto simp: notified_step_woken [OF doc] intro: notified_step_enabled [OF doc])
  show ?thesis
  proof (cases w)
    case (NfPinned f)
    then show ?thesis
      by (simp add: waiter_registered_def case_prod_beta documented_en [OF doc])
  next
    case (NfAwaiting f)
    with mono show ?thesis
      by (simp add: waiter_registered_def case_prod_beta split: poll.split)
  qed (use mono in \<open>simp_all add: waiter_registered_def case_prod_beta split: if_splits\<close>)
qed

lemma notified_step_done:
  assumes doc: "notify_documented api en wo" and "fst (notified_step api w l) = NfDone"
  shows "w = NfDone \<or> no_notified l \<or> (\<exists>f. wo (no_notify l) f)"
  using assms(2)
  by (cases w) (auto simp: case_prod_beta documented_poll [OF doc] split: if_splits)

lemma notified_step_awaiting:
  assumes "fst (notified_step api w l) = NfAwaiting f"
  shows "w = NfAwaiting f \<or> (w = NfEnabled f \<and> \<not> no_notified l)"
  using assms by (cases w) (simp_all add: case_prod_beta split: if_splits poll.splits)

section \<open>The invariant holds\<close>

lemma once_inv_init: "notify_documented api en wo \<Longrightarrow> once_init api s \<Longrightarrow> once_inv en wo s"
  by (auto simp: once_init_def once_inv_def notify_once_default_def waiter_registered_def
      documented_wo(1))

lemma once_inv_waiter:
  assumes doc: "notify_documented api en wo" and inv: "once_inv en wo s"
    and st: "notified_step api (os_waiter s i) (os_latch s) = (w, l)"
  shows "once_inv en wo (s\<lparr>os_latch := l, os_waiter := (os_waiter s)(i := w)\<rparr>)" (is "once_inv en wo ?t")
proof -
  note flag = notified_step_flag [OF st]
  have woken: "wo (no_notify l) g = wo (no_notify (os_latch s)) g" for g
    using notified_step_woken [OF doc, of "os_waiter s i" "os_latch s"] st by simp
  have enabled: "en (no_notify (os_latch s)) g \<Longrightarrow> en (no_notify l) g" for g
    using notified_step_enabled [OF doc, of "os_latch s" g "os_waiter s i"] st by simp
  have registers: "waiter_registered en wo l w"
    using notified_step_registers [OF doc once_invD(4) [OF inv, of i]] st by simp
  have done_flag: "no_notified l" if "w = NfDone"
    using notified_step_done [OF doc, of "os_waiter s i" "os_latch s"] st that
      once_invD(1,2) [OF inv] flag by auto
  show ?thesis
  proof (rule once_invI)
    show "no_notified (os_latch ?t)" if "wo (no_notify (os_latch ?t)) f" for f
      using that woken flag once_invD(1) [OF inv] by simp
    show "no_notified (os_latch ?t)" if "os_waiter ?t k = NfDone" for k
      using that flag done_flag once_invD(2) [OF inv] by (cases "k = i") auto
    show "no_notified (os_latch ?t)" if "os_notifier ?t j \<noteq> NtStart" for j
      using that flag once_invD(3) [OF inv] by simp
    show "waiter_registered en wo (os_latch ?t) (os_waiter ?t k)" for k
    proof (cases "k = i")
      case True
      with registers show ?thesis by simp
    next
      case False
      with waiter_registered_mono [OF once_invD(4) [OF inv, of k], of l] woken enabled
      show ?thesis by auto
    qed
    show "wo (no_notify (os_latch ?t)) f"
      if "os_notifier ?t j = NtDone" "os_waiter ?t k = NfAwaiting f" for j k f
    proof (cases "k = i")
      case True
      with that(2) have "w = NfAwaiting f" by simp
      with st have "os_waiter s i = NfAwaiting f \<or> \<not> no_notified (os_latch s)"
        using notified_step_awaiting [of api "os_waiter s i" "os_latch s" f] by auto
      moreover have "no_notified (os_latch s)" using once_invD(3) [OF inv, of j] that(1) by simp
      ultimately show ?thesis using once_invD(5) [OF inv, of j i f] that(1) woken by simp
    next
      case False
      with that once_invD(5) [OF inv, of j k f] woken show ?thesis by simp
    qed
  qed
qed

lemma once_inv_notifier:
  assumes doc: "notify_documented api en wo" and inv: "once_inv en wo s"
    and st: "notifier_step api (os_notifier s j) (os_latch s) = (p, l)"
  shows "once_inv en wo (s\<lparr>os_latch := l, os_notifier := (os_notifier s)(j := p)\<rparr>)"
proof (cases "os_notifier s j")
  case NtStart
  with st have pl: "p = NtStored" "l = store_notified (os_latch s)" by simp_all
  have "waiter_registered en wo l (os_waiter s i)" for i
    by (rule waiter_registered_mono [OF once_invD(4) [OF inv]]) (simp add: pl store_notified_def)
  with pl show ?thesis
    by (intro once_invI) (auto simp: store_notified_def dest: once_invD(5) [OF inv] split: if_splits)
next
  case NtStored
  with st have pl: "p = NtDone" "l = wake_waiters api (os_latch s)" by simp_all
  have flag: "no_notified (os_latch s)" using once_invD(3) [OF inv, of j] NtStored by simp
  have reg: "waiter_registered en wo l (os_waiter s i)" for i
    by (rule waiter_registered_mono [OF once_invD(4) [OF inv]])
      (simp add: pl wake_waiters_def documented_wo(5) [OF doc])
  have woken: "wo (no_notify l) f" if "os_waiter s i = NfAwaiting f" for i f
    using once_invD(4) [OF inv, of i] that documented_wo(5) [OF doc]
    by (simp add: pl wake_waiters_def waiter_registered_def)
  show ?thesis
    by (rule once_invI) (use pl flag reg woken in \<open>auto simp: wake_waiters_def\<close>)
next
  case NtDone
  with st have "p = NtDone" "l = os_latch s" by simp_all
  with NtDone inv show ?thesis by (simp add: fun_upd_idem)
qed

interpretation once: invariant_system "once_init api" "once_step api"
  "\<lambda>s. notify_documented api en wo \<longrightarrow> once_inv en wo s" for api en wo
proof
  show "notify_documented api en wo \<longrightarrow> once_inv en wo s" if "once_init api s" for s
    using that by (blast intro: once_inv_init)
next
  show "notify_documented api en wo \<longrightarrow> once_inv en wo t"
    if "notify_documented api en wo \<longrightarrow> once_inv en wo s" and "once_step api s t" for s t
    using that(2,1) by cases (auto intro: once_inv_waiter once_inv_notifier)
qed

section \<open>The latch as its clients see it\<close>

text \<open>
  The contract a client of the latch relies on: it starts unset, setting it sets it, and
  the value it shows never goes back. The client's lemma, for any number of operations.
\<close>

locale latch =
  fixes latch_new :: "'l" and latch_set :: "'l \<Rightarrow> 'l" and latch_read :: "'l \<Rightarrow> bool"
  assumes new_unset: "\<not> latch_read latch_new"
    and set_sets: "latch_read (latch_set l)"
begin

lemma set_keeps: "latch_read l \<Longrightarrow> latch_read (latch_set l)"
  by (rule set_sets)

lemma read_after_sets: "latch_read ((latch_set ^^ k) latch_new) \<longleftrightarrow> 0 < k"
  by (cases k) (simp_all add: new_unset set_sets)

end

interpretation once_latch: latch "notify_once_default api" "notify_waiters api" is_notified for api
  by unfold_locales
    (simp_all add: notify_once_default_def notify_waiters_def is_notified_def wake_waiters_def
      store_notified_def)

lemmas latch_simps [simp] = once_latch.new_unset once_latch.set_sets

lemma notified_run_Suc:
  "notified_run api (Suc k) w l = notified_run api k (fst (notified_step api w l)) (snd (notified_step api w l))"
  by (simp add: case_prod_beta)

lemma notified_run_done [simp]: "notified_run api k NfDone l = (NfDone, l)"
  by (induction k) simp_all

text \<open>A waiter that starts when the flag is set returns without awaiting.\<close>

lemma notified_run_flag_set:
  "no_notified l \<Longrightarrow> fst (notified_run api 3 NfStart l) = NfDone"
  "no_notified l \<Longrightarrow> fst (notified_run api 2 (NfPinned f) l) = NfDone"
  "no_notified l \<Longrightarrow> fst (notified_run api 1 (NfEnabled f) l) = NfDone"
  by (simp_all add: numeral_eq_Suc case_prod_beta)

text \<open>The first poll of \<open>notified()\<close> finds out whether the flag is set, and nothing else.\<close>

lemma notified_first_poll:
  assumes doc: "notify_documented api en wo"
    and quiet: "\<And>f. wo (no_notify l) f \<Longrightarrow> no_notified l"
  shows "fst (notified_run api 4 NfStart l) = NfDone \<longleftrightarrow> is_notified l"
  using quiet
  by (auto simp: numeral_eq_Suc case_prod_beta is_notified_def documented_poll [OF doc]
      documented_wo [OF doc])

section \<open>A concrete \<open>Notify\<close>\<close>

text \<open>
  The instance on which the witnesses evaluate: futures numbered as they are created, the
  lists of the enabled and of the woken ones.
\<close>

type_synonym toy_notify = "nat \<times> nat list \<times> nat list"

definition toy_api :: "toy_notify notify_api" where
  "toy_api = \<lparr>
     nt_default = (0, [], []),
     nt_notified = (\<lambda>(k, en, wo). (k, (Suc k, en, wo))),
     nt_enable = (\<lambda>f (k, en, wo). (f \<in> set wo, (k, f # en, wo))),
     nt_poll = (\<lambda>f (k, en, wo). (if f \<in> set wo then Ready () else Pending, (k, en, wo))),
     nt_notify_waiters = (\<lambda>(k, en, wo). (k, en, en @ wo))\<rparr>"

definition toy_enabled :: "toy_notify \<Rightarrow> nat \<Rightarrow> bool" where
  "toy_enabled n f = (f \<in> set (fst (snd n)))"

definition toy_woken :: "toy_notify \<Rightarrow> nat \<Rightarrow> bool" where
  "toy_woken n f = (f \<in> set (snd (snd n)))"

lemma toy_documented: "notify_documented toy_api toy_enabled toy_woken"
  by (auto simp: notify_documented_def toy_api_def toy_enabled_def toy_woken_def keeps_def same_woken_def)

text \<open>A run of one waiter (0) and one notifier (0), given as the list of who moves.\<close>

fun once_exec :: "'n notify_api \<Rightarrow> bool list \<Rightarrow> 'n once_sys \<Rightarrow> 'n once_sys" where
  "once_exec api [] s = s"
| "once_exec api (True # ms) s =
     (let (w, l) = notified_step api (os_waiter s 0) (os_latch s)
      in once_exec api ms (s\<lparr>os_latch := l, os_waiter := (os_waiter s)(0 := w)\<rparr>))"
| "once_exec api (False # ms) s =
     (let (p, l) = notifier_step api (os_notifier s 0) (os_latch s)
      in once_exec api ms (s\<lparr>os_latch := l, os_notifier := (os_notifier s)(0 := p)\<rparr>))"

definition once_start :: "'n notify_api \<Rightarrow> 'n once_sys" where
  "once_start api =
     \<lparr>os_latch = notify_once_default api, os_waiter = (\<lambda>_. NfStart), os_notifier = (\<lambda>_. NtStart)\<rparr>"

lemma once_exec_reachable:
  "once_reachable api s \<Longrightarrow> once_reachable api (once_exec api ms s)"
proof (induction ms arbitrary: s)
  case (Cons m ms)
  show ?case
  proof (cases m)
    case True
    then show ?thesis
      using Cons reach_step [OF Cons.prems waiter_moves [OF prod.collapse [symmetric], of api s 0]]
      by (simp add: case_prod_beta)
  next
    case False
    then show ?thesis
      using Cons reach_step [OF Cons.prems notifier_moves [OF prod.collapse [symmetric], of api s 0]]
      by (simp add: case_prod_beta)
  qed
qed simp

lemma once_start_reachable: "once_reachable api (once_exec api ms (once_start api))"
  by (rule once_exec_reachable) (simp add: reach_start once_init_def once_start_def)

section \<open>Properties\<close>

text \<open>
  C10. No wakeup is lost: in any interleaving of any number of notifiers and waiters, once
  one \<open>notify_waiters\<close> has returned, every waiter, wherever it stands in \<open>notified()\<close>,
  returns within four of its own steps.
\<close>

theorem no_lost_wakeup:
  assumes "notify_documented api en wo" and "once_reachable api s" and "os_notifier s j = NtDone"
  shows "fst (notified_run api 4 (os_waiter s i) (os_latch s)) = NfDone"
proof -
  have inv: "once_inv en wo s" using once.reach_inv assms(1,2) by blast
  have flag: "no_notified (os_latch s)" using once_invD(3) [OF inv, of j] assms(3) by simp
  show ?thesis
  proof (cases "os_waiter s i")
    case (NfAwaiting f)
    with once_invD(5) [OF inv assms(3)] have "wo (no_notify (os_latch s)) f" by blast
    with NfAwaiting show ?thesis
      by (simp add: numeral_eq_Suc case_prod_beta documented_poll [OF assms(1)])
  qed (use flag in \<open>simp_all add: numeral_eq_Suc case_prod_beta\<close>)
qed

theorem no_lost_wakeup_witness:
  "notify_documented toy_api toy_enabled toy_woken \<and>
   os_notifier (once_exec toy_api [True, True, True, False, False] (once_start toy_api)) 0 = NtDone \<and>
   os_waiter (once_exec toy_api [True, True, True, False, False] (once_start toy_api)) 0 = NfAwaiting 0 \<and>
   fst (notified_run toy_api 4
     (os_waiter (once_exec toy_api [True, True, True, False, False] (once_start toy_api)) 0)
     (os_latch (once_exec toy_api [True, True, True, False, False] (once_start toy_api)))) = NfDone"
proof -
  let ?s = "once_exec toy_api [True, True, True, False, False] (once_start toy_api)"
  have n: "os_notifier ?s 0 = NtDone" and w: "os_waiter ?s 0 = NfAwaiting 0"
    by (simp_all add: once_start_def notify_once_default_def toy_api_def)
  show ?thesis
    using no_lost_wakeup [OF toy_documented once_start_reachable n, of 0] toy_documented n w by blast
qed

text \<open>
  No waiter is released early: in any interleaving, a waiter whose \<open>notified()\<close> has
  returned finds the latch notified.
\<close>

theorem no_early_release:
  assumes "notify_documented api en wo" and "once_reachable api s" and "os_waiter s i = NfDone"
  shows "is_notified (os_latch s)"
proof -
  have "once_inv en wo s" using once.reach_inv assms(1,2) by blast
  then show ?thesis using once_invD(2) assms(3) by (auto simp: is_notified_def)
qed

theorem no_early_release_witness:
  "notify_documented toy_api toy_enabled toy_woken \<and>
   os_waiter (once_exec toy_api [True, False, True, False, True] (once_start toy_api)) 0 = NfDone \<and>
   is_notified (os_latch (once_exec toy_api [True, False, True, False, True] (once_start toy_api)))"
proof -
  let ?s = "once_exec toy_api [True, False, True, False, True] (once_start toy_api)"
  have w: "os_waiter ?s 0 = NfDone"
    by (simp add: once_start_def notify_once_default_def toy_api_def store_notified_def wake_waiters_def)
  show ?thesis
    using no_early_release [OF toy_documented once_start_reachable w] toy_documented w by blast
qed

section \<open>Refinement of an atomic latch\<close>

text \<open>
  The abstract latch: a flag and the set of released waiters. Setting the flag is one step,
  and a waiter is released only when the flag is set. The concrete operations take several
  steps each; the abstraction keeps the flag and forgets where everybody stands.
\<close>

inductive latch_spec_step :: "bool \<times> (nat \<Rightarrow> bool) \<Rightarrow> bool \<times> (nat \<Rightarrow> bool) \<Rightarrow> bool" where
  spec_set: "latch_spec_step (b, r) (True, r)"
| spec_release: "latch_spec_step (True, r) (True, r(i := True))"
| spec_stutter: "latch_spec_step x x"

definition once_abs :: "'n once_sys \<Rightarrow> bool \<times> (nat \<Rightarrow> bool)" where
  "once_abs s = (is_notified (os_latch s), \<lambda>i. os_waiter s i = NfDone)"

lemma once_abs_waiter:
  assumes doc: "notify_documented api en wo" and inv: "once_inv en wo s"
    and st: "notified_step api (os_waiter s i) (os_latch s) = (w, l)"
  shows "latch_spec_step (once_abs s) (once_abs (s\<lparr>os_latch := l, os_waiter := (os_waiter s)(i := w)\<rparr>))"
proof (cases "w = NfDone \<and> os_waiter s i \<noteq> NfDone")
  case True
  have "no_notified l"
    using once_invD(2) [OF once_inv_waiter [OF doc inv st], of i] True by simp
  moreover have "no_notified (os_latch s)"
    using calculation notified_step_flag [OF st] by simp
  moreover have "(\<lambda>k. ((os_waiter s)(i := w)) k = NfDone) = (\<lambda>k. os_waiter s k = NfDone)(i := True)"
    using True by (auto simp: fun_eq_iff)
  ultimately show ?thesis
    using spec_release by (simp add: once_abs_def is_notified_def)
next
  case False
  have "w = NfDone" if "os_waiter s i = NfDone" using that st by simp
  with False have "(\<lambda>k. ((os_waiter s)(i := w)) k = NfDone) = (\<lambda>k. os_waiter s k = NfDone)"
    by (auto simp: fun_eq_iff)
  then show ?thesis
    using spec_stutter notified_step_flag [OF st] by (simp add: once_abs_def is_notified_def)
qed

lemma once_abs_notifier:
  assumes "notifier_step api (os_notifier s j) (os_latch s) = (p, l)"
  shows "latch_spec_step (once_abs s) (once_abs (s\<lparr>os_latch := l, os_notifier := (os_notifier s)(j := p)\<rparr>))"
  using assms
  by (cases "os_notifier s j")
    (auto simp: once_abs_def is_notified_def store_notified_def wake_waiters_def intro: latch_spec_step.intros)

text \<open>
  C32. The latch refines the atomic one: every step of the fine-grained system is a step of
  the abstract latch or changes nothing of it.
\<close>

theorem once_refines_latch:
  assumes "notify_documented api en wo" and "once_reachable api s" and "once_step api s t"
  shows "latch_spec_step (once_abs s) (once_abs t)"
proof -
  have inv: "once_inv en wo s" using once.reach_inv assms(1,2) by blast
  from assms(3) show ?thesis
    by cases (auto intro: once_abs_waiter [OF assms(1) inv] once_abs_notifier)
qed

theorem once_refines_latch_witness:
  "once_abs (once_start toy_api) = (False, \<lambda>_. False) \<and>
   latch_spec_step (once_abs (once_start toy_api)) (once_abs (once_exec toy_api [False] (once_start toy_api)))"
proof -
  have start: "once_reachable toy_api (once_start toy_api)"
    using once_start_reachable [of toy_api "[]"] by simp
  have "once_step toy_api (once_start toy_api) (once_exec toy_api [False] (once_start toy_api))"
    using notifier_moves [OF prod.collapse [symmetric], of toy_api "once_start toy_api" 0]
    by (simp add: case_prod_beta)
  from once_refines_latch [OF toy_documented start this] show ?thesis
    by (simp add: once_abs_def once_start_def)
qed

end
