(* ===== verification/Handle.thy ===== *)
theory Handle
  imports NotifyOnce
begin

text \<open>
  \<open>src/src/handle.rs\<close>: the state that the server, its connection tasks and the user share
  (\<open>HandleInner\<close>), the operations of \<open>Handle\<close> and the life of a \<open>Watcher\<close>.

  An operation that makes several accesses to the shared state is given twice: as a
  machine with one access per step, which is what other threads can interleave with
  (\<open>watcher_drop_step\<close>, \<open>wait_connections_end_step\<close>, \<open>listening_step\<close>), and as the state
  change of the whole call where the code makes it in one piece. Waiting for a latch is
  observed by \<open>is_notified\<close>, and setting a latch (the store and the wakeup) is one step: the
  refinement in the theory \<open>NotifyOnce\<close> justifies both. The counter is a
  64 bit \<open>usize\<close> that wraps; the subtraction \<open>fetch_sub(..) - 1\<close> that overflows for a
  previous value of 0 is a state of its own.
\<close>

section \<open>The shared state\<close>

record ('a, 'n) handle_inner =
  hi_addr :: "'a option"
  hi_addr_notify :: "'n notify_once"
  hi_conn_count :: usize
  hi_shutdown :: "'n notify_once"
  hi_graceful :: "'n notify_once"
  hi_graceful_dur :: "duration option"
  hi_conn_end :: "'n notify_once"

definition handle_new :: "'n notify_api \<Rightarrow> ('a, 'n) handle_inner" where
  "handle_new api = \<lparr>
     hi_addr = None,
     hi_addr_notify = notify_once_default api,
     hi_conn_count = 0,
     hi_shutdown = notify_once_default api,
     hi_graceful = notify_once_default api,
     hi_graceful_dur = None,
     hi_conn_end = notify_once_default api\<rparr>"

definition connection_count :: "('a, 'n) handle_inner \<Rightarrow> usize" where
  "connection_count h = hi_conn_count h"

section \<open>Signals\<close>

definition handle_shutdown :: "'n notify_api \<Rightarrow> ('a, 'n) handle_inner \<Rightarrow> ('a, 'n) handle_inner" where
  "handle_shutdown api h = h\<lparr>hi_shutdown := notify_waiters api (hi_shutdown h)\<rparr>"

text \<open>\<open>graceful_shutdown\<close> writes the duration and then notifies.\<close>

definition set_graceful_dur :: "duration option \<Rightarrow> ('a, 'n) handle_inner \<Rightarrow> ('a, 'n) handle_inner" where
  "set_graceful_dur d h = h\<lparr>hi_graceful_dur := d\<rparr>"

definition notify_graceful :: "'n notify_api \<Rightarrow> ('a, 'n) handle_inner \<Rightarrow> ('a, 'n) handle_inner" where
  "notify_graceful api h = h\<lparr>hi_graceful := notify_waiters api (hi_graceful h)\<rparr>"

definition graceful_shutdown ::
  "'n notify_api \<Rightarrow> duration option \<Rightarrow> ('a, 'n) handle_inner \<Rightarrow> ('a, 'n) handle_inner" where
  "graceful_shutdown api d h = notify_graceful api (set_graceful_dur d h)"

text \<open>\<open>notify_listening\<close> writes the address and then notifies.\<close>

definition set_addr :: "'a option \<Rightarrow> ('a, 'n) handle_inner \<Rightarrow> ('a, 'n) handle_inner" where
  "set_addr a h = h\<lparr>hi_addr := a\<rparr>"

definition notify_addr :: "'n notify_api \<Rightarrow> ('a, 'n) handle_inner \<Rightarrow> ('a, 'n) handle_inner" where
  "notify_addr api h = h\<lparr>hi_addr_notify := notify_waiters api (hi_addr_notify h)\<rparr>"

definition notify_listening ::
  "'n notify_api \<Rightarrow> 'a option \<Rightarrow> ('a, 'n) handle_inner \<Rightarrow> ('a, 'n) handle_inner" where
  "notify_listening api a h = notify_addr api (set_addr a h)"

section \<open>Waiting\<close>

definition wait_shutdown :: "('a, 'n) handle_inner \<Rightarrow> unit poll" where
  "wait_shutdown h = (if is_notified (hi_shutdown h) then Ready () else Pending)"

definition wait_graceful_shutdown :: "('a, 'n) handle_inner \<Rightarrow> unit poll" where
  "wait_graceful_shutdown h = (if is_notified (hi_graceful h) then Ready () else Pending)"

text \<open>\<open>listening\<close>: wait for the address latch, then read the address.\<close>

datatype 'a listening_fut = LiWait | LiRead | LiDone "'a option"

fun listening_step :: "'a listening_fut \<Rightarrow> ('a, 'n) handle_inner \<Rightarrow> 'a listening_fut" where
  "listening_step LiWait h = (if is_notified (hi_addr_notify h) then LiRead else LiWait)"
| "listening_step LiRead h = LiDone (hi_addr h)"
| "listening_step (LiDone a) h = LiDone a"

text \<open>
  \<open>wait_connections_end\<close>: load the counter; read the duration; then, with a duration,
  \<open>select!\<close> between the sleep (polled first) and the end of the connections, without one
  wait for the end. \<open>elapsed\<close> is the result of polling the sleep.
\<close>

datatype wait_end_pc =
    WeCount
  | WeDur
  | WeSleep duration
  | WeTimedEnd duration
  | WeEnd
  | WeShutdown
  | WeDone

fun wait_connections_end_step ::
  "'n notify_api \<Rightarrow> bool \<Rightarrow> wait_end_pc \<Rightarrow> ('a, 'n) handle_inner \<Rightarrow> wait_end_pc \<times> ('a, 'n) handle_inner"
where
  "wait_connections_end_step api elapsed WeCount h =
     (if hi_conn_count h = 0 then (WeDone, h) else (WeDur, h))"
| "wait_connections_end_step api elapsed WeDur h =
     (case hi_graceful_dur h of Some d \<Rightarrow> (WeSleep d, h) | None \<Rightarrow> (WeEnd, h))"
| "wait_connections_end_step api elapsed (WeSleep d) h =
     (if elapsed then (WeShutdown, h) else (WeTimedEnd d, h))"
| "wait_connections_end_step api elapsed (WeTimedEnd d) h =
     (if is_notified (hi_conn_end h) then (WeDone, h) else (WeSleep d, h))"
| "wait_connections_end_step api elapsed WeEnd h =
     (if is_notified (hi_conn_end h) then (WeDone, h) else (WeEnd, h))"
| "wait_connections_end_step api elapsed WeShutdown h = (WeDone, handle_shutdown api h)"
| "wait_connections_end_step api elapsed WeDone h = (WeDone, h)"

section \<open>Watchers\<close>

definition watcher_new :: "('a, 'n) handle_inner \<Rightarrow> ('a, 'n) handle_inner" where
  "watcher_new h = h\<lparr>hi_conn_count := hi_conn_count h + 1\<rparr>"

text \<open>
  \<open>Drop for Watcher\<close>: subtract, giving the previous value; compute \<open>count\<close> from it; if it is
  0 read the graceful latch; if that is notified, notify the end of the connections.
\<close>

definition count_fetch_sub :: "('a, 'n) handle_inner \<Rightarrow> usize \<times> ('a, 'n) handle_inner" where
  "count_fetch_sub h = (hi_conn_count h, h\<lparr>hi_conn_count := hi_conn_count h - 1\<rparr>)"

definition notify_conn_end :: "'n notify_api \<Rightarrow> ('a, 'n) handle_inner \<Rightarrow> ('a, 'n) handle_inner" where
  "notify_conn_end api h = h\<lparr>hi_conn_end := notify_waiters api (hi_conn_end h)\<rparr>"

datatype drop_pc = DpSub | DpCheck usize | DpNotify | DpDone | DpOverflow

fun watcher_drop_step ::
  "'n notify_api \<Rightarrow> drop_pc \<Rightarrow> ('a, 'n) handle_inner \<Rightarrow> drop_pc \<times> ('a, 'n) handle_inner"
where
  "watcher_drop_step api DpSub h =
     (let (prev, h') = count_fetch_sub h
      in if prev = 0 then (DpOverflow, h') else (DpCheck (prev - 1), h'))"
| "watcher_drop_step api (DpCheck count) h =
     (if count = 0 \<and> is_notified (hi_graceful h) then (DpNotify, h) else (DpDone, h))"
| "watcher_drop_step api DpNotify h = (DpDone, notify_conn_end api h)"
| "watcher_drop_step api DpDone h = (DpDone, h)"
| "watcher_drop_step api DpOverflow h = (DpOverflow, h)"

text \<open>The whole drop, when no other thread runs in between.\<close>

definition watcher_drop :: "'n notify_api \<Rightarrow> ('a, 'n) handle_inner \<Rightarrow> ('a, 'n) handle_inner panicking" where
  "watcher_drop api h =
     (let (prev, h1) = count_fetch_sub h
      in if prev = 0 then Panics ''attempt to subtract with overflow''
         else Returns (let count = prev - 1
           in if count = 0 \<and> is_notified (hi_graceful h1) then notify_conn_end api h1 else h1))"

lemma watcher_drop_uninterrupted:
  "watcher_drop api h = Returns h' \<longleftrightarrow>
     (let (p1, h1) = watcher_drop_step api DpSub h;
          (p2, h2) = watcher_drop_step api p1 h1
      in watcher_drop_step api p2 h2) = (DpDone, h')"
  by (auto simp: watcher_drop_def count_fetch_sub_def Let_def)

section \<open>What the operations write\<close>

named_theorems handle_simps

lemmas handle_defs =
  handle_shutdown_def set_graceful_dur_def notify_graceful_def set_addr_def notify_addr_def
  watcher_new_def notify_conn_end_def

lemma handle_new_latches [handle_simps]:
  "\<not> is_notified (hi_shutdown (handle_new api))"
  "\<not> is_notified (hi_graceful (handle_new api))"
  "\<not> is_notified (hi_conn_end (handle_new api))"
  "\<not> is_notified (hi_addr_notify (handle_new api))"
  "hi_conn_count (handle_new api) = 0"
  by (simp_all add: handle_new_def)

lemma shutdown_latch [handle_simps]:
  "is_notified (hi_shutdown (handle_shutdown api h))"
  "hi_shutdown (notify_graceful api h) = hi_shutdown h"
  "hi_shutdown (set_graceful_dur d h) = hi_shutdown h"
  "hi_shutdown (set_addr a h) = hi_shutdown h"
  "hi_shutdown (notify_addr api h) = hi_shutdown h"
  "hi_shutdown (watcher_new h) = hi_shutdown h"
  "hi_shutdown (snd (count_fetch_sub h)) = hi_shutdown h"
  "hi_shutdown (notify_conn_end api h) = hi_shutdown h"
  by (simp_all add: handle_defs count_fetch_sub_def)

lemma graceful_latch [handle_simps]:
  "is_notified (hi_graceful (notify_graceful api h))"
  "hi_graceful (handle_shutdown api h) = hi_graceful h"
  "hi_graceful (set_graceful_dur d h) = hi_graceful h"
  "hi_graceful (set_addr a h) = hi_graceful h"
  "hi_graceful (notify_addr api h) = hi_graceful h"
  "hi_graceful (watcher_new h) = hi_graceful h"
  "hi_graceful (snd (count_fetch_sub h)) = hi_graceful h"
  "hi_graceful (notify_conn_end api h) = hi_graceful h"
  by (simp_all add: handle_defs count_fetch_sub_def)

lemma conn_end_latch [handle_simps]:
  "is_notified (hi_conn_end (notify_conn_end api h))"
  "hi_conn_end (handle_shutdown api h) = hi_conn_end h"
  "hi_conn_end (notify_graceful api h) = hi_conn_end h"
  "hi_conn_end (set_graceful_dur d h) = hi_conn_end h"
  "hi_conn_end (set_addr a h) = hi_conn_end h"
  "hi_conn_end (notify_addr api h) = hi_conn_end h"
  "hi_conn_end (watcher_new h) = hi_conn_end h"
  "hi_conn_end (snd (count_fetch_sub h)) = hi_conn_end h"
  by (simp_all add: handle_defs count_fetch_sub_def)

lemma addr_latch [handle_simps]:
  "is_notified (hi_addr_notify (notify_addr api h))"
  "hi_addr_notify (handle_shutdown api h) = hi_addr_notify h"
  "hi_addr_notify (notify_graceful api h) = hi_addr_notify h"
  "hi_addr_notify (set_graceful_dur d h) = hi_addr_notify h"
  "hi_addr_notify (set_addr a h) = hi_addr_notify h"
  "hi_addr_notify (watcher_new h) = hi_addr_notify h"
  "hi_addr_notify (snd (count_fetch_sub h)) = hi_addr_notify h"
  "hi_addr_notify (notify_conn_end api h) = hi_addr_notify h"
  by (simp_all add: handle_defs count_fetch_sub_def)

lemma addr_field [handle_simps]:
  "hi_addr (set_addr a h) = a"
  "hi_addr (handle_shutdown api h) = hi_addr h"
  "hi_addr (notify_graceful api h) = hi_addr h"
  "hi_addr (set_graceful_dur d h) = hi_addr h"
  "hi_addr (notify_addr api h) = hi_addr h"
  "hi_addr (watcher_new h) = hi_addr h"
  "hi_addr (snd (count_fetch_sub h)) = hi_addr h"
  "hi_addr (notify_conn_end api h) = hi_addr h"
  by (simp_all add: handle_defs count_fetch_sub_def)

lemma count_field [handle_simps]:
  "hi_conn_count (watcher_new h) = hi_conn_count h + 1"
  "hi_conn_count (snd (count_fetch_sub h)) = hi_conn_count h - 1"
  "fst (count_fetch_sub h) = hi_conn_count h"
  "hi_conn_count (handle_shutdown api h) = hi_conn_count h"
  "hi_conn_count (notify_graceful api h) = hi_conn_count h"
  "hi_conn_count (set_graceful_dur d h) = hi_conn_count h"
  "hi_conn_count (set_addr a h) = hi_conn_count h"
  "hi_conn_count (notify_addr api h) = hi_conn_count h"
  "hi_conn_count (notify_conn_end api h) = hi_conn_count h"
  by (simp_all add: handle_defs count_fetch_sub_def)

lemma dur_field [handle_simps]:
  "hi_graceful_dur (set_graceful_dur d h) = d"
  "hi_graceful_dur (handle_shutdown api h) = hi_graceful_dur h"
  "hi_graceful_dur (notify_graceful api h) = hi_graceful_dur h"
  "hi_graceful_dur (set_addr a h) = hi_graceful_dur h"
  "hi_graceful_dur (notify_addr api h) = hi_graceful_dur h"
  "hi_graceful_dur (watcher_new h) = hi_graceful_dur h"
  "hi_graceful_dur (snd (count_fetch_sub h)) = hi_graceful_dur h"
  "hi_graceful_dur (notify_conn_end api h) = hi_graceful_dur h"
  by (simp_all add: handle_defs count_fetch_sub_def)

section \<open>The counter as its clients see it\<close>

text \<open>
  A counter of the live members of a list: whoever joins increments it, whoever leaves
  decrements it. The contract is about words, so it survives a wrap-around; only the test
  for zero needs that fewer than \<open>2 ^ n\<close> members live.
\<close>

locale live_counter =
  fixes counter :: "'h \<Rightarrow> 'w::len word" and inc :: "'h \<Rightarrow> 'h" and dec :: "'h \<Rightarrow> 'h"
  assumes counter_inc: "counter (inc h) = counter h + 1"
    and counter_dec: "counter (dec h) = counter h - 1"
begin

lemma inc_tracks:
  "counter h = of_nat (count_if P xs) \<Longrightarrow> P x \<Longrightarrow> counter (inc h) = of_nat (count_if P (xs @ [x]))"
  by (simp add: counter_inc)

lemma dec_tracks:
  "counter h = of_nat (count_if P xs) \<Longrightarrow> i < length xs \<Longrightarrow> P (xs ! i) \<Longrightarrow> \<not> P y \<Longrightarrow>
   counter (dec h) = of_nat (count_if P (xs[i := y]))"
  by (simp add: counter_dec count_if_update_leave)

lemma zero_iff_none:
  "counter h = of_nat (count_if P xs) \<Longrightarrow> length xs < 2 ^ LENGTH('w) \<Longrightarrow>
   counter h = 0 \<longleftrightarrow> (\<forall>x \<in> set xs. \<not> P x)"
  using count_if_le_length [of P xs]
  by (simp add: word_of_nat_eq_0_iff count_if_0_iff [symmetric] nat_dvd_not_less)
    (metis dvd_0_right le_less_trans nat_dvd_not_less neq0_conv)

end

interpretation watchers: live_counter connection_count watcher_new "\<lambda>h. snd (count_fetch_sub h)"
  by unfold_locales (simp_all add: connection_count_def handle_simps)

end
