(* ===== verification/ServerConfig.thy ===== *)
theory ServerConfig
  imports Handle
begin

text \<open>
  The configuration side of \<open>src/src/server.rs\<close>: the \<open>Server\<close> value and its builder
  methods, the listeners it is made from (\<open>bind\<close>, \<open>from_listener\<close>, \<open>from_tcp\<close>,
  \<open>from_unix\<close>, the \<open>AddrListener\<close> implementations, \<open>bind_incoming\<close>), and the
  conversion \<open>io_other\<close>.

  Hyper's \<open>Builder\<close>, the sockets of \<open>std\<close> and Tokio are not code of the repository; what is
  called of them are the fields of \<open>builder_api\<close>, \<open>addr_listener\<close> and the function
  arguments of \<open>from_tcp\<close>, \<open>from_unix\<close> and \<open>unix_bind_to\<close>. A \<open>Handle\<close> is a reference:
  an index into the list of the handles allocated so far.
\<close>

section \<open>The server value\<close>

datatype http_version = Http1 | Http2

datatype ('a, 'l) listener = LBind 'a | LReady 'l

record 'b builder_api =
  bd_new :: "'b"
  bd_http1_timer :: "'b \<Rightarrow> 'b"
  bd_header_read_timeout :: "duration option \<Rightarrow> 'b \<Rightarrow> 'b"
  bd_http2_timer :: "'b \<Rightarrow> 'b"
  bd_http1_only :: "'b \<Rightarrow> 'b"
  bd_http2_only :: "'b \<Rightarrow> 'b"

record ('acc, 'b, 'a, 'l, 'k) server =
  sv_acceptor :: 'acc
  sv_builder :: 'b
  sv_listener :: "('a, 'l) listener"
  sv_handle :: nat
  sv_http_version :: "http_version option"
  sv_first_request_timeout :: "duration option"
  sv_accept_error_handler :: "'k option"

type_synonym ('a, 'n) handle_heap = "('a, 'n) handle_inner list"

definition handle_alloc :: "'n notify_api \<Rightarrow> ('a, 'n) handle_heap \<Rightarrow> nat \<times> ('a, 'n) handle_heap" where
  "handle_alloc api hp = (length hp, hp @ [handle_new api])"

definition default_builder :: "'b builder_api \<Rightarrow> 'b" where
  "default_builder bd =
     (let builder = bd_new bd;
          builder = bd_header_read_timeout bd None (bd_http1_timer bd builder);
          builder = bd_http2_timer bd builder
      in builder)"

text \<open>\<open>DefaultAcceptor\<close> is a unit struct: the acceptor of a new server is \<open>()\<close>.\<close>

definition server_bind ::
  "'n notify_api \<Rightarrow> 'b builder_api \<Rightarrow> 'a \<Rightarrow> ('a, 'n) handle_heap \<Rightarrow>
   (unit, 'b, 'a, 'l, 'k) server \<times> ('a, 'n) handle_heap"
where
  "server_bind api bd addr hp =
     (let acceptor = ();
          builder = default_builder bd;
          (handle, hp') = handle_alloc api hp
      in (\<lparr>sv_acceptor = acceptor, sv_builder = builder, sv_listener = LBind addr,
           sv_handle = handle, sv_http_version = None, sv_first_request_timeout = None,
           sv_accept_error_handler = None\<rparr>, hp'))"

definition server_from_listener ::
  "'n notify_api \<Rightarrow> 'b builder_api \<Rightarrow> 'l \<Rightarrow> ('a, 'n) handle_heap \<Rightarrow>
   (unit, 'b, 'a, 'l, 'k) server \<times> ('a, 'n) handle_heap"
where
  "server_from_listener api bd l hp =
     (let acceptor = ();
          builder = default_builder bd;
          (handle, hp') = handle_alloc api hp
      in (\<lparr>sv_acceptor = acceptor, sv_builder = builder, sv_listener = LReady l,
           sv_handle = handle, sv_http_version = None, sv_first_request_timeout = None,
           sv_accept_error_handler = None\<rparr>, hp'))"

section \<open>Builder methods\<close>

definition server_acceptor ::
  "('acc, 'b, 'a, 'l, 'k) server \<Rightarrow> 'acc2 \<Rightarrow> ('acc2, 'b, 'a, 'l, 'k) server"
where
  "server_acceptor s acceptor =
     \<lparr>sv_acceptor = acceptor, sv_builder = sv_builder s, sv_listener = sv_listener s,
      sv_handle = sv_handle s, sv_http_version = sv_http_version s,
      sv_first_request_timeout = sv_first_request_timeout s,
      sv_accept_error_handler = sv_accept_error_handler s\<rparr>"

definition server_map ::
  "('acc, 'b, 'a, 'l, 'k) server \<Rightarrow> ('acc \<Rightarrow> 'acc2) \<Rightarrow> ('acc2, 'b, 'a, 'l, 'k) server"
where
  "server_map s f =
     \<lparr>sv_acceptor = f (sv_acceptor s), sv_builder = sv_builder s, sv_listener = sv_listener s,
      sv_handle = sv_handle s, sv_http_version = sv_http_version s,
      sv_first_request_timeout = sv_first_request_timeout s,
      sv_accept_error_handler = sv_accept_error_handler s\<rparr>"

definition get_ref :: "('acc, 'b, 'a, 'l, 'k) server \<Rightarrow> 'acc" where
  "get_ref s = sv_acceptor s"

text \<open>\<open>get_mut\<close> and \<open>http_builder\<close> lend a field for mutation: an update of that field.\<close>

definition get_mut ::
  "('acc \<Rightarrow> 'acc) \<Rightarrow> ('acc, 'b, 'a, 'l, 'k) server \<Rightarrow> ('acc, 'b, 'a, 'l, 'k) server" where
  "get_mut f s = s\<lparr>sv_acceptor := f (sv_acceptor s)\<rparr>"

definition http_builder ::
  "('b \<Rightarrow> 'b) \<Rightarrow> ('acc, 'b, 'a, 'l, 'k) server \<Rightarrow> ('acc, 'b, 'a, 'l, 'k) server" where
  "http_builder f s = s\<lparr>sv_builder := f (sv_builder s)\<rparr>"

definition http1_only ::
  "'b builder_api \<Rightarrow> ('acc, 'b, 'a, 'l, 'k) server \<Rightarrow> ('acc, 'b, 'a, 'l, 'k) server" where
  "http1_only bd s =
     (let s = s\<lparr>sv_http_version := Some Http1\<rparr>
      in s\<lparr>sv_builder := bd_http1_only bd (sv_builder s)\<rparr>)"

definition http2_only ::
  "'b builder_api \<Rightarrow> ('acc, 'b, 'a, 'l, 'k) server \<Rightarrow> ('acc, 'b, 'a, 'l, 'k) server" where
  "http2_only bd s =
     (let s = s\<lparr>sv_http_version := Some Http2\<rparr>
      in s\<lparr>sv_builder := bd_http2_only bd (sv_builder s)\<rparr>)"

definition server_handle ::
  "nat \<Rightarrow> ('acc, 'b, 'a, 'l, 'k) server \<Rightarrow> ('acc, 'b, 'a, 'l, 'k) server" where
  "server_handle h s = s\<lparr>sv_handle := h\<rparr>"

definition first_request_timeout ::
  "duration option \<Rightarrow> ('acc, 'b, 'a, 'l, 'k) server \<Rightarrow> ('acc, 'b, 'a, 'l, 'k) server" where
  "first_request_timeout t s = s\<lparr>sv_first_request_timeout := t\<rparr>"

definition accept_error_handler ::
  "'k \<Rightarrow> ('acc, 'b, 'a, 'l, 'k) server \<Rightarrow> ('acc, 'b, 'a, 'l, 'k) server" where
  "accept_error_handler k s = s\<lparr>sv_accept_error_handler := Some k\<rparr>"

section \<open>Listeners\<close>

definition io_other :: "string \<Rightarrow> io_error" where
  "io_other e = IoError Other e"

text \<open>The trait \<open>AddrListener\<close>: how a listener is made, accepts and tells its address.\<close>

record ('a, 'l, 's) addr_listener =
  al_bind_to :: "'a \<Rightarrow> 'l io_result"
  al_accept_stream :: "'l \<Rightarrow> ('s \<times> 'a) io_result"
  al_get_local_addr :: "'l \<Rightarrow> 'a io_result"

text \<open>
  The implementation for \<open>UnixListener\<close>. Its arguments are \<open>as_pathname\<close>,
  \<open>UnixListener::bind\<close>, \<open>accept\<close>, \<open>local_addr\<close> and the conversion of Tokio's address type.
\<close>

definition unix_bind_to ::
  "('ua \<Rightarrow> 'path option) \<Rightarrow> ('path \<Rightarrow> 'l io_result) \<Rightarrow> 'ua \<Rightarrow> 'l io_result" where
  "unix_bind_to as_pathname bind_path addr =
     res_bind (ok_or (IoError InvalidInput ''A UnixListener can only be bound to a path address!'')
                (as_pathname addr))
       bind_path"

definition unix_accept_stream ::
  "('l \<Rightarrow> ('s \<times> 'ta) io_result) \<Rightarrow> ('ta \<Rightarrow> 'ua) \<Rightarrow> 'l \<Rightarrow> ('s \<times> 'ua) io_result" where
  "unix_accept_stream accept into l =
     res_bind (accept l) (\<lambda>(stream, tokio_addr). Inr (stream, into tokio_addr))"

definition unix_get_local_addr :: "('l \<Rightarrow> 'ta io_result) \<Rightarrow> ('ta \<Rightarrow> 'ua) \<Rightarrow> 'l \<Rightarrow> 'ua io_result" where
  "unix_get_local_addr local_addr into l = res_map into (local_addr l)"

definition unix_listener ::
  "('ua \<Rightarrow> 'path option) \<Rightarrow> ('path \<Rightarrow> 'l io_result) \<Rightarrow> ('l \<Rightarrow> ('s \<times> 'ta) io_result) \<Rightarrow>
   ('l \<Rightarrow> 'ta io_result) \<Rightarrow> ('ta \<Rightarrow> 'ua) \<Rightarrow> ('ua, 'l, 's) addr_listener"
where
  "unix_listener as_pathname bind_path accept local_addr into =
     \<lparr>al_bind_to = unix_bind_to as_pathname bind_path,
      al_accept_stream = unix_accept_stream accept into,
      al_get_local_addr = unix_get_local_addr local_addr into\<rparr>"

text \<open>The implementation for \<open>TcpListener\<close> forwards to Tokio.\<close>

definition tcp_listener ::
  "('a \<Rightarrow> 'l io_result) \<Rightarrow> ('l \<Rightarrow> ('s \<times> 'a) io_result) \<Rightarrow> ('l \<Rightarrow> 'a io_result) \<Rightarrow>
   ('a, 'l, 's) addr_listener"
where
  "tcp_listener bind accept local_addr =
     \<lparr>al_bind_to = bind, al_accept_stream = accept, al_get_local_addr = local_addr\<rparr>"

definition bind_incoming :: "('a, 'l, 's) addr_listener \<Rightarrow> ('a, 'l) listener \<Rightarrow> 'l io_result" where
  "bind_incoming ops listener =
     (case listener of LBind addr \<Rightarrow> al_bind_to ops addr | LReady l \<Rightarrow> Inr l)"

text \<open>
  \<open>from_tcp\<close> and \<open>from_unix\<close>: put the standard listener into non-blocking mode, hand it to
  Tokio, make a server of it.
\<close>

definition from_tcp ::
  "'n notify_api \<Rightarrow> 'b builder_api \<Rightarrow> (bool \<Rightarrow> 'sl \<Rightarrow> 'sl io_result) \<Rightarrow> ('sl \<Rightarrow> 'l io_result) \<Rightarrow>
   'sl \<Rightarrow> ('a, 'n) handle_heap \<Rightarrow>
   ((unit, 'b, 'a, 'l, 'k) server \<times> ('a, 'n) handle_heap) io_result"
where
  "from_tcp api bd set_nonblocking from_std l hp =
     res_bind (set_nonblocking True l) (\<lambda>l.
     res_bind (from_std l) (\<lambda>tl. Inr (server_from_listener api bd tl hp)))"

definition from_unix ::
  "'n notify_api \<Rightarrow> 'b builder_api \<Rightarrow> (bool \<Rightarrow> 'sl \<Rightarrow> 'sl io_result) \<Rightarrow> ('sl \<Rightarrow> 'l io_result) \<Rightarrow>
   'sl \<Rightarrow> ('a, 'n) handle_heap \<Rightarrow>
   ((unit, 'b, 'a, 'l, 'k) server \<times> ('a, 'n) handle_heap) io_result"
where
  "from_unix api bd set_nonblocking from_std l hp =
     res_bind (set_nonblocking True l) (\<lambda>l.
     res_bind (from_std l) (\<lambda>tl. Inr (server_from_listener api bd tl hp)))"

section \<open>Sequences of builder calls\<close>

text \<open>
  The methods that leave the type of the acceptor as it is, as data, so that a chain of
  calls is a list.
\<close>

datatype ('acc, 'k) builder_call =
    CallAcceptor 'acc
  | CallMap "'acc \<Rightarrow> 'acc"
  | CallHttp1Only
  | CallHttp2Only
  | CallHandle nat
  | CallFirstRequestTimeout "duration option"
  | CallErrorHandler 'k

fun apply_call ::
  "'b builder_api \<Rightarrow> ('acc, 'k) builder_call \<Rightarrow> ('acc, 'b, 'a, 'l, 'k) server \<Rightarrow>
   ('acc, 'b, 'a, 'l, 'k) server"
where
  "apply_call bd (CallAcceptor a) s = server_acceptor s a"
| "apply_call bd (CallMap f) s = server_map s f"
| "apply_call bd CallHttp1Only s = http1_only bd s"
| "apply_call bd CallHttp2Only s = http2_only bd s"
| "apply_call bd (CallHandle h) s = server_handle h s"
| "apply_call bd (CallFirstRequestTimeout t) s = first_request_timeout t s"
| "apply_call bd (CallErrorHandler k) s = accept_error_handler k s"

fun builder_chain ::
  "'b builder_api \<Rightarrow> ('acc, 'k) builder_call list \<Rightarrow> ('acc, 'b, 'a, 'l, 'k) server \<Rightarrow>
   ('acc, 'b, 'a, 'l, 'k) server"
where
  "builder_chain bd [] s = s"
| "builder_chain bd (c # cs) s = builder_chain bd cs (apply_call bd c s)"

lemma builder_chain_append:
  "builder_chain bd (cs @ ds) s = builder_chain bd ds (builder_chain bd cs s)"
  by (induction cs arbitrary: s) simp_all

fun call_version :: "('acc, 'k) builder_call \<Rightarrow> http_version option" where
  "call_version CallHttp1Only = Some Http1"
| "call_version CallHttp2Only = Some Http2"
| "call_version _ = None"

lemmas builder_defs =
  server_acceptor_def server_map_def http1_only_def http2_only_def server_handle_def
  first_request_timeout_def accept_error_handler_def Let_def

lemma apply_call_version:
  "sv_http_version (apply_call bd c s) =
     (case call_version c of None \<Rightarrow> sv_http_version s | Some v \<Rightarrow> Some v)"
  by (cases c) (simp_all add: builder_defs)

lemma apply_call_listener: "sv_listener (apply_call bd c s) = sv_listener s"
  by (cases c) (simp_all add: builder_defs)

text \<open>What a single call writes; everything else stays.\<close>

lemma apply_call_builder:
  "sv_builder (apply_call bd c s) =
     (case call_version c of
        None \<Rightarrow> sv_builder s
      | Some Http1 \<Rightarrow> bd_http1_only bd (sv_builder s)
      | Some Http2 \<Rightarrow> bd_http2_only bd (sv_builder s))"
  by (cases c) (simp_all add: builder_defs)

section \<open>Properties\<close>

text \<open>
  The HTTP version of a server is the one chosen by the last \<open>http1_only\<close> or
  \<open>http2_only\<close> of the chain of builder calls, whatever acceptors, maps, handles, timeouts
  and error handlers are set before, between and after; the listener is never changed; and
  Hyper's builder receives exactly the restrictions of the chain, in their order.
\<close>

theorem builder_chain_last_version_wins:
  "sv_http_version (builder_chain bd cs s) =
     (case rev (List.map_filter call_version cs) of [] \<Rightarrow> sv_http_version s | v # _ \<Rightarrow> Some v) \<and>
   sv_listener (builder_chain bd cs s) = sv_listener s \<and>
   sv_builder (builder_chain bd cs s) =
     fold (\<lambda>v. case v of Http1 \<Rightarrow> bd_http1_only bd | Http2 \<Rightarrow> bd_http2_only bd)
       (List.map_filter call_version cs) (sv_builder s)"
proof (induction cs rule: rev_induct)
  case Nil
  show ?case by (simp add: map_filter_simps)
next
  case (snoc c cs)
  have "List.map_filter call_version (cs @ [c]) =
      List.map_filter call_version cs @ (case call_version c of None \<Rightarrow> [] | Some v \<Rightarrow> [v])"
    by (simp add: List.map_filter_def split: option.split)
  with snoc show ?case
    by (simp add: builder_chain_append apply_call_version apply_call_listener
        apply_call_builder split: option.split http_version.split)
qed

text \<open>
  A server made by \<open>from_tcp\<close> (and by \<open>from_unix\<close>) hands Tokio a listener that is in
  non-blocking mode, serves that listener, and has a fresh handle of its own; a failure of
  either call is returned and nothing is allocated.
\<close>

theorem from_std_listener_nonblocking:
  assumes "mk = from_tcp \<or> mk = from_unix"
    and "\<forall>l l'. set_nonblocking True l = Inr l' \<longrightarrow> nonblocking l'"
    and "mk api bd set_nonblocking from_std l hp = Inr (s, hp')"
  shows "\<exists>l' tl. nonblocking l' \<and> from_std l' = Inr tl \<and> sv_listener s = LReady tl \<and>
    sv_handle s = length hp \<and> hp' = hp @ [handle_new api]"
proof -
  from assms(1,3) obtain l' tl where l': "set_nonblocking True l = Inr l'" "from_std l' = Inr tl"
    and "sv_listener s = LReady tl" "sv_handle s = length hp" "hp' = hp @ [handle_new api]"
    by (auto simp: from_tcp_def from_unix_def server_from_listener_def handle_alloc_def Let_def)
  with assms(2) l'(1) show ?thesis by blast
qed

text \<open>
  A standard listener of the witness: its blocking mode and its number. \<open>from_std\<close> refuses
  a blocking one.
\<close>

definition toy_builder :: "unit builder_api" where
  "toy_builder = \<lparr>bd_new = (), bd_http1_timer = id, bd_header_read_timeout = (\<lambda>_. id),
     bd_http2_timer = id, bd_http1_only = id, bd_http2_only = id\<rparr>"

definition toy_set_nonblocking :: "bool \<Rightarrow> bool \<times> nat \<Rightarrow> (bool \<times> nat) io_result" where
  "toy_set_nonblocking b l = Inr (b, snd l)"

definition toy_from_std :: "bool \<times> nat \<Rightarrow> nat io_result" where
  "toy_from_std l = (if fst l then Inr (snd l) else Inl (io_other ''blocking''))"

definition toy_server :: "(unit, unit, nat, nat, unit) server" where
  "toy_server = \<lparr>sv_acceptor = (), sv_builder = (), sv_listener = LReady 7, sv_handle = 0,
     sv_http_version = None, sv_first_request_timeout = None, sv_accept_error_handler = None\<rparr>"

lemma toy_from_tcp:
  "from_tcp toy_api toy_builder toy_set_nonblocking toy_from_std (False, 7) [] =
     Inr (toy_server, [handle_new toy_api])"
  by (simp add: from_tcp_def server_from_listener_def handle_alloc_def Let_def toy_builder_def
      toy_set_nonblocking_def toy_from_std_def toy_server_def default_builder_def)

theorem from_std_listener_nonblocking_witness:
  "\<exists>l' tl. fst l' \<and> toy_from_std l' = Inr tl \<and> sv_listener toy_server = LReady tl"
proof -
  have nb: "\<forall>l l'. toy_set_nonblocking True l = Inr l' \<longrightarrow> fst l'"
    by (auto simp: toy_set_nonblocking_def)
  show ?thesis
    using from_std_listener_nonblocking [where mk = from_tcp and nonblocking = fst, OF _ nb toy_from_tcp]
    by auto
qed

end
