(* ===== verification/Services.thy ===== *)
theory Services
  imports ServerConfig
begin

text \<open>
  The services the server builds around the user's: \<open>src/src/service.rs\<close> (the traits that
  \<open>serve\<close> asks for, implemented by delegation to \<open>tower\<close>'s \<open>Service\<close>), the service of
  \<open>LocalAddrAcceptor\<close> (\<open>src/src/accept.rs\<close>), \<open>TlsInfo\<close> and \<open>TlsService\<close>
  (\<open>src/src/tls.rs\<close>), and \<open>FirstRequestService\<close> (\<open>src/src/server.rs\<close>).

  A \<open>tower\<close> service is the record of its two operations on its own state. Requests and
  their extensions belong to the crate \<open>http\<close>: the operations the code uses are the fields
  of \<open>ext_api\<close>, an argument of the definitions, and \<open>ext_documented\<close> is what they promise.
\<close>

section \<open>Services\<close>

record ('s, 'req, 'e, 'fut) service_ops =
  svc_poll_ready :: "'s \<Rightarrow> ('e + unit) poll \<times> 's"
  svc_call :: "'req \<Rightarrow> 's \<Rightarrow> 'fut \<times> 's"

definition into_service :: "'s \<Rightarrow> 's" where
  "into_service s = s"

text \<open>\<open>MakeService\<close> is implemented by every service of targets.\<close>

definition make_poll_ready ::
  "('m, 'target, 'e, 'fut) service_ops \<Rightarrow> 'm \<Rightarrow> ('e + unit) poll \<times> 'm" where
  "make_poll_ready ops m = svc_poll_ready ops m"

definition make_service ::
  "('m, 'target, 'e, 'fut) service_ops \<Rightarrow> 'target \<Rightarrow> 'm \<Rightarrow> 'fut \<times> 'm" where
  "make_service ops target m = svc_call ops target m"

text \<open>The use of a service: a sequence of operations, with what they return.\<close>

datatype 'req svc_op = OpReady | OpCall 'req

datatype ('e, 'fut) svc_out = OutReady "('e + unit) poll" | OutFuture 'fut

fun svc_step :: "('s, 'req, 'e, 'fut) service_ops \<Rightarrow> 'req svc_op \<Rightarrow> 's \<Rightarrow> ('e, 'fut) svc_out \<times> 's" where
  "svc_step ops OpReady s = (let (r, s') = svc_poll_ready ops s in (OutReady r, s'))"
| "svc_step ops (OpCall req) s = (let (f, s') = svc_call ops req s in (OutFuture f, s'))"

fun svc_run ::
  "('s, 'req, 'e, 'fut) service_ops \<Rightarrow> 'req svc_op list \<Rightarrow> 's \<Rightarrow> ('e, 'fut) svc_out list \<times> 's"
where
  "svc_run ops [] s = ([], s)"
| "svc_run ops (x # xs) s =
     (let (out, s') = svc_step ops x s; (outs, s'') = svc_run ops xs s' in (out # outs, s''))"

text \<open>
  The interface of a layer: a service that delegates to an inner one and only changes the
  requests on the way, always in the same manner.
\<close>

locale request_layer =
  fixes inner :: "('s, 'req, 'e, 'fut) service_ops" and outer :: "('w, 'req, 'e, 'fut) service_ops"
    and unwrap :: "'w \<Rightarrow> 's" and change :: "'w \<Rightarrow> 'req \<Rightarrow> 'req"
  assumes layer_ready: "svc_poll_ready outer w = (r, w') \<Longrightarrow>
      svc_poll_ready inner (unwrap w) = (r, unwrap w') \<and> change w' = change w"
    and layer_call: "svc_call outer req w = (f, w') \<Longrightarrow>
      svc_call inner (change w req) (unwrap w) = (f, unwrap w') \<and> change w' = change w"
begin

lemma layer_step:
  "svc_step outer x w = (out, w') \<Longrightarrow>
   svc_step inner (map_svc_op (change w) x) (unwrap w) = (out, unwrap w') \<and> change w' = change w"
  by (cases x) (auto simp: Let_def split: prod.splits dest!: layer_ready layer_call)

lemma layer_run:
  "svc_run outer xs w = (outs, w') \<Longrightarrow>
   svc_run inner (map (map_svc_op (change w)) xs) (unwrap w) = (outs, unwrap w') \<and> change w' = change w"
proof (induction xs arbitrary: w outs)
  case (Cons x xs)
  from Cons.prems obtain out v outs' where "svc_step outer x w = (out, v)"
    and "svc_run outer xs v = (outs', w')" and "outs = out # outs'"
    by (auto simp: Let_def split: prod.splits)
  with layer_step [of x w out v] Cons.IH [of v outs'] show ?case by simp
qed simp

end

section \<open>Request extensions\<close>

type_synonym bytes = "8 word list"

datatype 'a local_addr = LocalAddr 'a

record tls_info =
  ti_server_name :: "string option"
  ti_alpn_protocol :: "bytes option"
  ti_peer_certificates :: "bytes list"

definition tls_info_new :: "string option \<Rightarrow> bytes option \<Rightarrow> bytes list \<Rightarrow> tls_info" where
  "tls_info_new server_name alpn_protocol peer_certificates =
     \<lparr>ti_server_name = server_name, ti_alpn_protocol = alpn_protocol,
      ti_peer_certificates = peer_certificates\<rparr>"

record ('req, 'a) ext_api =
  ex_insert_local_addr :: "'a local_addr \<Rightarrow> 'req \<Rightarrow> 'req"
  ex_insert_tls_info :: "tls_info \<Rightarrow> 'req \<Rightarrow> 'req"
  ex_local_addr :: "'req \<Rightarrow> 'a local_addr option"
  ex_tls_info :: "'req \<Rightarrow> tls_info option"

text \<open>Extensions are keyed by type: inserting replaces the value of its type only.\<close>

definition ext_documented :: "('req, 'a) ext_api \<Rightarrow> bool" where
  "ext_documented ext \<longleftrightarrow>
     (\<forall>a r. ex_local_addr ext (ex_insert_local_addr ext a r) = Some a) \<and>
     (\<forall>i r. ex_tls_info ext (ex_insert_tls_info ext i r) = Some i) \<and>
     (\<forall>a r. ex_tls_info ext (ex_insert_local_addr ext a r) = ex_tls_info ext r) \<and>
     (\<forall>i r. ex_local_addr ext (ex_insert_tls_info ext i r) = ex_local_addr ext r)"

section \<open>\<open>LocalAddrService\<close> and \<open>TlsService\<close>\<close>

record ('s, 'a) local_addr_service =
  las_inner :: 's
  las_local_addr :: "'a local_addr"

definition local_addr_ops ::
  "('req, 'a) ext_api \<Rightarrow> ('s, 'req, 'e, 'fut) service_ops \<Rightarrow>
   (('s, 'a) local_addr_service, 'req, 'e, 'fut) service_ops" where
  "local_addr_ops ext ops = \<lparr>
     svc_poll_ready = (\<lambda>w. let (r, s) = svc_poll_ready ops (las_inner w) in (r, w\<lparr>las_inner := s\<rparr>)),
     svc_call = (\<lambda>req w.
       let req = ex_insert_local_addr ext (las_local_addr w) req;
           (f, s) = svc_call ops req (las_inner w)
       in (f, w\<lparr>las_inner := s\<rparr>))\<rparr>"

record 's tls_service =
  tsv_inner :: 's
  tsv_info :: tls_info

definition tls_service_new :: "'s \<Rightarrow> tls_info \<Rightarrow> 's tls_service" where
  "tls_service_new inner info = \<lparr>tsv_inner = inner, tsv_info = info\<rparr>"

definition tls_service_ops ::
  "('req, 'a) ext_api \<Rightarrow> ('s, 'req, 'e, 'fut) service_ops \<Rightarrow>
   ('s tls_service, 'req, 'e, 'fut) service_ops" where
  "tls_service_ops ext ops = \<lparr>
     svc_poll_ready = (\<lambda>w. let (r, s) = svc_poll_ready ops (tsv_inner w) in (r, w\<lparr>tsv_inner := s\<rparr>)),
     svc_call = (\<lambda>req w.
       let req = ex_insert_tls_info ext (tsv_info w) req;
           (f, s) = svc_call ops req (tsv_inner w)
       in (f, w\<lparr>tsv_inner := s\<rparr>))\<rparr>"

interpretation local_layer: request_layer ops "local_addr_ops ext ops" las_inner
    "\<lambda>w. ex_insert_local_addr ext (las_local_addr w)"
  for ext :: "('req, 'a) ext_api" and ops
  by unfold_locales (auto simp: local_addr_ops_def Let_def split: prod.splits)

interpretation tls_layer: request_layer ops "tls_service_ops ext ops" tsv_inner
    "\<lambda>w. ex_insert_tls_info ext (tsv_info w)"
  for ext :: "('req, 'a) ext_api" and ops
  by unfold_locales (auto simp: tls_service_ops_def Let_def split: prod.splits)

section \<open>\<open>FirstRequestService\<close>\<close>

text \<open>
  The clones of one service share an \<open>Arc<Mutex<Option<Sender>>>\<close>: \<open>frs_notify\<close> is its
  address in \<open>fc_cells\<close>, a sender is its number, and \<open>fc_sent\<close> lists the senders on which
  \<open>send\<close> was called.
\<close>

record 's first_request_service =
  frs_inner :: 's
  frs_notify :: "nat option"

record first_request_chan =
  fc_cells :: "nat option list"
  fc_sent :: "nat list"

definition first_request_new :: "'s \<Rightarrow> nat option \<Rightarrow> 's first_request_service" where
  "first_request_new inner notify = \<lparr>frs_inner = inner, frs_notify = notify\<rparr>"

text \<open>
  What the connection task does before it serves: with a timeout it creates a channel (the
  sender \<open>tx\<close> in a fresh cell) and keeps its receiver, without one there is neither.
\<close>

definition first_request_setup ::
  "duration option \<Rightarrow> nat \<Rightarrow> 's \<Rightarrow> first_request_chan \<Rightarrow>
   's first_request_service \<times> nat option \<times> first_request_chan" where
  "first_request_setup timeout tx service ch =
     (case timeout of
        Some _ \<Rightarrow> (first_request_new service (Some (length (fc_cells ch))), Some tx,
                   ch\<lparr>fc_cells := fc_cells ch @ [Some tx]\<rparr>)
      | None \<Rightarrow> (first_request_new service None, None, ch))"

definition first_request_ready ::
  "('s, 'req, 'e, 'fut) service_ops \<Rightarrow> 's first_request_service \<Rightarrow>
   ('e + unit) poll \<times> 's first_request_service" where
  "first_request_ready ops w =
     (let (r, s) = svc_poll_ready ops (frs_inner w) in (r, w\<lparr>frs_inner := s\<rparr>))"

text \<open>\<open>notify.lock().unwrap().take()\<close> and \<open>tx.send(())\<close>.\<close>

definition first_request_notify :: "nat option \<Rightarrow> first_request_chan \<Rightarrow> first_request_chan" where
  "first_request_notify notify ch =
     (case notify of
        None \<Rightarrow> ch
      | Some cell \<Rightarrow>
          (case fc_cells ch ! cell of
             None \<Rightarrow> ch
           | Some tx \<Rightarrow> ch\<lparr>fc_cells := (fc_cells ch)[cell := None], fc_sent := fc_sent ch @ [tx]\<rparr>))"

definition first_request_call ::
  "('s, 'req, 'e, 'fut) service_ops \<Rightarrow> 'req \<Rightarrow> 's first_request_service \<Rightarrow> first_request_chan \<Rightarrow>
   'fut \<times> 's first_request_service \<times> first_request_chan" where
  "first_request_call ops req w ch =
     (let ch' = first_request_notify (frs_notify w) ch;
          (f, s) = svc_call ops req (frs_inner w)
      in (f, w\<lparr>frs_inner := s\<rparr>, ch'))"

text \<open>The clones of the service of one connection, and what Hyper does with them.\<close>

datatype 'req clone_op = ClClone nat | ClUse nat "'req svc_op" | ClDrop nat

record ('s, 'e, 'fut) clones =
  cl_services :: "'s first_request_service option list"
  cl_chan :: first_request_chan
  cl_outs :: "('e, 'fut) svc_out list"

fun clones_step ::
  "('s, 'req, 'e, 'fut) service_ops \<Rightarrow> 'req clone_op \<Rightarrow> ('s, 'e, 'fut) clones \<Rightarrow> ('s, 'e, 'fut) clones"
where
  "clones_step ops (ClClone i) st =
     (if i < length (cl_services st) then st\<lparr>cl_services := cl_services st @ [cl_services st ! i]\<rparr> else st)"
| "clones_step ops (ClUse i OpReady) st =
     (if i < length (cl_services st)
      then (case cl_services st ! i of
              None \<Rightarrow> st
            | Some w \<Rightarrow> (let (r, w') = first_request_ready ops w
                in st\<lparr>cl_services := (cl_services st)[i := Some w'], cl_outs := cl_outs st @ [OutReady r]\<rparr>))
      else st)"
| "clones_step ops (ClUse i (OpCall req)) st =
     (if i < length (cl_services st)
      then (case cl_services st ! i of
              None \<Rightarrow> st
            | Some w \<Rightarrow> (let (f, w', ch) = first_request_call ops req w (cl_chan st)
                in st\<lparr>cl_services := (cl_services st)[i := Some w'], cl_chan := ch,
                       cl_outs := cl_outs st @ [OutFuture f]\<rparr>))
      else st)"
| "clones_step ops (ClDrop i) st =
     (if i < length (cl_services st) then st\<lparr>cl_services := (cl_services st)[i := None]\<rparr> else st)"

definition clones_run ::
  "('s, 'req, 'e, 'fut) service_ops \<Rightarrow> 'req clone_op list \<Rightarrow> ('s, 'e, 'fut) clones \<Rightarrow> ('s, 'e, 'fut) clones"
where
  "clones_run ops xs st = fold (clones_step ops) xs st"

text \<open>The specification: the plain services, used by the same operations.\<close>

fun plain_step ::
  "('s, 'req, 'e, 'fut) service_ops \<Rightarrow> 'req clone_op \<Rightarrow>
   's option list \<times> ('e, 'fut) svc_out list \<Rightarrow> 's option list \<times> ('e, 'fut) svc_out list"
where
  "plain_step ops (ClClone i) (ss, outs) = (if i < length ss then (ss @ [ss ! i], outs) else (ss, outs))"
| "plain_step ops (ClUse i x) (ss, outs) =
     (if i < length ss
      then (case ss ! i of
              None \<Rightarrow> (ss, outs)
            | Some s \<Rightarrow> (let (out, s') = svc_step ops x s in (ss[i := Some s'], outs @ [out])))
      else (ss, outs))"
| "plain_step ops (ClDrop i) (ss, outs) = (if i < length ss then (ss[i := None], outs) else (ss, outs))"

definition clones_abs ::
  "('s, 'e, 'fut) clones \<Rightarrow> 's option list \<times> ('e, 'fut) svc_out list" where
  "clones_abs st = (map (map_option frs_inner) (cl_services st), cl_outs st)"

lemma clones_step_refines: "clones_abs (clones_step ops x st) = plain_step ops x (clones_abs st)"
  by (cases "(ops, x, st)" rule: clones_step.cases)
    (auto simp: clones_abs_def first_request_ready_def first_request_call_def map_update Let_def
      split: option.splits prod.splits)

lemma clones_run_refines: "clones_abs (clones_run ops xs st) = fold (plain_step ops) xs (clones_abs st)"
  unfolding clones_run_def by (induction xs arbitrary: st) (simp_all add: clones_step_refines)

text \<open>
  The signal: all clones point to one cell, which holds the sender until it was used; it is
  used exactly when the first request reaches a clone that is still there.
\<close>

fun dispatches :: "'req clone_op \<Rightarrow> ('s, 'e, 'fut) clones \<Rightarrow> bool" where
  "dispatches (ClUse i (OpCall req)) st = (i < length (cl_services st) \<and> cl_services st ! i \<noteq> None)"
| "dispatches _ st = False"

fun futures_of :: "('e, 'fut) svc_out list \<Rightarrow> 'fut list" where
  "futures_of [] = []"
| "futures_of (OutFuture f # xs) = f # futures_of xs"
| "futures_of (OutReady r # xs) = futures_of xs"

lemma futures_of_append [simp]: "futures_of (xs @ ys) = futures_of xs @ futures_of ys"
  by (induction xs rule: futures_of.induct) auto

definition signal_inv :: "nat \<Rightarrow> nat \<Rightarrow> nat list \<Rightarrow> ('s, 'e, 'fut) clones \<Rightarrow> bool" where
  "signal_inv cell tx sent st \<longleftrightarrow>
     (\<forall>w. Some w \<in> set (cl_services st) \<longrightarrow> frs_notify w = Some cell) \<and>
     cell < length (fc_cells (cl_chan st)) \<and>
     (if futures_of (cl_outs st) = []
      then fc_cells (cl_chan st) ! cell = Some tx \<and> fc_sent (cl_chan st) = sent
      else fc_cells (cl_chan st) ! cell = None \<and> fc_sent (cl_chan st) = sent @ [tx])"

lemma signal_inv_step:
  assumes "signal_inv cell tx sent st"
  shows "signal_inv cell tx sent (clones_step ops x st)"
proof (cases "(ops, x, st)" rule: clones_step.cases)
  case (1 o' i s')
  with assms show ?thesis by (auto simp: signal_inv_def)
next
  case (2 o' i s')
  with assms show ?thesis
    by (auto simp: signal_inv_def first_request_ready_def Let_def split: option.splits prod.splits
        dest!: set_update_subset_insert [THEN subsetD]) (metis nth_mem)+
next
  case (3 o' i req s')
  show ?thesis
  proof (cases "i < length (cl_services st) \<and> cl_services st ! i \<noteq> None")
    case False
    with 3 assms show ?thesis by (auto split: option.split)
  next
    case True
    then obtain w where w: "i < length (cl_services st)" "cl_services st ! i = Some w" by auto
    then have "frs_notify w = Some cell" using assms by (metis signal_inv_def nth_mem)
    with 3 w assms show ?thesis
      by (auto simp: signal_inv_def first_request_call_def first_request_notify_def Let_def
          split: prod.splits if_splits dest!: set_update_subset_insert [THEN subsetD])
  qed
next
  case (4 o' i s')
  with assms show ?thesis
    by (auto simp: signal_inv_def dest!: set_update_subset_insert [THEN subsetD])
qed

lemma signal_inv_run: "signal_inv cell tx sent st \<Longrightarrow> signal_inv cell tx sent (clones_run ops xs st)"
  unfolding clones_run_def by (induction xs arbitrary: st) (simp_all add: signal_inv_step)

section \<open>Properties\<close>

text \<open>
  With a first-request timeout, whatever Hyper does with the service of a connection and
  its clones, the sender is used exactly when the first request is dispatched and never
  again; apart from that the service answers exactly as the user's service would.
\<close>

theorem first_request_signalled_once:
  fixes ops :: "('s, 'req, 'e, 'fut) service_ops"
  shows "let (w, rx, ch') = first_request_setup (Some timeout) tx s ch;
       st = clones_run ops xs \<lparr>cl_services = [Some w], cl_chan = ch', cl_outs = []\<rparr>
   in rx = Some tx \<and>
      fc_sent (cl_chan st) = (if futures_of (cl_outs st) = [] then fc_sent ch else fc_sent ch @ [tx]) \<and>
      clones_abs st = fold (plain_step ops) xs ([Some s], [])"
proof -
  let ?w = "first_request_new s (Some (length (fc_cells ch)))"
  let ?st = "\<lparr>cl_services = [Some ?w], cl_chan = ch\<lparr>fc_cells := fc_cells ch @ [Some tx]\<rparr>, cl_outs = []\<rparr> :: ('s, 'e, 'fut) clones"
  have "signal_inv (length (fc_cells ch)) tx (fc_sent ch) ?st"
    by (simp add: signal_inv_def first_request_new_def)
  from signal_inv_run [OF this, of ops xs]
  have "fc_sent (cl_chan (clones_run ops xs ?st)) =
      (if futures_of (cl_outs (clones_run ops xs ?st)) = [] then fc_sent ch else fc_sent ch @ [tx])"
    by (simp add: signal_inv_def split: if_splits)
  moreover have "clones_abs ?st = ([Some s], [])" by (simp add: clones_abs_def first_request_new_def)
  ultimately show ?thesis by (simp add: first_request_setup_def clones_run_refines)
qed

text \<open>
  Layers compose: the service that a TLS acceptor over \<open>LocalAddrAcceptor\<close> gives a
  connection answers every use exactly as the user's service answers it on requests that
  carry both the local address and the TLS information of the connection.
\<close>

theorem tls_over_local_addr:
  assumes "ext_documented ext"
    and "svc_run (tls_service_ops ext (local_addr_ops ext ops)) xs
      (tls_service_new \<lparr>las_inner = s, las_local_addr = a\<rparr> info) = (outs, w)"
  shows "\<exists>change s'. svc_run ops (map (map_svc_op change) xs) s = (outs, s') \<and>
    s' = las_inner (tsv_inner w) \<and>
    (\<forall>req. ex_local_addr ext (change req) = Some a \<and> ex_tls_info ext (change req) = Some info)"
proof -
  let ?change = "\<lambda>req. ex_insert_local_addr ext a (ex_insert_tls_info ext info req)"
  from tls_layer.layer_run [OF assms(2)]
  have "svc_run (local_addr_ops ext ops) (map (map_svc_op (ex_insert_tls_info ext info)) xs)
      \<lparr>las_inner = s, las_local_addr = a\<rparr> = (outs, tsv_inner w)"
    by (simp add: tls_service_new_def)
  from local_layer.layer_run [OF this]
  have "svc_run ops (map (map_svc_op ?change) xs) s = (outs, las_inner (tsv_inner w))"
    by (simp add: svc_op.map_comp comp_def)
  moreover have "ex_local_addr ext (?change req) = Some a \<and> ex_tls_info ext (?change req) = Some info" for req
    using assms(1) by (simp add: ext_documented_def)
  ultimately show ?thesis by blast
qed

type_synonym toy_request = "nat local_addr option \<times> tls_info option"

definition toy_ext :: "(toy_request, nat) ext_api" where
  "toy_ext = \<lparr>ex_insert_local_addr = (\<lambda>a (_, i). (Some a, i)), ex_insert_tls_info = (\<lambda>i (a, _). (a, Some i)),
     ex_local_addr = fst, ex_tls_info = snd\<rparr>"

definition toy_service :: "(nat, toy_request, unit, toy_request) service_ops" where
  "toy_service = \<lparr>svc_poll_ready = (\<lambda>n. (Ready (Inr ()), n)), svc_call = (\<lambda>req n. (req, Suc n))\<rparr>"

theorem tls_over_local_addr_witness:
  "\<exists>change s'. svc_run toy_service (map (map_svc_op change) [OpReady, OpCall ((None, None) :: toy_request)]) 0 =
      ([OutReady (Ready (Inr ())),
        OutFuture (Some (LocalAddr 80), Some (tls_info_new (Some ''a'') None []))], s') \<and>
    (\<forall>req. ex_local_addr toy_ext (change req) = Some (LocalAddr 80))"
proof -
  let ?info = "tls_info_new (Some ''a'') None []"
  let ?out = "(Some (LocalAddr 80), Some ?info) :: toy_request"
  have doc: "ext_documented toy_ext" by (simp add: ext_documented_def toy_ext_def split: prod.split)
  obtain w where run: "svc_run (tls_service_ops toy_ext (local_addr_ops toy_ext toy_service))
      [OpReady, OpCall (None, None)] (tls_service_new \<lparr>las_inner = 0, las_local_addr = LocalAddr 80\<rparr> ?info) =
      ([OutReady (Ready (Inr ())), OutFuture ?out], w)"
    by (simp add: tls_service_ops_def local_addr_ops_def toy_service_def toy_ext_def tls_service_new_def)
  from tls_over_local_addr [OF doc run] show ?thesis by blast
qed

end
