(* ===== verification/Handshake.thy ===== *)
theory Handshake
  imports Services
begin

text \<open>
  What the futures of \<open>RustlsAcceptor\<close> and \<open>OpenSSLAcceptor\<close> share: they first poll the
  inner acceptor; when it is ready they load the configuration, start the handshake on the
  stream under the timeout, and from then on poll that. The locale \<open>two_stage\<close> is the
  contract of such a future; its lemma computes what driving it gives.
\<close>

section \<open>Driving a future\<close>

text \<open>Polling with one environment after the other until the future is ready (or panics).\<close>

fun drive ::
  "('env \<Rightarrow> 'st \<Rightarrow> 'out poll panicking \<times> 'st) \<Rightarrow> 'env list \<Rightarrow> 'st \<Rightarrow> 'out poll panicking \<times> 'st"
where
  "drive poll [] st = (Returns Pending, st)"
| "drive poll (env # envs) st =
     (let (r, st') = poll env st
      in case r of Returns Pending \<Rightarrow> drive poll envs st' | _ \<Rightarrow> (r, st'))"

text \<open>The first result that is ready.\<close>

fun first_ready :: "('env \<Rightarrow> 'out poll) \<Rightarrow> 'env list \<Rightarrow> 'out poll" where
  "first_ready f [] = Pending"
| "first_ready f (env # envs) = (case f env of Ready r \<Rightarrow> Ready r | Pending \<Rightarrow> first_ready f envs)"

text \<open>
  The specification: wait for the inner acceptor; an error of it is the result; otherwise
  shake hands with the configuration loaded at that very poll.
\<close>

fun two_stage_result ::
  "('env \<Rightarrow> ('i \<times> 's) io_result poll) \<Rightarrow> ('env \<Rightarrow> 'cfg) \<Rightarrow>
   ('cfg \<Rightarrow> 'i \<Rightarrow> 's \<Rightarrow> 'env \<Rightarrow> 'out io_result poll) \<Rightarrow> 'env list \<Rightarrow> 'out io_result poll"
where
  "two_stage_result inner load shake [] = Pending"
| "two_stage_result inner load shake (env # envs) =
     (case inner env of
        Pending \<Rightarrow> two_stage_result inner load shake envs
      | Ready (Inl e) \<Rightarrow> Ready (Inl e)
      | Ready (Inr (stream, service)) \<Rightarrow>
          first_ready (shake (load env) stream service) (env # envs))"

section \<open>The contract\<close>

locale two_stage =
  fixes ok :: bool
    and poll :: "'env \<Rightarrow> 'st \<Rightarrow> 'out io_result poll panicking \<times> 'st" and start :: 'st
    and shaking :: "'cfg \<Rightarrow> 'i \<Rightarrow> 's \<Rightarrow> 'st"
    and inner :: "'env \<Rightarrow> ('i \<times> 's) io_result poll" and load :: "'env \<Rightarrow> 'cfg"
    and shake :: "'cfg \<Rightarrow> 'i \<Rightarrow> 's \<Rightarrow> 'env \<Rightarrow> 'out io_result poll"
  assumes start_pending: "ok \<Longrightarrow> inner env = Pending \<Longrightarrow> poll env start = (Returns Pending, start)"
    and start_error: "ok \<Longrightarrow> inner env = Ready (Inl e) \<Longrightarrow> fst (poll env start) = Returns (Ready (Inl e))"
    and start_ready: "ok \<Longrightarrow> inner env = Ready (Inr (i, s)) \<Longrightarrow>
      poll env start = poll env (shaking (load env) i s)"
    and shake_pending: "ok \<Longrightarrow> shake c i s env = Pending \<Longrightarrow>
      poll env (shaking c i s) = (Returns Pending, shaking c i s)"
    and shake_ready: "ok \<Longrightarrow> shake c i s env = Ready r \<Longrightarrow>
      fst (poll env (shaking c i s)) = Returns (Ready r)"
begin

lemma drive_shaking: "ok \<Longrightarrow> fst (drive poll envs (shaking c i s)) = Returns (first_ready (shake c i s) envs)"
proof (induction envs)
  case (Cons env envs)
  show ?case
  proof (cases "shake c i s env")
    case Pending
    with Cons shake_pending show ?thesis by simp
  next
    case (Ready r)
    obtain x st where "poll env (shaking c i s) = (x, st)" by fastforce
    with shake_ready [OF Cons.prems Ready] Ready show ?thesis by simp
  qed
qed simp

lemma drive_start: "ok \<Longrightarrow> fst (drive poll envs start) = Returns (two_stage_result inner load shake envs)"
proof (induction envs)
  case (Cons env envs)
  show ?case
  proof (cases "inner env")
    case Pending
    with Cons start_pending show ?thesis by simp
  next
    case (Ready r)
    show ?thesis
    proof (cases r)
      case (Inl e)
      obtain x st where "poll env start = (x, st)" by fastforce
      with start_error [OF Cons.prems] Ready Inl show ?thesis by fastforce
    next
      case (Inr p)
      then obtain i s where p: "inner env = Ready (Inr (i, s))" using Ready by (cases p) auto
      have "drive poll (env # envs) start = drive poll (env # envs) (shaking (load env) i s)"
        by (simp add: start_ready [OF Cons.prems p])
      with drive_shaking [OF Cons.prems, of "env # envs"] p show ?thesis
        by (simp del: drive.simps first_ready.simps)
    qed
  qed
qed simp

end

text \<open>The specification when the inner acceptor becomes ready at a known poll.\<close>

lemma two_stage_result_ready:
  "\<forall>env \<in> set before. inner env = Pending \<Longrightarrow> inner env = Ready (Inr (stream, service)) \<Longrightarrow>
   two_stage_result inner load shake (before @ env # after) =
     first_ready (shake (load env) stream service) (env # after)"
  by (induction before) simp_all

end
