(* ===== verification/ConfigStore.thy ===== *)
theory ConfigStore
  imports Services
begin

text \<open>
  What \<open>RustlsConfig\<close> and \<open>OpenSSLConfig\<close> share: the reloadable configuration, an
  \<open>Arc<ArcSwap<_>>\<close>. \<open>ArcSwap\<close> belongs to the crate \<open>arc-swap\<close>; its three operations are the
  fields of \<open>swap_api\<close>, on an abstract store, and \<open>swap_documented\<close> is what they promise. A
  clone of a configuration is the same cell.
\<close>

section \<open>Cells\<close>

record ('c, 'h) swap_api =
  sw_new :: "'c \<Rightarrow> 'h \<Rightarrow> nat \<times> 'h"
  sw_load_full :: "nat \<Rightarrow> 'h \<Rightarrow> 'c"
  sw_store :: "nat \<Rightarrow> 'c \<Rightarrow> 'h \<Rightarrow> 'h"

definition swap_documented :: "('c, 'h) swap_api \<Rightarrow> ('h \<Rightarrow> nat \<Rightarrow> bool) \<Rightarrow> bool" where
  "swap_documented sw live \<longleftrightarrow>
     (\<forall>c h i h'. sw_new sw c h = (i, h') \<longrightarrow> \<not> live h i \<and> live h' i \<and> sw_load_full sw i h' = c \<and>
        (\<forall>j. live h j \<longrightarrow> live h' j \<and> sw_load_full sw j h' = sw_load_full sw j h)) \<and>
     (\<forall>i c h. live h i \<longrightarrow> sw_load_full sw i (sw_store sw i c h) = c \<and>
        (\<forall>j. live h j \<longrightarrow> live (sw_store sw i c h) j \<and>
          (j \<noteq> i \<longrightarrow> sw_load_full sw j (sw_store sw i c h) = sw_load_full sw j h)))"

text \<open>
  Every constructor computes a configuration and, if that succeeds, allocates a cell for it;
  every reload computes one and, if that succeeds, stores it.
\<close>

definition swap_create ::
  "('c, 'h) swap_api \<Rightarrow> 'e + 'c \<Rightarrow> 'h \<Rightarrow> ('e + nat) \<times> 'h" where
  "swap_create sw r h =
     (case r of Inl e \<Rightarrow> (Inl e, h) | Inr c \<Rightarrow> (let (i, h') = sw_new sw c h in (Inr i, h')))"

definition swap_reload ::
  "('c, 'h) swap_api \<Rightarrow> nat \<Rightarrow> 'e + 'c \<Rightarrow> 'h \<Rightarrow> ('e + unit) \<times> 'h" where
  "swap_reload sw i r h = (case r of Inl e \<Rightarrow> (Inl e, h) | Inr c \<Rightarrow> (Inr (), sw_store sw i c h))"

section \<open>The contract of a reloadable configuration\<close>

text \<open>
  \<open>ok\<close> stands for the documented behaviour of what the provider builds on. An attempt to
  reload is the result of computing the new configuration.
\<close>

locale reloadable =
  fixes ok :: bool and live :: "'h \<Rightarrow> 'id \<Rightarrow> bool" and get :: "'id \<Rightarrow> 'h \<Rightarrow> 'c"
    and create :: "'e + 'c \<Rightarrow> 'h \<Rightarrow> ('e + 'id) \<times> 'h"
    and reload :: "'id \<Rightarrow> 'e + 'c \<Rightarrow> 'h \<Rightarrow> ('e + unit) \<times> 'h"
  assumes create_gets: "ok \<Longrightarrow> create r h = (Inr i, h') \<Longrightarrow> live h' i \<and> r = Inr (get i h')"
    and create_frame: "ok \<Longrightarrow> create r h = (x, h') \<Longrightarrow> live h j \<Longrightarrow> live h' j \<and> get j h' = get j h"
    and create_result: "create r h = (Inl e, h') \<longleftrightarrow> r = Inl e \<and> h' = h"
    and reload_gets: "ok \<Longrightarrow> live h i \<Longrightarrow> reload i (Inr c) h = (y, h') \<Longrightarrow> y = Inr () \<and> get i h' = c"
    and reload_frame: "ok \<Longrightarrow> live h i \<Longrightarrow> reload i (Inr c) h = (y, h') \<Longrightarrow> live h j \<Longrightarrow>
      live h' j \<and> (j \<noteq> i \<longrightarrow> get j h' = get j h)"
    and reload_fails: "reload i (Inl e) h = (Inl e, h)"
begin

definition attempt :: "'id \<times> ('e + 'c) \<Rightarrow> 'h \<Rightarrow> 'h" where
  "attempt x h = snd (reload (fst x) (snd x) h)"

definition latest :: "'id \<Rightarrow> 'id \<times> ('e + 'c) \<Rightarrow> 'c \<Rightarrow> 'c" where
  "latest j x c = (case snd x of Inl e \<Rightarrow> c | Inr d \<Rightarrow> (if fst x = j then d else c))"

lemma attempt_get:
  assumes "ok" and "live h (fst x)" and "live h j"
  shows "live (attempt x h) j \<and> get j (attempt x h) = latest j x (get j h)"
proof (cases "snd x")
  case (Inl e)
  with assms(3) show ?thesis by (simp add: attempt_def latest_def reload_fails)
next
  case (Inr c)
  obtain y h' where r: "reload (fst x) (Inr c) h = (y, h')" by fastforce
  from reload_frame [OF assms(1,2) r assms(3)] reload_gets [OF assms(1,2) r] r Inr show ?thesis
    by (auto simp: attempt_def latest_def)
qed

lemma attempts_get:
  assumes "ok" and "\<forall>x \<in> set xs. live h (fst x)" and "live h j"
  shows "live (fold attempt xs h) j \<and> get j (fold attempt xs h) = fold (latest j) xs (get j h)"
  using assms
proof (induction xs arbitrary: h)
  case (Cons x xs)
  then have now: "live (attempt x h) j \<and> get j (attempt x h) = latest j x (get j h)"
    using attempt_get by simp
  have "\<forall>y \<in> set xs. live (attempt x h) (fst y)"
    using Cons.prems attempt_get by simp
  with Cons.IH [OF Cons.prems(1) this] now show ?case by simp
qed simp

end

lemma swap_create_Inl: "swap_create sw r h = (Inl e, h') \<longleftrightarrow> r = Inl e \<and> h' = h"
  by (auto simp: swap_create_def split: sum.splits prod.splits)

lemma swap_create_Inr:
  "swap_create sw r h = (Inr i, h') \<longleftrightarrow> (\<exists>c. r = Inr c \<and> sw_new sw c h = (i, h'))"
  by (auto simp: swap_create_def split: sum.splits prod.splits)

interpretation swap_cells: reloadable "swap_documented sw live" live "sw_load_full sw"
    "swap_create sw" "swap_reload sw"
  for sw :: "('c, 'h) swap_api" and live
proof
  fix r :: "'e + 'c" and h h' i j e c and x :: "'e + nat" and y :: "'e + unit"
  assume ok: "swap_documented sw live"
  show "live h' i \<and> r = Inr (sw_load_full sw i h')" if "swap_create sw r h = (Inr i, h')"
    using that ok by (auto simp: swap_create_Inr swap_documented_def)
  show "live h' j \<and> sw_load_full sw j h' = sw_load_full sw j h"
    if "swap_create sw r h = (x, h')" "live h j"
  proof (cases r)
    case (Inl e)
    with that show ?thesis by (simp add: swap_create_def)
  next
    case (Inr c)
    with that have "\<exists>i. sw_new sw c h = (i, h')" by (auto simp: swap_create_def split: prod.splits)
    with that(2) ok show ?thesis unfolding swap_documented_def by blast
  qed
  show "y = Inr () \<and> sw_load_full sw i h' = c"
    if "live h i" "swap_reload sw i (Inr c :: 'e + 'c) h = (y, h')"
    using that ok by (auto simp: swap_reload_def swap_documented_def)
  show "live h' j \<and> (j \<noteq> i \<longrightarrow> sw_load_full sw j h' = sw_load_full sw j h)"
    if "live h i" "swap_reload sw i (Inr c :: 'e + 'c) h = (y, h')" "live h j"
    using that ok by (auto simp: swap_reload_def swap_documented_def)
qed (simp_all add: swap_create_Inl swap_reload_def)

text \<open>A store of cells as a list.\<close>

definition toy_swap :: "('c, 'c list) swap_api" where
  "toy_swap = \<lparr>sw_new = (\<lambda>c h. (length h, h @ [c])), sw_load_full = (\<lambda>i h. h ! i),
     sw_store = (\<lambda>i c h. h[i := c])\<rparr>"

lemma toy_swap_documented: "swap_documented toy_swap (\<lambda>h i. i < length h)"
  by (auto simp: swap_documented_def toy_swap_def nth_append)

end
