(* ===== verification/Acceptors.thy ===== *)
theory Acceptors
  imports Services
begin

text \<open>
  \<open>src/src/accept.rs\<close>: the acceptors \<open>DefaultAcceptor\<close>, \<open>NoDelayAcceptor\<close>,
  \<open>LocalAddrAcceptor\<close> and \<open>TcpConfigAcceptor\<close> with its configuration. Their futures are
  ready at once, so accepting is a function from the stream and the service to a result.
  The socket operations belong to \<open>tokio\<close> and \<open>socket2\<close>: they are the fields of \<open>tcp_api\<close>.
  The argument \<open>platform\<close> says whether the target is one of those for which \<open>interval\<close> and
  \<open>retries\<close> are compiled in.
\<close>

section \<open>The simple acceptors\<close>

record ('i, 'a, 'k) tcp_api =
  tcp_set_nodelay :: "bool \<Rightarrow> 'i \<Rightarrow> unit io_result \<times> 'i"
  tcp_local_addr :: "'i \<Rightarrow> 'a io_result"
  tcp_set_keepalive :: "'k \<Rightarrow> 'i \<Rightarrow> unit io_result \<times> 'i"
  ka_new :: 'k
  ka_with_time :: "duration \<Rightarrow> 'k \<Rightarrow> 'k"
  ka_with_interval :: "duration \<Rightarrow> 'k \<Rightarrow> 'k"
  ka_with_retries :: "32 word \<Rightarrow> 'k \<Rightarrow> 'k"

definition default_accept :: "'i \<Rightarrow> 's \<Rightarrow> ('i \<times> 's) io_result" where
  "default_accept stream service = Inr (stream, service)"

definition no_delay_accept ::
  "('i, 'a, 'k) tcp_api \<Rightarrow> 'i \<Rightarrow> 's \<Rightarrow> ('i \<times> 's) io_result" where
  "no_delay_accept api stream service =
     (let (r, stream) = tcp_set_nodelay api True stream
      in res_bind r (\<lambda>_. Inr (stream, service)))"

definition local_addr_accept ::
  "('i, 'a, 'k) tcp_api \<Rightarrow> 'i \<Rightarrow> 's \<Rightarrow> ('i \<times> ('s, 'a) local_addr_service) io_result" where
  "local_addr_accept api stream service =
     res_map (\<lambda>local_addr.
       let service = \<lparr>las_inner = service, las_local_addr = LocalAddr local_addr\<rparr>
       in (stream, service)) (tcp_local_addr api stream)"

section \<open>Socket options\<close>

record keepalive_config =
  kc_time :: "duration option"
  kc_interval :: "duration option"
  kc_retries :: "32 word option"

definition keepalive_new :: keepalive_config where
  "keepalive_new = \<lparr>kc_time = None, kc_interval = None, kc_retries = None\<rparr>"

definition keepalive_time :: "duration \<Rightarrow> keepalive_config \<Rightarrow> keepalive_config" where
  "keepalive_time time k = k\<lparr>kc_time := Some time\<rparr>"

definition keepalive_interval :: "duration \<Rightarrow> keepalive_config \<Rightarrow> keepalive_config" where
  "keepalive_interval interval k = k\<lparr>kc_interval := Some interval\<rparr>"

definition keepalive_retries :: "32 word \<Rightarrow> keepalive_config \<Rightarrow> keepalive_config" where
  "keepalive_retries retries k = k\<lparr>kc_retries := Some retries\<rparr>"

record socket_config =
  sc_nodelay :: bool
  sc_keepalive :: "keepalive_config option"

definition socket_config_new :: socket_config where
  "socket_config_new = \<lparr>sc_nodelay = False, sc_keepalive = None\<rparr>"

definition socket_nodelay :: "bool \<Rightarrow> socket_config \<Rightarrow> socket_config" where
  "socket_nodelay nodelay c = c\<lparr>sc_nodelay := nodelay\<rparr>"

definition socket_keepalive :: "keepalive_config \<Rightarrow> socket_config \<Rightarrow> socket_config" where
  "socket_keepalive keepalive c = c\<lparr>sc_keepalive := Some keepalive\<rparr>"

definition tcp_config_accept ::
  "('i, 'a, 'k) tcp_api \<Rightarrow> bool \<Rightarrow> socket_config \<Rightarrow> 'i \<Rightarrow> 's \<Rightarrow> ('i \<times> 's) io_result" where
  "tcp_config_accept api platform config stream service =
     (let (r, stream) = (if sc_nodelay config then tcp_set_nodelay api True stream else (Inr (), stream))
      in res_bind r (\<lambda>_.
        case sc_keepalive config of
          None \<Rightarrow> Inr (stream, service)
        | Some config \<Rightarrow>
            (let keepalive = ka_new api;
                 keepalive = (case kc_time config of
                   Some time \<Rightarrow> ka_with_time api time keepalive | None \<Rightarrow> keepalive);
                 keepalive = (if platform then (case kc_interval config of
                   Some interval \<Rightarrow> ka_with_interval api interval keepalive | None \<Rightarrow> keepalive) else keepalive);
                 keepalive = (if platform then (case kc_retries config of
                   Some retries \<Rightarrow> ka_with_retries api retries keepalive | None \<Rightarrow> keepalive) else keepalive);
                 (r, stream) = tcp_set_keepalive api keepalive stream
             in res_bind r (\<lambda>_. Inr (stream, service)))))"

section \<open>The specification of the socket options\<close>

text \<open>What the configuration asks for, as a list of socket operations, and their execution.\<close>

datatype sock_op = SetNodelay bool | SetKeepalive keepalive_config

definition requested_ops :: "socket_config \<Rightarrow> sock_op list" where
  "requested_ops c =
     (if sc_nodelay c then [SetNodelay True] else []) @
     (case sc_keepalive c of None \<Rightarrow> [] | Some k \<Rightarrow> [SetKeepalive k])"

definition keepalive_params :: "('i, 'a, 'k) tcp_api \<Rightarrow> bool \<Rightarrow> keepalive_config \<Rightarrow> 'k" where
  "keepalive_params api platform k =
     fold (\<lambda>f. f)
       (map (ka_with_time api) (case kc_time k of None \<Rightarrow> [] | Some x \<Rightarrow> [x]) @
        (if platform
         then map (ka_with_interval api) (case kc_interval k of None \<Rightarrow> [] | Some x \<Rightarrow> [x]) @
              map (ka_with_retries api) (case kc_retries k of None \<Rightarrow> [] | Some x \<Rightarrow> [x])
         else []))
       (ka_new api)"

fun apply_op :: "('i, 'a, 'k) tcp_api \<Rightarrow> bool \<Rightarrow> sock_op \<Rightarrow> 'i \<Rightarrow> unit io_result \<times> 'i" where
  "apply_op api platform (SetNodelay b) stream = tcp_set_nodelay api b stream"
| "apply_op api platform (SetKeepalive k) stream =
     tcp_set_keepalive api (keepalive_params api platform k) stream"

fun apply_ops :: "('i, 'a, 'k) tcp_api \<Rightarrow> bool \<Rightarrow> sock_op list \<Rightarrow> 'i \<Rightarrow> unit io_result \<times> 'i" where
  "apply_ops api platform [] stream = (Inr (), stream)"
| "apply_ops api platform (x # xs) stream =
     (let (r, stream) = apply_op api platform x stream
      in case r of Inl e \<Rightarrow> (Inl e, stream) | Inr _ \<Rightarrow> apply_ops api platform xs stream)"

lemma keepalive_params_code:
  "keepalive_params api platform config =
     (let keepalive = ka_new api;
          keepalive = (case kc_time config of
            Some time \<Rightarrow> ka_with_time api time keepalive | None \<Rightarrow> keepalive);
          keepalive = (if platform then (case kc_interval config of
            Some interval \<Rightarrow> ka_with_interval api interval keepalive | None \<Rightarrow> keepalive) else keepalive)
      in if platform then (case kc_retries config of
            Some retries \<Rightarrow> ka_with_retries api retries keepalive | None \<Rightarrow> keepalive) else keepalive)"
  by (simp add: keepalive_params_def Let_def split: option.split)

lemma tcp_config_accept_ops:
  "tcp_config_accept api platform config stream service =
     (let (r, stream) = apply_ops api platform (requested_ops config) stream
      in res_map (\<lambda>_. (stream, service)) r)"
proof (cases "sc_keepalive config")
  case None
  then show ?thesis
    by (auto simp: tcp_config_accept_def requested_ops_def Let_def split: prod.split sum.split)
next
  case (Some k)
  then show ?thesis
    by (auto simp: tcp_config_accept_def requested_ops_def keepalive_params_code Let_def
        split: prod.split sum.split)
qed

section \<open>What an acceptor promises\<close>

text \<open>
  The interface of an acceptor towards the server: the service it gives a connection is a
  layer around the one it was given.
\<close>

locale accept_layer = request_layer inner outer unwrap change
  for inner :: "('s, 'req, 'e, 'fut) service_ops" and outer :: "('w, 'req, 'e, 'fut) service_ops"
    and unwrap :: "'w \<Rightarrow> 's" and change :: "'w \<Rightarrow> 'req \<Rightarrow> 'req" +
  fixes accept :: "'i \<Rightarrow> 's \<Rightarrow> ('j \<times> 'w) io_result"
  assumes accept_wraps: "accept i s = Inr (j, w) \<Longrightarrow> unwrap w = s"
begin

lemma accept_run:
  "accept i s = Inr (j, w) \<Longrightarrow> svc_run outer xs w = (outs, w') \<Longrightarrow>
   svc_run inner (map (map_svc_op (change w)) xs) s = (outs, unwrap w')"
  using layer_run [of xs w outs w'] accept_wraps [of i s j w] by simp

end

interpretation default_layer: accept_layer ops ops "\<lambda>w. w" "\<lambda>w req. req" default_accept
  for ops
  by unfold_locales (simp_all add: default_accept_def)

interpretation no_delay_layer: accept_layer ops ops "\<lambda>w. w" "\<lambda>w req. req" "no_delay_accept api"
  for ops and api :: "('i, 'a, 'k) tcp_api"
  by unfold_locales (auto simp: no_delay_accept_def split: prod.splits)

interpretation tcp_config_layer: accept_layer ops ops "\<lambda>w. w" "\<lambda>w req. req"
    "tcp_config_accept api platform config"
  for ops and api :: "('i, 'a, 'k) tcp_api" and platform config
  by unfold_locales (auto simp: tcp_config_accept_ops Let_def split: prod.splits)

interpretation local_addr_layer: accept_layer ops "local_addr_ops ext ops" las_inner
    "\<lambda>w. ex_insert_local_addr ext (las_local_addr w)" "local_addr_accept api"
  for ops and ext :: "('req, 'a) ext_api" and api :: "('i, 'a, 'k) tcp_api"
  by unfold_locales (auto simp: local_addr_accept_def Let_def)

section \<open>Properties\<close>

text \<open>
  C34. \<open>TcpConfigAcceptor\<close> implements its configuration: accepting performs the requested
  socket operations in order, stops at the first that fails with that error, and otherwise
  gives the configured stream with the service unchanged. A configuration that was not
  changed leaves the socket alone, and \<open>TCP_NODELAY\<close> is never turned off, not even for
  \<open>nodelay(false)\<close>.
\<close>

theorem tcp_config_applies_requests:
  "tcp_config_accept api platform config stream service =
     (case apply_ops api platform (requested_ops config) stream of
        (Inl e, _) \<Rightarrow> Inl e
      | (Inr _, stream') \<Rightarrow> Inr (stream', service)) \<and>
   requested_ops socket_config_new = [] \<and>
   SetNodelay False \<notin> set (requested_ops config) \<and>
   requested_ops (socket_nodelay False config) = filter (\<lambda>x. x \<noteq> SetNodelay True) (requested_ops config)"
  by (auto simp: tcp_config_accept_ops requested_ops_def socket_config_new_def socket_nodelay_def
      split: prod.split sum.split option.split)

text \<open>
  \<open>LocalAddrAcceptor\<close>: if it accepts, then every use of the service it gives answers as
  the user's service answers requests that carry the local address of that stream, and the
  stream is unchanged; if the address cannot be read, that error is the result.
\<close>

theorem local_addr_accept_serves:
  assumes "ext_documented ext" and "local_addr_accept api stream service = Inr (stream', w)"
    and "svc_run (local_addr_ops ext ops) xs w = (outs, w')"
  shows "\<exists>a change. tcp_local_addr api stream = Inr a \<and> stream' = stream \<and>
    svc_run ops (map (map_svc_op change) xs) service = (outs, las_inner w') \<and>
    (\<forall>req. ex_local_addr ext (change req) = Some (LocalAddr a) \<and>
      ex_tls_info ext (change req) = ex_tls_info ext req)"
proof -
  from assms(2) obtain a where a: "tcp_local_addr api stream = Inr a" "stream' = stream"
      "las_local_addr w = LocalAddr a"
    by (auto simp: local_addr_accept_def Let_def)
  from local_addr_layer.accept_run [OF assms(2,3)]
  have "svc_run ops (map (map_svc_op (ex_insert_local_addr ext (LocalAddr a))) xs) service = (outs, las_inner w')"
    by (simp add: a(3))
  moreover have "ex_local_addr ext (ex_insert_local_addr ext (LocalAddr a) req) = Some (LocalAddr a) \<and>
      ex_tls_info ext (ex_insert_local_addr ext (LocalAddr a) req) = ex_tls_info ext req" for req
    using assms(1) by (simp add: ext_documented_def)
  ultimately show ?thesis using a by blast
qed

text \<open>A socket that records its options, with keepalive as the list of parameters set.\<close>

type_synonym toy_socket = "nat \<times> bool \<times> nat list"

definition toy_tcp :: "(toy_socket, nat, nat list) tcp_api" where
  "toy_tcp = \<lparr>tcp_set_nodelay = (\<lambda>b (a, _, k). (Inr (), (a, b, k))), tcp_local_addr = (\<lambda>(a, _, _). Inr a),
     tcp_set_keepalive = (\<lambda>k (a, b, _). (Inr (), (a, b, k))), ka_new = [],
     ka_with_time = (\<lambda>d k. k @ [d]), ka_with_interval = (\<lambda>d k. k @ [d]),
     ka_with_retries = (\<lambda>n k. k @ [unat n])\<rparr>"

lemma toy_ext_documented: "ext_documented toy_ext"
  by (simp add: ext_documented_def toy_ext_def split: prod.split)

theorem local_addr_accept_serves_witness:
  "\<exists>change. svc_run toy_service (map (map_svc_op change) [OpCall ((None, None) :: toy_request)]) 0 =
      ([OutFuture (Some (LocalAddr 80), None)], 1)"
proof -
  let ?w = "\<lparr>las_inner = 0, las_local_addr = LocalAddr 80\<rparr>"
  have acc: "local_addr_accept toy_tcp (80, False, []) 0 = Inr ((80, False, []), ?w)"
    by (simp add: local_addr_accept_def toy_tcp_def)
  have run: "svc_run (local_addr_ops toy_ext toy_service) [OpCall ((None, None) :: toy_request)] ?w =
      ([OutFuture (Some (LocalAddr 80), None)], ?w\<lparr>las_inner := 1\<rparr>)"
    by (simp add: local_addr_ops_def toy_service_def toy_ext_def)
  from local_addr_accept_serves [OF toy_ext_documented acc run] show ?thesis by auto
qed

end
