(* ===== verification/RustlsConfig.thy ===== *)
theory RustlsConfig
  imports ConfigStore Acceptors
begin

text \<open>
  \<open>src/src/tls_rustls/mod.rs\<close>: \<open>RustlsConfig\<close>, how it is created and reloaded from DER, from
  PEM, from files, with an encrypted key and by server name, and \<open>RustlsAcceptor\<close>'s
  configuration.

  The operations of \<open>rustls\<close>, \<open>rustls-pki-types\<close> and \<open>pkcs8\<close> that the code calls are the
  fields of \<open>rustls_api\<close>; a parser of PEM sections is the list of results it yields. Reading
  a file is an argument, from a path to the result. \<open>spawn_blocking(..).await.unwrap()\<close> runs
  its closure on another thread and passes on its result.
\<close>

section \<open>What the code calls\<close>

record ('cfg, 'c, 'k, 'g, 'r, 'enc, 'v) rustls_api =
  ru_cert_from :: "bytes \<Rightarrow> 'c"
  ru_key_try_from :: "bytes \<Rightarrow> string + 'k"
  ru_pem_certs :: "bytes \<Rightarrow> (string + 'c) list"
  ru_pem_keys :: "bytes \<Rightarrow> (string + 'k) list"
  ru_key_from_pem :: "bytes \<Rightarrow> string + 'k"
  ru_single_cert :: "'c list \<Rightarrow> 'k \<Rightarrow> string + 'cfg"
  ru_cert_resolver :: "'r \<Rightarrow> 'cfg"
  ru_set_alpn :: "bytes list \<Rightarrow> 'cfg \<Rightarrow> 'cfg"
  ru_alpn :: "'cfg \<Rightarrow> bytes list"
  ru_load_private_key :: "'v \<Rightarrow> 'k \<Rightarrow> string + 'g"
  ru_resolver_new :: 'r
  ru_resolver_add :: "string \<Rightarrow> 'c list \<times> 'g \<Rightarrow> 'r \<Rightarrow> string + 'r"
  ru_document_from_pem :: "bytes \<Rightarrow> string + string \<times> bytes"
  ru_encrypted_from_der :: "bytes \<Rightarrow> string + 'enc"
  ru_decrypt :: "bytes \<Rightarrow> 'enc \<Rightarrow> string + bytes"
  ru_pkcs8_key :: "bytes \<Rightarrow> 'k"

definition byte_string :: "string \<Rightarrow> bytes" where
  "byte_string s = map of_char s"

text \<open>\<open>std::str::from_utf8\<close>: the well-formed byte sequences; the text is the same bytes.\<close>

definition utf8_cont :: "8 word \<Rightarrow> bool" where
  "utf8_cont b \<longleftrightarrow> 0x80 \<le> b \<and> b \<le> 0xBF"

fun utf8_valid :: "bytes \<Rightarrow> bool" where
  "utf8_valid [] = True"
| "utf8_valid (a # xs) =
     (if a \<le> 0x7F then utf8_valid xs
      else case xs of [] \<Rightarrow> False
      | b # ys \<Rightarrow>
        if 0xC2 \<le> a \<and> a \<le> 0xDF then utf8_cont b \<and> utf8_valid ys
        else case ys of [] \<Rightarrow> False
        | c # zs \<Rightarrow>
          if 0xE0 \<le> a \<and> a \<le> 0xEF
          then utf8_cont b \<and> utf8_cont c \<and> (a = 0xE0 \<longrightarrow> 0xA0 \<le> b) \<and> (a = 0xED \<longrightarrow> b \<le> 0x9F) \<and> utf8_valid zs
          else case zs of [] \<Rightarrow> False
          | d # ws \<Rightarrow>
            0xF0 \<le> a \<and> a \<le> 0xF4 \<and> utf8_cont b \<and> utf8_cont c \<and> utf8_cont d \<and>
            (a = 0xF0 \<longrightarrow> 0x90 \<le> b) \<and> (a = 0xF4 \<longrightarrow> b \<le> 0x8F) \<and> utf8_valid ws)"

definition from_utf8 :: "bytes \<Rightarrow> unit + bytes" where
  "from_utf8 b = (if utf8_valid b then Inr b else Inl ())"

text \<open>\<open>collect\<close> of an iterator of results: the first error, or all values.\<close>

fun collect_results :: "('e + 'a) list \<Rightarrow> 'e + 'a list" where
  "collect_results [] = Inr []"
| "collect_results (r # rs) = res_bind r (\<lambda>x. res_map (Cons x) (collect_results rs))"

section \<open>Computing a configuration\<close>

definition alpn_protocols :: "bytes list" where
  "alpn_protocols = [byte_string ''h2'', byte_string ''http/1.1'']"

definition set_alpn :: "('cfg, 'c, 'k, 'g, 'r, 'enc, 'v) rustls_api \<Rightarrow> 'cfg \<Rightarrow> 'cfg" where
  "set_alpn ru config = ru_set_alpn ru alpn_protocols config"

definition config_from_cert_and_key ::
  "('cfg, 'c, 'k, 'g, 'r, 'enc, 'v) rustls_api \<Rightarrow> 'c list \<Rightarrow> 'k \<Rightarrow> 'cfg io_result" where
  "config_from_cert_and_key ru cert key =
     res_bind (map_err io_other (ru_single_cert ru cert key)) (\<lambda>config. Inr (set_alpn ru config))"

definition config_from_der ::
  "('cfg, 'c, 'k, 'g, 'r, 'enc, 'v) rustls_api \<Rightarrow> bytes list \<Rightarrow> bytes \<Rightarrow> 'cfg io_result" where
  "config_from_der ru cert key =
     (let cert = map (ru_cert_from ru) cert
      in res_bind (map_err io_other (ru_key_try_from ru key)) (\<lambda>key. config_from_cert_and_key ru cert key))"

definition certificates_from_pem ::
  "('cfg, 'c, 'k, 'g, 'r, 'enc, 'v) rustls_api \<Rightarrow> bytes \<Rightarrow> 'c list io_result" where
  "certificates_from_pem ru cert =
     map_err (\<lambda>_. io_other ''failed to parse certificate'') (collect_results (ru_pem_certs ru cert))"

fun key_loop :: "'k io_result \<Rightarrow> (string + 'k) list \<Rightarrow> 'k io_result" where
  "key_loop key_result [] = key_result"
| "key_loop key_result (item # items) =
     (let key = map_err (\<lambda>_. io_other ''failed to parse PEM'') item
      in case key_result of
           Inr _ \<Rightarrow>
             (case key of
                Inr _ \<Rightarrow> Inl (io_other ''The private key file contains multiple keys (it must only contain one)'')
              | Inl _ \<Rightarrow> key_loop key_result items)
         | Inl _ \<Rightarrow> key_loop key items)"

definition private_key_from_pem ::
  "('cfg, 'c, 'k, 'g, 'r, 'enc, 'v) rustls_api \<Rightarrow> bytes \<Rightarrow> 'k io_result" where
  "private_key_from_pem ru key =
     key_loop (Inl (io_other ''The private key file contained no keys'')) (ru_pem_keys ru key)"

definition config_from_pem ::
  "('cfg, 'c, 'k, 'g, 'r, 'enc, 'v) rustls_api \<Rightarrow> bytes \<Rightarrow> bytes \<Rightarrow> 'cfg io_result" where
  "config_from_pem ru cert key =
     res_bind (certificates_from_pem ru cert) (\<lambda>cert.
     res_bind (private_key_from_pem ru key) (\<lambda>key. config_from_cert_and_key ru cert key))"

definition config_from_pem_file ::
  "('cfg, 'c, 'k, 'g, 'r, 'enc, 'v) rustls_api \<Rightarrow> ('p \<Rightarrow> bytes io_result) \<Rightarrow> 'p \<Rightarrow> 'p \<Rightarrow> 'cfg io_result" where
  "config_from_pem_file ru read cert key =
     res_bind (read cert) (\<lambda>cert. res_bind (read key) (\<lambda>key. config_from_pem ru cert key))"

definition config_from_pem_chain_file ::
  "('cfg, 'c, 'k, 'g, 'r, 'enc, 'v) rustls_api \<Rightarrow> ('p \<Rightarrow> bytes io_result) \<Rightarrow> 'p \<Rightarrow> 'p \<Rightarrow> 'cfg io_result" where
  "config_from_pem_chain_file ru read cert chain =
     res_bind (read cert) (\<lambda>cert.
     res_bind (certificates_from_pem ru cert) (\<lambda>cert.
     res_bind (read chain) (\<lambda>key.
     res_bind (map_err (\<lambda>_. io_other ''could not parse pem file'') (ru_key_from_pem ru key)) (\<lambda>key.
     config_from_cert_and_key ru cert key))))"

definition config_from_pem_with_password ::
  "('cfg, 'c, 'k, 'g, 'r, 'enc, 'v) rustls_api \<Rightarrow> bytes \<Rightarrow> bytes \<Rightarrow> bytes \<Rightarrow> 'cfg io_result" where
  "config_from_pem_with_password ru cert key password =
     res_bind (certificates_from_pem ru cert) (\<lambda>cert.
     res_bind (map_err (\<lambda>_. io_other ''the private key file is not valid UTF-8'') (from_utf8 key)) (\<lambda>pem.
     res_bind (map_err (\<lambda>_. io_other ''failed to parse PEM'') (ru_document_from_pem ru pem)) (\<lambda>(label, document).
     if label \<noteq> ''ENCRYPTED PRIVATE KEY''
     then Inl (io_other ''expected an encrypted PKCS#8 private key (ENCRYPTED PRIVATE KEY)'')
     else
     res_bind (map_err (\<lambda>_. io_other ''failed to parse encrypted private key'')
       (ru_encrypted_from_der ru document)) (\<lambda>encrypted.
     res_bind (map_err (\<lambda>_. io_other ''failed to decrypt private key; is the password correct?'')
       (ru_decrypt ru password encrypted)) (\<lambda>decrypted.
     config_from_cert_and_key ru cert (ru_pkcs8_key ru decrypted))))))"

text \<open>
  The provider that is installed as the default; \<open>build\<close> is the effect of
  \<open>ServerConfig::builder()\<close> on it.
\<close>

definition crypto_provider :: "('v option \<Rightarrow> 'v option) \<Rightarrow> 'v option \<Rightarrow> 'v panicking \<times> 'v option" where
  "crypto_provider build installed =
     (case installed of
        Some provider \<Rightarrow> (Returns provider, installed)
      | None \<Rightarrow>
          (let installed = build installed
           in (case installed of
                 Some provider \<Rightarrow> Returns provider
               | None \<Rightarrow> Panics ''a default CryptoProvider is installed by ServerConfig::builder'',
               installed)))"

text \<open>The loop of \<open>from_sni_pem_files\<close> over \<open>(server name, certificate, key)\<close>.\<close>

fun sni_loop ::
  "('cfg, 'c, 'k, 'g, 'r, 'enc, 'v) rustls_api \<Rightarrow> 'v \<Rightarrow> ('p \<Rightarrow> bytes io_result) \<Rightarrow> (string \<times> 'p \<times> 'p) list \<Rightarrow> 'r \<Rightarrow>
   'r io_result"
where
  "sni_loop ru provider read [] resolver = Inr resolver"
| "sni_loop ru provider read ((name, cert_path, key_path) # files) resolver =
     res_bind (read cert_path) (\<lambda>cert.
     res_bind (read key_path) (\<lambda>key.
     res_bind (certificates_from_pem ru cert) (\<lambda>cert.
     res_bind (private_key_from_pem ru key) (\<lambda>key.
     res_bind (map_err io_other (ru_load_private_key ru provider key)) (\<lambda>signing_key.
     res_bind (map_err io_other (ru_resolver_add ru name (cert, signing_key) resolver)) (\<lambda>resolver.
     sni_loop ru provider read files resolver))))))"

definition sni_config ::
  "('cfg, 'c, 'k, 'g, 'r, 'enc, 'v) rustls_api \<Rightarrow> 'v \<Rightarrow> ('p \<Rightarrow> bytes io_result) \<Rightarrow> (string \<times> 'p \<times> 'p) list \<Rightarrow>
   'cfg io_result" where
  "sni_config ru provider read files =
     res_bind (sni_loop ru provider read files (ru_resolver_new ru)) (\<lambda>resolver.
     Inr (set_alpn ru (ru_cert_resolver ru resolver)))"

section \<open>\<open>RustlsConfig\<close>\<close>

text \<open>The value is the cell of its \<open>ArcSwap\<close>; a clone shares it.\<close>

record rustls_config = rc_inner :: nat

text \<open>\<open>Arc::new(ArcSwap::from_pointee(server_config?))\<close> and \<open>self.inner.store(server_config?)\<close>.\<close>

definition rustls_create ::
  "('cfg, 'h) swap_api \<Rightarrow> 'cfg io_result \<Rightarrow> 'h \<Rightarrow> rustls_config io_result \<times> 'h" where
  "rustls_create sw r h =
     (let (r, h) = swap_create sw r h in (res_map (\<lambda>inner. \<lparr>rc_inner = inner\<rparr>) r, h))"

definition rustls_reload ::
  "('cfg, 'h) swap_api \<Rightarrow> rustls_config \<Rightarrow> 'cfg io_result \<Rightarrow> 'h \<Rightarrow> unit io_result \<times> 'h" where
  "rustls_reload sw self r h = swap_reload sw (rc_inner self) r h"

definition rustls_from_config :: "('cfg, 'h) swap_api \<Rightarrow> 'cfg \<Rightarrow> 'h \<Rightarrow> rustls_config \<times> 'h" where
  "rustls_from_config sw config h = (let (inner, h) = sw_new sw config h in (\<lparr>rc_inner = inner\<rparr>, h))"

definition rustls_from_der where
  "rustls_from_der ru sw cert key = rustls_create sw (config_from_der ru cert key)"

definition rustls_from_pem where
  "rustls_from_pem ru sw cert key = rustls_create sw (config_from_pem ru cert key)"

definition rustls_from_pem_file where
  "rustls_from_pem_file ru sw read cert key = rustls_create sw (config_from_pem_file ru read cert key)"

text \<open>\<open>from_sni_pem_files\<close> takes the default provider first, then creates the configuration.\<close>

definition rustls_sni_create where
  "rustls_sni_create ru sw provider read files = rustls_create sw (sni_config ru provider read files)"

definition rustls_from_sni_pem_files ::
  "('cfg, 'c, 'k, 'g, 'r, 'enc, 'v) rustls_api \<Rightarrow> ('cfg, 'h) swap_api \<Rightarrow> ('v option \<Rightarrow> 'v option) \<Rightarrow>
   ('p \<Rightarrow> bytes io_result) \<Rightarrow> (string \<times> 'p \<times> 'p) list \<Rightarrow> 'v option \<Rightarrow> 'h \<Rightarrow>
   rustls_config io_result panicking \<times> 'v option \<times> 'h" where
  "rustls_from_sni_pem_files ru sw build read files installed h =
     (let (provider, installed) = crypto_provider build installed
      in case provider of
           Panics msg \<Rightarrow> (Panics msg, installed, h)
         | Returns provider \<Rightarrow>
             (let (r, h) = rustls_sni_create ru sw provider read files h in (Returns r, installed, h)))"

definition rustls_from_pem_chain_file where
  "rustls_from_pem_chain_file ru sw read chain key =
     rustls_create sw (config_from_pem_chain_file ru read chain key)"

definition rustls_from_pem_with_password where
  "rustls_from_pem_with_password ru sw cert key password =
     rustls_create sw (config_from_pem_with_password ru cert key password)"

definition rustls_from_pem_file_with_password where
  "rustls_from_pem_file_with_password ru sw read cert key password h =
     (case read cert of
        Inl e \<Rightarrow> (Inl e, h)
      | Inr cert \<Rightarrow>
          (case read key of
             Inl e \<Rightarrow> (Inl e, h)
           | Inr key \<Rightarrow> rustls_from_pem_with_password ru sw cert key password h))"

definition rustls_get_inner :: "('cfg, 'h) swap_api \<Rightarrow> rustls_config \<Rightarrow> 'h \<Rightarrow> 'cfg" where
  "rustls_get_inner sw self h = sw_load_full sw (rc_inner self) h"

definition rustls_reload_from_config :: "('cfg, 'h) swap_api \<Rightarrow> rustls_config \<Rightarrow> 'cfg \<Rightarrow> 'h \<Rightarrow> 'h" where
  "rustls_reload_from_config sw self config h = sw_store sw (rc_inner self) config h"

definition rustls_reload_from_der where
  "rustls_reload_from_der ru sw self cert key = rustls_reload sw self (config_from_der ru cert key)"

definition rustls_reload_from_pem where
  "rustls_reload_from_pem ru sw self cert key = rustls_reload sw self (config_from_pem ru cert key)"

definition rustls_reload_from_pem_file where
  "rustls_reload_from_pem_file ru sw self read cert key =
     rustls_reload sw self (config_from_pem_file ru read cert key)"

definition rustls_reload_from_pem_with_password where
  "rustls_reload_from_pem_with_password ru sw self cert key password =
     rustls_reload sw self (config_from_pem_with_password ru cert key password)"

definition rustls_reload_from_pem_file_with_password where
  "rustls_reload_from_pem_file_with_password ru sw self read cert key password h =
     (case read cert of
        Inl e \<Rightarrow> (Inl e, h)
      | Inr cert \<Rightarrow>
          (case read key of
             Inl e \<Rightarrow> (Inl e, h)
           | Inr key \<Rightarrow> rustls_reload_from_pem_with_password ru sw self cert key password h))"

lemma rc_inner_inj: "rc_inner i = rc_inner j \<longleftrightarrow> i = (j :: rustls_config)"
  by (cases i; cases j) simp

interpretation rustls_cells: reloadable "swap_documented sw live" "\<lambda>h c. live h (rc_inner c)"
    "rustls_get_inner sw" "rustls_create sw" "rustls_reload sw"
  for sw :: "('c, 'h) swap_api" and live
proof
  fix r :: "'c io_result" and h h' e c and i j :: rustls_config and x :: "rustls_config io_result" and y :: "unit io_result"
  assume ok: "swap_documented sw live"
  show "live h' (rc_inner i) \<and> r = Inr (rustls_get_inner sw i h')" if "rustls_create sw r h = (Inr i, h')"
  proof -
    from that have "swap_create sw r h = (Inr (rc_inner i), h')"
      by (auto simp: rustls_create_def split: prod.splits)
    from swap_cells.create_gets [OF ok this] show ?thesis by (simp add: rustls_get_inner_def)
  qed
  show "live h' (rc_inner j) \<and> rustls_get_inner sw j h' = rustls_get_inner sw j h"
    if "rustls_create sw r h = (x, h')" "live h (rc_inner j)"
  proof -
    from that(1) obtain z where "swap_create sw r h = (z, h')"
      by (auto simp: rustls_create_def split: prod.splits)
    from swap_cells.create_frame [OF ok this that(2)] show ?thesis by (simp add: rustls_get_inner_def)
  qed
  show "y = Inr () \<and> rustls_get_inner sw i h' = c"
    if "live h (rc_inner i)" "rustls_reload sw i (Inr c) h = (y, h')"
    using swap_cells.reload_gets [OF ok that(1)] that(2) by (simp add: rustls_reload_def rustls_get_inner_def)
  show "live h' (rc_inner j) \<and> (j \<noteq> i \<longrightarrow> rustls_get_inner sw j h' = rustls_get_inner sw j h)"
    if "live h (rc_inner i)" "rustls_reload sw i (Inr c) h = (y, h')" "live h (rc_inner j)"
    using swap_cells.reload_frame [OF ok that(1) that(2) [unfolded rustls_reload_def] that(3)]
    by (auto simp: rustls_get_inner_def rc_inner_inj)
next
  show "rustls_create sw r h = (Inl e, h') \<longleftrightarrow> r = Inl e \<and> h' = h" for r h e h'
    by (auto simp: rustls_create_def swap_create_def split: prod.splits sum.splits)
  show "rustls_reload sw i (Inl e) h = (Inl e, h)" for i e h
    by (simp add: rustls_reload_def swap_cells.reload_fails)
qed

section \<open>Reloading through clones\<close>

text \<open>
  A reload: the configuration value (a clone) it is called on, and its arguments, with the
  files as they are at that moment.
\<close>

datatype ('cfg, 'p) rustls_op =
    ReloadConfig rustls_config 'cfg
  | ReloadDer rustls_config "bytes list" bytes
  | ReloadPem rustls_config bytes bytes
  | ReloadPemFile rustls_config "'p \<Rightarrow> bytes io_result" 'p 'p
  | ReloadPemPassword rustls_config bytes bytes bytes
  | ReloadPemFilePassword rustls_config "'p \<Rightarrow> bytes io_result" 'p 'p bytes

fun rustls_op_step ::
  "('cfg, 'c, 'k, 'g, 'r, 'enc, 'v) rustls_api \<Rightarrow> ('cfg, 'h) swap_api \<Rightarrow> ('cfg, 'p) rustls_op \<Rightarrow> 'h \<Rightarrow> 'h"
where
  "rustls_op_step ru sw (ReloadConfig c cfg) h = rustls_reload_from_config sw c cfg h"
| "rustls_op_step ru sw (ReloadDer c cert key) h = snd (rustls_reload_from_der ru sw c cert key h)"
| "rustls_op_step ru sw (ReloadPem c cert key) h = snd (rustls_reload_from_pem ru sw c cert key h)"
| "rustls_op_step ru sw (ReloadPemFile c read cert key) h =
     snd (rustls_reload_from_pem_file ru sw c read cert key h)"
| "rustls_op_step ru sw (ReloadPemPassword c cert key pw) h =
     snd (rustls_reload_from_pem_with_password ru sw c cert key pw h)"
| "rustls_op_step ru sw (ReloadPemFilePassword c read cert key pw) h =
     snd (rustls_reload_from_pem_file_with_password ru sw c read cert key pw h)"

fun rustls_op_target :: "('cfg, 'p) rustls_op \<Rightarrow> rustls_config" where
  "rustls_op_target (ReloadConfig c cfg) = c"
| "rustls_op_target (ReloadDer c cert key) = c"
| "rustls_op_target (ReloadPem c cert key) = c"
| "rustls_op_target (ReloadPemFile c read cert key) = c"
| "rustls_op_target (ReloadPemPassword c cert key pw) = c"
| "rustls_op_target (ReloadPemFilePassword c read cert key pw) = c"

text \<open>What the reload computes from its arguments.\<close>

fun rustls_op_config ::
  "('cfg, 'c, 'k, 'g, 'r, 'enc, 'v) rustls_api \<Rightarrow> ('cfg, 'p) rustls_op \<Rightarrow> 'cfg io_result"
where
  "rustls_op_config ru (ReloadConfig c cfg) = Inr cfg"
| "rustls_op_config ru (ReloadDer c cert key) = config_from_der ru cert key"
| "rustls_op_config ru (ReloadPem c cert key) = config_from_pem ru cert key"
| "rustls_op_config ru (ReloadPemFile c read cert key) = config_from_pem_file ru read cert key"
| "rustls_op_config ru (ReloadPemPassword c cert key pw) = config_from_pem_with_password ru cert key pw"
| "rustls_op_config ru (ReloadPemFilePassword c read cert key pw) =
     res_bind (read cert) (\<lambda>cert. res_bind (read key) (\<lambda>key. config_from_pem_with_password ru cert key pw))"

lemmas rustls_reload_defs =
  rustls_reload_from_config_def rustls_reload_from_der_def rustls_reload_from_pem_def
  rustls_reload_from_pem_file_def rustls_reload_from_pem_with_password_def
  rustls_reload_from_pem_file_with_password_def

lemma rustls_op_attempt:
  "rustls_op_step ru sw x h = rustls_cells.attempt sw (rustls_op_target x, rustls_op_config ru x) h"
  by (cases x)
    (auto simp: rustls_cells.attempt_def rustls_reload_defs rustls_reload_def swap_reload_def split: sum.split)

lemma rustls_latest:
  "rustls_cells.latest c (d, r) = (\<lambda>cfg. case r of Inl e \<Rightarrow> cfg | Inr new \<Rightarrow> if d = c then new else cfg)"
  by (rule ext) (simp add: rustls_cells.latest_def split: sum.split)

lemma rustls_ops_attempts:
  "fold (rustls_op_step ru sw) xs h =
   fold (rustls_cells.attempt sw) (map (\<lambda>x. (rustls_op_target x, rustls_op_config ru x)) xs) h"
  by (induction xs arbitrary: h) (simp_all add: rustls_op_attempt)

section \<open>The PEM file of a key\<close>

fun parsed :: "('e + 'a) list \<Rightarrow> 'a list" where
  "parsed [] = []"
| "parsed (Inr x # rs) = x # parsed rs"
| "parsed (Inl e # rs) = parsed rs"

lemma key_loop_found:
  "key_loop (Inr k) items =
     (if parsed items = [] then Inr k
      else Inl (io_other ''The private key file contains multiple keys (it must only contain one)''))"
  by (induction items rule: parsed.induct) simp_all

lemma key_loop_none:
  "key_loop (Inl e) items =
     (case parsed items of
        [] \<Rightarrow> Inl (if items = [] then e else io_other ''failed to parse PEM'')
      | [k] \<Rightarrow> Inr k
      | _ \<Rightarrow> Inl (io_other ''The private key file contains multiple keys (it must only contain one)''))"
  by (induction items arbitrary: e rule: parsed.induct) (auto simp: key_loop_found split: list.split)

section \<open>ALPN\<close>

text \<open>The file variant of the constructor with a password, as one computation and one allocation.\<close>

lemma rustls_from_pem_file_with_password_alt:
  "rustls_from_pem_file_with_password ru sw read cert key pw =
     rustls_create sw (res_bind (read cert) (\<lambda>cert. res_bind (read key) (\<lambda>key.
       config_from_pem_with_password ru cert key pw)))"
  by (rule ext)
    (simp add: rustls_from_pem_file_with_password_def rustls_from_pem_with_password_def
      rustls_create_def swap_create_def split: sum.split)

lemma config_alpn:
  "config_from_cert_and_key ru c k = Inr cfg \<Longrightarrow> \<exists>d. cfg = set_alpn ru d"
  "config_from_der ru certs key = Inr cfg \<Longrightarrow> \<exists>d. cfg = set_alpn ru d"
  "config_from_pem ru cert key = Inr cfg \<Longrightarrow> \<exists>d. cfg = set_alpn ru d"
  "config_from_pem_with_password ru cert key pw = Inr cfg \<Longrightarrow> \<exists>d. cfg = set_alpn ru d"
  "config_from_pem_file ru read cp kp = Inr cfg \<Longrightarrow> \<exists>d. cfg = set_alpn ru d"
  "config_from_pem_chain_file ru read cp kp = Inr cfg \<Longrightarrow> \<exists>d. cfg = set_alpn ru d"
  "sni_config ru provider read files = Inr cfg \<Longrightarrow> \<exists>d. cfg = set_alpn ru d"
  "res_bind (read cp) (\<lambda>cert. res_bind (read kp) (\<lambda>key. config_from_pem_with_password ru cert key pw)) = Inr cfg \<Longrightarrow>
     \<exists>d. cfg = set_alpn ru d"
proof -
  show base: "config_from_cert_and_key ru c k = Inr cfg \<Longrightarrow> \<exists>d. cfg = set_alpn ru d" for c k
    by (auto simp: config_from_cert_and_key_def)
  show der: "config_from_der ru certs key = Inr cfg \<Longrightarrow> \<exists>d. cfg = set_alpn ru d"
    by (auto simp: config_from_der_def Let_def dest: base)
  show pem: "config_from_pem ru cert key = Inr cfg \<Longrightarrow> \<exists>d. cfg = set_alpn ru d" for cert key
    by (auto simp: config_from_pem_def dest: base)
  show password: "config_from_pem_with_password ru cert key pw = Inr cfg \<Longrightarrow> \<exists>d. cfg = set_alpn ru d" for cert key
    by (auto simp: config_from_pem_with_password_def dest: base split: if_splits)
  show "res_bind (read cp) (\<lambda>cert. res_bind (read kp) (\<lambda>key. config_from_pem_with_password ru cert key pw)) = Inr cfg \<Longrightarrow>
     \<exists>d. cfg = set_alpn ru d"
    by (auto dest: password)
  show "config_from_pem_file ru read cp kp = Inr cfg \<Longrightarrow> \<exists>d. cfg = set_alpn ru d"
    by (auto simp: config_from_pem_file_def dest: pem)
  show "config_from_pem_chain_file ru read cp kp = Inr cfg \<Longrightarrow> \<exists>d. cfg = set_alpn ru d"
    by (auto simp: config_from_pem_chain_file_def dest: base)
  show "sni_config ru provider read files = Inr cfg \<Longrightarrow> \<exists>d. cfg = set_alpn ru d"
    by (auto simp: sni_config_def)
qed

section \<open>A concrete library\<close>

text \<open>
  Certificates and keys are bytes, a PEM file lists one item per byte (0 is a section that
  does not parse), every configuration is built.
\<close>

type_synonym toy_cfg = "bytes list \<times> bytes list"

fun toy_item :: "8 word \<Rightarrow> string + bytes" where
  "toy_item b = (if b = 0 then Inl ''bad section'' else Inr [b])"

definition toy_rustls :: "(toy_cfg, bytes, bytes, bytes, (string \<times> bytes list \<times> bytes) list, bytes, nat) rustls_api" where
  "toy_rustls = \<lparr>ru_cert_from = (\<lambda>b. b), ru_key_try_from = Inr, ru_pem_certs = map toy_item,
     ru_pem_keys = map toy_item, ru_key_from_pem = Inr,
     ru_single_cert = (\<lambda>cs k. if cs = [] then Inl ''no certificate'' else Inr (k # cs, [])),
     ru_cert_resolver = (\<lambda>r. (concat (map (\<lambda>(n, cs, k). k # cs) r), [])),
     ru_set_alpn = (\<lambda>ps (c, _). (c, ps)), ru_alpn = snd, ru_load_private_key = (\<lambda>_. Inr),
     ru_resolver_new = [], ru_resolver_add = (\<lambda>n (cs, k) r. Inr (r @ [(n, cs, k)])),
     ru_document_from_pem = (\<lambda>b. Inr (''ENCRYPTED PRIVATE KEY'', b)), ru_encrypted_from_der = Inr,
     ru_decrypt = (\<lambda>pw e. if pw = [7] then Inr e else Inl ''bad password''), ru_pkcs8_key = (\<lambda>b. b)\<rparr>"

section \<open>Properties\<close>

text \<open>
  The last successful reload wins, for everybody: after any sequence of reloads of any
  kind, through any clones, a configuration holds what the last reload of it that succeeded
  computed, or what it held before if none succeeded; a reload that fails changes nothing,
  and reloads of one configuration do not touch another.
\<close>

theorem rustls_last_reload_wins:
  assumes "swap_documented sw live"
    and "\<forall>x \<in> set xs. live h (rc_inner (rustls_op_target x))" and "live h (rc_inner c)"
  shows "rustls_get_inner sw c (fold (rustls_op_step ru sw) xs h) =
    fold (\<lambda>x cfg. case rustls_op_config ru x of
        Inl e \<Rightarrow> cfg
      | Inr new \<Rightarrow> if rustls_op_target x = c then new else cfg) xs (rustls_get_inner sw c h)"
proof -
  let ?ys = "map (\<lambda>x. (rustls_op_target x, rustls_op_config ru x)) xs"
  have "rustls_get_inner sw c (fold (rustls_cells.attempt sw) ?ys h) =
      fold (rustls_cells.latest c) ?ys (rustls_get_inner sw c h)"
    using rustls_cells.attempts_get [OF assms(1), of ?ys h c] assms(2,3) by auto
  then show ?thesis
    by (simp add: rustls_ops_attempts fold_map comp_def rustls_latest)
qed

theorem rustls_last_reload_wins_witness:
  "rustls_get_inner toy_swap \<lparr>rc_inner = 0\<rparr>
     (fold (rustls_op_step toy_rustls toy_swap)
       [ReloadPem \<lparr>rc_inner = 0\<rparr> [1] [2], ReloadPem \<lparr>rc_inner = 0\<rparr> [1] [3, 4],
        ReloadConfig \<lparr>rc_inner = 1\<rparr> ([], []) :: (toy_cfg, nat) rustls_op]
       [([], []), ([], [])]) =
   ([[2], [1]], alpn_protocols)"
proof -
  let ?xs = "[ReloadPem \<lparr>rc_inner = 0\<rparr> [1] [2], ReloadPem \<lparr>rc_inner = 0\<rparr> [1] [3, 4],
    ReloadConfig \<lparr>rc_inner = 1\<rparr> ([], []) :: (toy_cfg, nat) rustls_op]"
  have live: "\<forall>x \<in> set ?xs. rc_inner (rustls_op_target x) < length [([], []), ([], []) :: toy_cfg]"
    by simp
  have c: "rc_inner \<lparr>rc_inner = 0\<rparr> < length [([], []), ([], []) :: toy_cfg]" by simp
  show ?thesis
    unfolding rustls_last_reload_wins [OF toy_swap_documented live c]
    by (simp add: config_from_pem_def certificates_from_pem_def private_key_from_pem_def toy_rustls_def
        config_from_cert_and_key_def set_alpn_def Let_def)
qed

text \<open>
  C39. The private key is taken only if it is the only one: reading a key from PEM gives the
  key if exactly one section of the file is one, wherever it stands and whatever sections do
  not parse; several keys are refused; without a key the error says whether there were
  sections at all.
\<close>

theorem private_key_is_unique:
  "private_key_from_pem ru key =
     (case parsed (ru_pem_keys ru key) of
        [k] \<Rightarrow> Inr k
      | [] \<Rightarrow> Inl (io_other (if ru_pem_keys ru key = [] then ''The private key file contained no keys''
                 else ''failed to parse PEM''))
      | _ \<Rightarrow> Inl (io_other ''The private key file contains multiple keys (it must only contain one)''))"
  by (auto simp: private_key_from_pem_def key_loop_none split: list.split)

text \<open>
  Every configuration the library computes itself offers HTTP/2 and HTTP/1.1 by ALPN, in
  this order: if one of the constructors succeeds, the new configuration's protocols are
  \<open>h2\<close> and \<open>http/1.1\<close>.
\<close>

theorem rustls_created_alpn:
  assumes "swap_documented sw live" and "\<forall>ps d. ru_alpn ru (ru_set_alpn ru ps d) = ps"
    and "create \<in> {rustls_from_der ru sw certs key, rustls_from_pem ru sw cert key,
      rustls_from_pem_file ru sw read cp kp, rustls_from_pem_chain_file ru sw read cp kp,
      rustls_sni_create ru sw provider read files, rustls_from_pem_with_password ru sw cert key pw,
      rustls_from_pem_file_with_password ru sw read cp kp pw}"
    and "create h = (Inr c, h')"
  shows "ru_alpn ru (rustls_get_inner sw c h') = [byte_string ''h2'', byte_string ''http/1.1'']"
proof -
  from assms(3,4) obtain r where r: "rustls_create sw r h = (Inr c, h')"
    and "r \<in> {config_from_der ru certs key, config_from_pem ru cert key, config_from_pem_file ru read cp kp,
      config_from_pem_chain_file ru read cp kp, sni_config ru provider read files,
      config_from_pem_with_password ru cert key pw,
      res_bind (read cp) (\<lambda>cert. res_bind (read kp) (\<lambda>key. config_from_pem_with_password ru cert key pw))}"
    by (auto simp: rustls_from_pem_file_with_password_alt rustls_from_der_def rustls_from_pem_def rustls_from_pem_file_def
        rustls_from_pem_chain_file_def rustls_sni_create_def rustls_from_pem_with_password_def)
  moreover from rustls_cells.create_gets [OF assms(1) r] have "r = Inr (rustls_get_inner sw c h')" by blast
  ultimately have "\<exists>d. rustls_get_inner sw c h' = set_alpn ru d"
    by (elim insertE emptyE) (auto dest: config_alpn(2-8) simp del: res_bind_Inr_iff)
  then show ?thesis using assms(2) by (auto simp: set_alpn_def alpn_protocols_def)
qed

theorem rustls_created_alpn_witness:
  "\<exists>c h. rustls_from_pem toy_rustls toy_swap [1] [2] [] = (Inr c, h) \<and>
     ru_alpn toy_rustls (rustls_get_inner toy_swap c h) = [byte_string ''h2'', byte_string ''http/1.1'']"
proof -
  have alpn: "\<forall>ps d. ru_alpn toy_rustls (ru_set_alpn toy_rustls ps d) = ps"
    by (simp add: toy_rustls_def split: prod.split)
  have run: "rustls_from_pem toy_rustls toy_swap [1] [2] [] =
      (Inr \<lparr>rc_inner = 0\<rparr>, [([[2], [1]], alpn_protocols)])"
    by (simp add: rustls_from_pem_def rustls_create_def swap_create_def toy_swap_def config_from_pem_def
        certificates_from_pem_def private_key_from_pem_def toy_rustls_def config_from_cert_and_key_def
        set_alpn_def Let_def)
  from rustls_created_alpn [where create = "rustls_from_pem toy_rustls toy_swap [1] [2]",
      OF toy_swap_documented alpn _ run, where certs = "[]" and key = "[2]"
      and cert = "[1]" and read = "\<lambda>p. Inr []" and cp = "0 :: nat" and kp = 0 and files = "[]" and pw = "[]"
      and provider = 0]
    run show ?thesis by auto
qed

end
