(* ===== verification/RustlsAcceptor.thy ===== *)
theory RustlsAcceptor
  imports Handshake RustlsConfig
begin

text \<open>
  \<open>RustlsAcceptor\<close> (\<open>src/src/tls_rustls/mod.rs\<close>), its future
  (\<open>src/src/tls_rustls/future.rs\<close>) and the servers made with it. The futures of the inner
  acceptor and of the handshake under \<open>timeout\<close> are the environment of a poll, with the
  store as it is then; the information \<open>rustls\<close> has on a connection is \<open>conn_api\<close>.
\<close>

section \<open>The acceptor\<close>

record 'acc rustls_acceptor =
  ra_inner :: 'acc
  ra_config :: rustls_config
  ra_handshake_timeout :: duration

text \<open>\<open>DefaultAcceptor\<close> is a unit struct.\<close>

definition rustls_acceptor_new :: "rustls_config \<Rightarrow> unit rustls_acceptor" where
  "rustls_acceptor_new config =
     \<lparr>ra_inner = (), ra_config = config, ra_handshake_timeout = from_secs 10\<rparr>"

definition rustls_handshake_timeout :: "duration \<Rightarrow> 'acc rustls_acceptor \<Rightarrow> 'acc rustls_acceptor" where
  "rustls_handshake_timeout val self = self\<lparr>ra_handshake_timeout := val\<rparr>"

definition rustls_acceptor_acceptor :: "'acc2 \<Rightarrow> 'acc rustls_acceptor \<Rightarrow> 'acc2 rustls_acceptor" where
  "rustls_acceptor_acceptor acceptor self =
     \<lparr>ra_inner = acceptor, ra_config = ra_config self, ra_handshake_timeout = ra_handshake_timeout self\<rparr>"

definition bind_rustls where
  "bind_rustls api bd addr config hp =
     (let acceptor = rustls_acceptor_new config;
          (server, hp) = server_bind api bd addr hp
      in (server_acceptor server acceptor, hp))"

definition from_tcp_rustls where
  "from_tcp_rustls api bd set_nonblocking from_std listener config hp =
     (let acceptor = rustls_acceptor_new config
      in res_bind (from_tcp api bd set_nonblocking from_std listener hp) (\<lambda>(server, hp).
         Inr (server_acceptor server acceptor, hp)))"

definition from_unix_rustls where
  "from_unix_rustls api bd set_nonblocking from_std listener config hp =
     (let acceptor = rustls_acceptor_new config
      in res_bind (from_unix api bd set_nonblocking from_std listener hp) (\<lambda>(server, hp).
         Inr (server_acceptor server acceptor, hp)))"

section \<open>The future\<close>

datatype ('cfg, 'i, 's) rustls_accept_future =
    RfInner duration
  | RfAccept 'cfg 'i duration "'s option"

record ('cfg, 'i, 's) rustls_future =
  rf_inner :: "('cfg, 'i, 's) rustls_accept_future"
  rf_config :: "rustls_config option"

definition rustls_future_new :: "rustls_config \<Rightarrow> duration \<Rightarrow> ('cfg, 'i, 's) rustls_future" where
  "rustls_future_new config handshake_timeout =
     (let inner = RfInner handshake_timeout; config = Some config
      in \<lparr>rf_inner = inner, rf_config = config\<rparr>)"

definition rustls_accept :: "'acc rustls_acceptor \<Rightarrow> ('cfg, 'i, 's) rustls_future" where
  "rustls_accept self = (let config = ra_config self in rustls_future_new config (ra_handshake_timeout self))"

record 'tls conn_api =
  tc_server_name :: "'tls \<Rightarrow> string option"
  tc_alpn_protocol :: "'tls \<Rightarrow> bytes option"
  tc_peer_certificates :: "'tls \<Rightarrow> bytes list option"

definition rustls_tls_info :: "'tls conn_api \<Rightarrow> 'tls \<Rightarrow> tls_info" where
  "rustls_tls_info conn stream =
     tls_info_new (tc_server_name conn stream) (tc_alpn_protocol conn stream)
       (case tc_peer_certificates conn stream of Some certs \<Rightarrow> certs | None \<Rightarrow> [])"

text \<open>
  \<open>re_handshake\<close>: what polling the timeout around the handshake gives that was started with a
  configuration on a stream; \<open>Inl\<close> when the timeout has elapsed.
\<close>

record ('cfg, 'i, 's, 'tls, 'h) rustls_env =
  re_inner :: "('i \<times> 's) io_result poll"
  re_store :: 'h
  re_handshake :: "'cfg \<Rightarrow> 'i \<Rightarrow> duration \<Rightarrow> (string + 'tls io_result) poll"

function rustls_poll ::
  "('cfg, 'h) swap_api \<Rightarrow> 'tls conn_api \<Rightarrow> ('cfg, 'i, 's, 'tls, 'h) rustls_env \<Rightarrow>
   ('cfg, 'i, 's) rustls_future \<Rightarrow>
   ('tls \<times> 's tls_service) io_result poll panicking \<times> ('cfg, 'i, 's) rustls_future"
where
  "rustls_poll sw conn env this =
     (case rf_inner this of
        RfInner handshake_timeout \<Rightarrow>
          (case re_inner env of
             Ready (Inr (stream, service)) \<Rightarrow>
               (case rf_config this of
                  None \<Rightarrow> (Panics ''config is not set. this is a bug in axum-server, please report'', this)
                | Some config \<Rightarrow>
                    (let server_config = rustls_get_inner sw config (re_store env);
                         service = Some service
                     in rustls_poll sw conn env
                          (this\<lparr>rf_config := None,
                                rf_inner := RfAccept server_config stream handshake_timeout service\<rparr>)))
           | Ready (Inl e) \<Rightarrow> (Returns (Ready (Inl e)), this)
           | Pending \<Rightarrow> (Returns Pending, this))
      | RfAccept server_config io handshake_timeout service \<Rightarrow>
          (case re_handshake env server_config io handshake_timeout of
             Ready (Inr (Inr stream)) \<Rightarrow>
               (case service of
                  None \<Rightarrow> (Panics ''future polled after ready'', this)
                | Some service \<Rightarrow>
                    (let info = rustls_tls_info conn stream
                     in (Returns (Ready (Inr (stream, tls_service_new service info))),
                         this\<lparr>rf_inner := RfAccept server_config io handshake_timeout None\<rparr>)))
           | Ready (Inr (Inl e)) \<Rightarrow> (Returns (Ready (Inl e)), this)
           | Ready (Inl timeout) \<Rightarrow> (Returns (Ready (Inl (IoError TimedOut timeout))), this)
           | Pending \<Rightarrow> (Returns Pending, this)))"
  by pat_completeness auto
termination
  by (relation "measure (\<lambda>(_, _, _, this). case rf_inner this of RfInner _ \<Rightarrow> 1 | RfAccept _ _ _ _ \<Rightarrow> 0)")
    auto

declare rustls_poll.simps [simp del]

text \<open>The handshake stage, as a function of what it was started with.\<close>

definition rustls_shake ::
  "'tls conn_api \<Rightarrow> duration \<Rightarrow> 'cfg \<Rightarrow> 'i \<Rightarrow> 's \<Rightarrow> ('cfg, 'i, 's, 'tls, 'h) rustls_env \<Rightarrow>
   ('tls \<times> 's tls_service) io_result poll" where
  "rustls_shake conn timeout cfg stream service env =
     (case re_handshake env cfg stream timeout of
        Pending \<Rightarrow> Pending
      | Ready (Inl msg) \<Rightarrow> Ready (Inl (IoError TimedOut msg))
      | Ready (Inr (Inl e)) \<Rightarrow> Ready (Inl e)
      | Ready (Inr (Inr tls)) \<Rightarrow> Ready (Inr (tls, tls_service_new service (rustls_tls_info conn tls))))"

interpretation rustls_handshake: two_stage True "rustls_poll sw conn" "rustls_future_new config timeout"
    "\<lambda>cfg stream service. \<lparr>rf_inner = RfAccept cfg stream timeout (Some service), rf_config = None\<rparr>"
    re_inner "\<lambda>env. rustls_get_inner sw config (re_store env)" "rustls_shake conn timeout"
  for sw :: "('cfg, 'h) swap_api" and conn :: "'tls conn_api" and config timeout
proof
  fix env :: "('cfg, 'i, 's, 'tls, 'h) rustls_env" and e i s c r
  let ?start = "rustls_future_new config timeout :: ('cfg, 'i, 's) rustls_future"
  let ?shaking = "\<lambda>cfg stream service.
    \<lparr>rf_inner = RfAccept cfg stream timeout (Some service), rf_config = None\<rparr> :: ('cfg, 'i, 's) rustls_future"
  show "rustls_poll sw conn env ?start = (Returns Pending, ?start)" if "re_inner env = Pending"
    using that by (subst rustls_poll.simps) (simp add: rustls_future_new_def)
  show "fst (rustls_poll sw conn env ?start) = Returns (Ready (Inl e))" if "re_inner env = Ready (Inl e)"
    using that by (subst rustls_poll.simps) (simp add: rustls_future_new_def)
  show "rustls_poll sw conn env ?start =
      rustls_poll sw conn env (?shaking (rustls_get_inner sw config (re_store env)) i s)"
    if "re_inner env = Ready (Inr (i, s))"
    using that by (subst rustls_poll.simps) (simp add: rustls_future_new_def)
  show "rustls_poll sw conn env (?shaking c i s) = (Returns Pending, ?shaking c i s)"
    if "rustls_shake conn timeout c i s env = Pending"
    using that by (subst rustls_poll.simps) (auto simp: rustls_shake_def split: poll.splits sum.splits)
  show "fst (rustls_poll sw conn env (?shaking c i s)) = Returns (Ready r)"
    if "rustls_shake conn timeout c i s env = Ready r"
    using that by (subst rustls_poll.simps) (auto simp: rustls_shake_def Let_def split: poll.splits sum.splits)
qed

section \<open>Well-formed futures\<close>

text \<open>
  The options in the future are there for \<open>take()\<close>: the configuration is set until the
  handshake starts, the service until the future is ready.
\<close>

fun rustls_ready :: "('cfg, 'i, 's) rustls_accept_future \<Rightarrow> bool" where
  "rustls_ready (RfInner timeout) = False"
| "rustls_ready (RfAccept cfg io timeout service) = (service = None)"

definition rustls_future_wf :: "('cfg, 'i, 's) rustls_future \<Rightarrow> bool" where
  "rustls_future_wf fut \<longleftrightarrow>
     (case rf_inner fut of RfInner _ \<Rightarrow> rf_config fut \<noteq> None | RfAccept _ _ _ _ \<Rightarrow> rf_config fut = None)"

lemma rustls_poll_wf:
  assumes "rustls_future_wf fut" and "rustls_poll sw conn env fut = (r, fut')"
  shows "rustls_future_wf fut' \<and> (\<forall>msg. r = Panics msg \<longrightarrow> rustls_ready (rf_inner fut)) \<and>
    (\<forall>out. r = Returns (Ready (Inr out)) \<longrightarrow> rustls_ready (rf_inner fut'))"
  using assms
proof (induction sw conn env fut arbitrary: r fut' rule: rustls_poll.induct)
  case (1 sw conn env this)
  show ?case
  proof (cases "rf_inner this")
    case (RfAccept cfg io timeout service)
    with 1(2,3) show ?thesis
      by (subst (asm) rustls_poll.simps)
        (auto simp: rustls_future_wf_def Let_def split: poll.splits sum.splits option.splits)
  next
    case (RfInner timeout)
    show ?thesis
    proof (cases "\<exists>stream service. re_inner env = Ready (Inr (stream, service))")
      case False
      with 1(2,3) RfInner show ?thesis
        by (subst (asm) rustls_poll.simps)
          (auto simp: rustls_future_wf_def split: poll.splits sum.splits)
    next
      case True
      then obtain stream service config where c: "re_inner env = Ready (Inr (stream, service))"
          "rf_config this = Some config"
        using 1(2) RfInner by (auto simp: rustls_future_wf_def)
      let ?next = "this\<lparr>rf_config := None,
        rf_inner := RfAccept (rustls_get_inner sw config (re_store env)) stream timeout (Some service)\<rparr>"
      have "rustls_poll sw conn env ?next = (r, fut')"
        using 1(3) RfInner c by (subst (asm) rustls_poll.simps) (simp add: Let_def)
      from 1(1) [OF RfInner c(1) refl refl c(2) refl refl _ this]
      show ?thesis by (auto simp: rustls_future_wf_def)
    qed
  qed
qed

section \<open>Properties\<close>

text \<open>
  What accepting with \<open>RustlsAcceptor\<close> gives, for every sequence of polls: it never
  panics; it waits for the inner acceptor and passes on its error; it then shakes hands with
  the configuration of that moment under the handshake timeout, which gives the error of the
  handshake, an error of kind \<open>TimedOut\<close>, or the stream with a service that carries what
  \<open>rustls\<close> says of the connection.
\<close>

theorem rustls_accept_result:
  "fst (drive (rustls_poll sw conn) envs (rustls_accept acceptor)) =
     Returns (two_stage_result re_inner
       (\<lambda>env. rustls_get_inner sw (ra_config acceptor) (re_store env))
       (rustls_shake conn (ra_handshake_timeout acceptor)) envs)"
  by (simp add: rustls_accept_def rustls_handshake.drive_start)

text \<open>
  A reload reaches the next handshake and no other: if the inner acceptor becomes ready
  after a sequence of reloads, the handshake uses what the last successful one of them
  computed, whatever was reloaded since the acceptor was made, and no reload after that
  moment has an influence on it.
\<close>

theorem reload_reaches_next_handshake:
  assumes "swap_documented sw live" and "live h (rc_inner (ra_config acceptor))"
    and "\<forall>x \<in> set xs. live h (rc_inner (rustls_op_target x))"
    and "re_store env = fold (rustls_op_step ru sw) xs h"
    and "\<forall>e \<in> set before. re_inner e = Pending" and "re_inner env = Ready (Inr (stream, service))"
  shows "fst (drive (rustls_poll sw conn) (before @ env # after) (rustls_accept acceptor)) =
    Returns (first_ready
      (rustls_shake conn (ra_handshake_timeout acceptor)
        (fold (\<lambda>x cfg. case rustls_op_config ru x of
             Inl e \<Rightarrow> cfg
           | Inr new \<Rightarrow> if rustls_op_target x = ra_config acceptor then new else cfg)
          xs (rustls_get_inner sw (ra_config acceptor) h)) stream service)
      (env # after))"
proof -
  let ?ys = "map (\<lambda>x. (rustls_op_target x, rustls_op_config ru x)) xs"
  let ?c = "ra_config acceptor"
  have "rustls_get_inner sw ?c (re_store env) = fold (rustls_cells.latest ?c) ?ys (rustls_get_inner sw ?c h)"
    using rustls_cells.attempts_get [OF assms(1), of ?ys h ?c] assms(2-4) by (auto simp: rustls_ops_attempts)
  then show ?thesis
    by (simp add: rustls_accept_def rustls_handshake.drive_start fold_map comp_def rustls_latest
        two_stage_result_ready [OF assms(5,6)])
qed

text \<open>A handshake that completes at once with the configuration it was started with.\<close>

definition toy_conn :: "toy_cfg conn_api" where
  "toy_conn = \<lparr>tc_server_name = (\<lambda>_. None), tc_alpn_protocol = (\<lambda>c. Some (hd (snd c))),
     tc_peer_certificates = (\<lambda>_. None)\<rparr>"

definition toy_tls_env :: "toy_cfg list \<Rightarrow> (toy_cfg, nat, nat, toy_cfg, toy_cfg list) rustls_env" where
  "toy_tls_env h = \<lparr>re_inner = Ready (Inr (1, 2)), re_store = h,
     re_handshake = (\<lambda>cfg _ _. Ready (Inr (Inr cfg)))\<rparr>"

theorem reload_reaches_next_handshake_witness:
  "fst (drive (rustls_poll toy_swap toy_conn)
      [toy_tls_env (rustls_op_step toy_rustls toy_swap (ReloadPem \<lparr>rc_inner = 0\<rparr> [1] [2] :: (toy_cfg, nat) rustls_op)
         [([], [])])]
      (rustls_accept (rustls_acceptor_new \<lparr>rc_inner = 0\<rparr>))) =
   Returns (Ready (Inr (([[2], [1]], alpn_protocols),
     tls_service_new 2 (tls_info_new None (Some (byte_string ''h2'')) []))))"
proof -
  let ?c = "\<lparr>rc_inner = 0\<rparr>" and ?h = "[([], [])] :: toy_cfg list"
  let ?x = "ReloadPem ?c [1] [2] :: (toy_cfg, nat) rustls_op"
  let ?env = "toy_tls_env (rustls_op_step toy_rustls toy_swap ?x ?h)"
  have live: "rc_inner (ra_config (rustls_acceptor_new ?c)) < length ?h"
    "\<forall>x \<in> set [?x]. rc_inner (rustls_op_target x) < length ?h"
    and env: "re_store ?env = fold (rustls_op_step toy_rustls toy_swap) [?x] ?h"
    "\<forall>e \<in> set []. re_inner e = Pending" "re_inner ?env = Ready (Inr (1, 2))"
    by (simp_all add: rustls_acceptor_new_def toy_tls_env_def)
  from reload_reaches_next_handshake [OF toy_swap_documented live env, of toy_conn "[]"]
  show ?thesis
    by (simp add: rustls_acceptor_new_def config_from_pem_def certificates_from_pem_def private_key_from_pem_def
        toy_rustls_def config_from_cert_and_key_def set_alpn_def Let_def rustls_shake_def toy_tls_env_def
        rustls_tls_info_def toy_conn_def alpn_protocols_def)
qed

end
