(* ===== verification/ReverseProxy.thy ===== *)
theory ReverseProxy
  imports RustlsAcceptor
begin

text \<open>
  \<open>src/examples/reverse_proxy.rs\<close>: a server that ends TLS and forwards every request to an
  upstream over plain HTTP. The crate \<open>http\<close> (URIs, header maps, header values), the
  formatting of an IP address and the HTTP client are the fields of \<open>http_api\<close> and the
  argument \<open>client\<close>; \<open>http_documented\<close> is what the crate documents of header maps.
\<close>

section \<open>The program\<close>

record ('uri, 'hv, 'hm, 'addr) http_api =
  ht_parse_uri :: "string \<Rightarrow> string + 'uri"
  ht_path_and_query :: "'uri \<Rightarrow> string option"
  ht_get :: "string \<Rightarrow> 'hm \<Rightarrow> 'hv option"
  ht_get_all :: "string \<Rightarrow> 'hm \<Rightarrow> 'hv list"
  ht_insert :: "string \<Rightarrow> 'hv \<Rightarrow> 'hm \<Rightarrow> 'hm"
  ht_from_static :: "string \<Rightarrow> 'hv"
  ht_from_str :: "string \<Rightarrow> string + 'hv"
  ht_ip_to_string :: "'addr \<Rightarrow> string"

record app_state =
  ap_upstream :: string

record ('uri, 'hm, 'body) request =
  rq_uri :: 'uri
  rq_headers :: 'hm
  rq_body :: 'body

datatype status_code = BadRequest | BadGateway

datatype 'resp response = FromUpstream 'resp | FromProxy status_code string

text \<open>\<open>str::trim_end_matches\<close> with a character.\<close>

definition trim_end_matches :: "char \<Rightarrow> string \<Rightarrow> string" where
  "trim_end_matches c s = rev (dropWhile (\<lambda>x. x = c) (rev s))"

text \<open>The beginning of \<open>main\<close>; \<open>var\<close> is the result of \<open>std::env::var\<close>.\<close>

definition proxy_state ::
  "('uri, 'hv, 'hm, 'addr) http_api \<Rightarrow> string + string \<Rightarrow> app_state panicking" where
  "proxy_state ht var =
     (let upstream = trim_end_matches CHR 0x2F
        (case var of Inr v \<Rightarrow> v | Inl _ \<Rightarrow> ''http://127.0.0.1:8080'')
      in case ht_parse_uri ht upstream of
           Inl e \<Rightarrow> Panics ''invalid UPSTREAM''
         | Inr _ \<Rightarrow> Returns \<lparr>ap_upstream = upstream\<rparr>)"

text \<open>What \<open>proxy\<close> makes of a request before it sends it.\<close>

definition proxy_request ::
  "('uri, 'hv, 'hm, 'addr) http_api \<Rightarrow> app_state \<Rightarrow> 'addr \<Rightarrow> ('uri, 'hm, 'body) request \<Rightarrow>
   'resp response + ('uri, 'hm, 'body) request" where
  "proxy_request ht state remote req =
     (let path_and_query = (case ht_path_and_query ht (rq_uri req) of Some path \<Rightarrow> path | None \<Rightarrow> ''/'');
          host = ht_get ht ''host'' (rq_headers req)
      in case ht_parse_uri ht (ap_upstream state @ path_and_query) of
           Inl _ \<Rightarrow> Inl (FromProxy BadRequest ''invalid upstream request URI'')
         | Inr uri \<Rightarrow>
             (let req = req\<lparr>rq_uri := uri\<rparr>;
                  req = (case host of
                      Some host \<Rightarrow> req\<lparr>rq_headers := ht_insert ht ''host'' host (rq_headers req)\<rparr>
                    | None \<Rightarrow> req);
                  req = req\<lparr>rq_headers :=
                    ht_insert ht ''x-forwarded-proto'' (ht_from_static ht ''https'') (rq_headers req)\<rparr>;
                  req = (case ht_from_str ht (ht_ip_to_string ht remote) of
                      Inr ip \<Rightarrow> req\<lparr>rq_headers := ht_insert ht ''x-forwarded-for'' ip (rq_headers req)\<rparr>
                    | Inl _ \<Rightarrow> req)
              in Inr req))"

definition proxy ::
  "('uri, 'hv, 'hm, 'addr) http_api \<Rightarrow> (('uri, 'hm, 'body) request \<Rightarrow> string + 'resp) \<Rightarrow>
   app_state \<Rightarrow> 'addr \<Rightarrow> ('uri, 'hm, 'body) request \<Rightarrow> 'resp response" where
  "proxy ht client state remote req =
     (case proxy_request ht state remote req of
        Inl response \<Rightarrow> response
      | Inr req \<Rightarrow>
          (case client req of
             Inr response \<Rightarrow> FromUpstream response
           | Inl error \<Rightarrow> FromProxy BadGateway (''upstream request failed: '' @ error)))"

definition http_documented :: "('uri, 'hv, 'hm, 'addr) http_api \<Rightarrow> bool" where
  "http_documented ht \<longleftrightarrow>
     (\<forall>n hm. ht_get ht n hm = (case ht_get_all ht n hm of [] \<Rightarrow> None | v # _ \<Rightarrow> Some v)) \<and>
     (\<forall>n v hm. ht_get_all ht n (ht_insert ht n v hm) = [v]) \<and>
     (\<forall>n m v hm. n \<noteq> m \<longrightarrow> ht_get_all ht n (ht_insert ht m v hm) = ht_get_all ht n hm) \<and>
     (\<forall>a. \<exists>v. ht_from_str ht (ht_ip_to_string ht a) = Inr v)"

lemma trim_end_matches_last: "trim_end_matches c s = [] \<or> last (trim_end_matches c s) \<noteq> c"
proof (cases "dropWhile (\<lambda>x. x = c) (rev s) = []")
  case False
  then have "hd (dropWhile (\<lambda>x. x = c) (rev s)) \<noteq> c" by (rule hd_dropWhile)
  with False show ?thesis by (simp add: trim_end_matches_def last_rev)
qed (simp add: trim_end_matches_def)

lemma takeWhile_replicate: "\<exists>n. takeWhile (\<lambda>x. x = c) xs = replicate n c"
proof (induction xs)
  case (Cons x xs)
  then obtain n where "takeWhile (\<lambda>x. x = c) xs = replicate n c" by blast
  then show ?case by (auto intro: exI [of _ 0] exI [of _ "Suc n"])
qed simp

lemma trim_end_matches_prefix: "\<exists>n. s = trim_end_matches c s @ replicate n c"
proof -
  obtain n where n: "takeWhile (\<lambda>x. x = c) (rev s) = replicate n c" using takeWhile_replicate [of c "rev s"] by auto
  have "rev s = takeWhile (\<lambda>x. x = c) (rev s) @ dropWhile (\<lambda>x. x = c) (rev s)" by simp
  then have "rev (rev s) = trim_end_matches c s @ replicate n c"
    by (metis n rev_append rev_replicate trim_end_matches_def)
  then show ?thesis by auto
qed

text \<open>The request that is sent, when its URI parses.\<close>

lemma proxy_request_sent:
  assumes "http_documented ht" and "ht_from_str ht (ht_ip_to_string ht remote) = Inr ip"
    and "proxy_request ht state remote req = (Inr r :: 'resp response + ('uri, 'hm, 'body) request)"
    and uri: "ht_parse_uri ht (ap_upstream state @
      (case ht_path_and_query ht (rq_uri req) of Some p \<Rightarrow> p | None \<Rightarrow> ''/'')) = Inr uri"
  shows "rq_uri r = uri \<and> rq_body r = rq_body req \<and>
    ht_get_all ht ''x-forwarded-proto'' (rq_headers r) = [ht_from_static ht ''https''] \<and>
    ht_get_all ht ''x-forwarded-for'' (rq_headers r) = [ip] \<and>
    ht_get_all ht ''host'' (rq_headers r) = take 1 (ht_get_all ht ''host'' (rq_headers req)) \<and>
    (\<forall>name. name \<notin> {''host'', ''x-forwarded-proto'', ''x-forwarded-for''} \<longrightarrow>
      ht_get_all ht name (rq_headers r) = ht_get_all ht name (rq_headers req))"
proof -
  have get: "ht_get ht n hm = (case ht_get_all ht n hm of [] \<Rightarrow> None | v # _ \<Rightarrow> Some v)"
    and same: "ht_get_all ht n (ht_insert ht n v hm) = [v]"
    and other: "n \<noteq> m \<Longrightarrow> ht_get_all ht n (ht_insert ht m v hm) = ht_get_all ht n hm" for n m v hm
    using assms(1) by (auto simp: http_documented_def)
  define hm where "hm = (case ht_get ht ''host'' (rq_headers req) of
      Some host \<Rightarrow> ht_insert ht ''host'' host (rq_headers req) | None \<Rightarrow> rq_headers req)"
  have "r = req\<lparr>rq_uri := uri, rq_headers := ht_insert ht ''x-forwarded-for'' ip
      (ht_insert ht ''x-forwarded-proto'' (ht_from_static ht ''https'') hm)\<rparr>"
    using assms(3) uri assms(2) by (cases "ht_get ht ''host'' (rq_headers req)") (simp_all add: proxy_request_def hm_def)
  then have fields: "rq_uri r = uri" "rq_body r = rq_body req"
    "rq_headers r = ht_insert ht ''x-forwarded-for'' ip
      (ht_insert ht ''x-forwarded-proto'' (ht_from_static ht ''https'') hm)" by simp_all
  have host: "ht_get_all ht ''host'' hm = take 1 (ht_get_all ht ''host'' (rq_headers req))"
    unfolding hm_def get [of "''host''"] by (simp add: same split: list.split)
  have rest: "ht_get_all ht name hm = ht_get_all ht name (rq_headers req)" if "name \<noteq> ''host''" for name
    using that unfolding hm_def by (simp add: other split: option.split)
  have headers: "ht_get_all ht ''x-forwarded-proto'' (rq_headers r) = [ht_from_static ht ''https'']"
    "ht_get_all ht ''x-forwarded-for'' (rq_headers r) = [ip]"
    "ht_get_all ht ''host'' (rq_headers r) = take 1 (ht_get_all ht ''host'' (rq_headers req))"
    unfolding fields by (simp_all add: same other host)
  have untouched: "ht_get_all ht name (rq_headers r) = ht_get_all ht name (rq_headers req)"
    if "name \<notin> {''host'', ''x-forwarded-proto'', ''x-forwarded-for''}" for name
    using that unfolding fields by (simp add: other rest)
  show ?thesis using fields(1,2) headers untouched by blast
qed

section \<open>Properties\<close>

text \<open>
  C40. What the proxy answers. The upstream is the configured one without trailing slashes. If
  that with the path and query of the request is no URI, the answer is 400. Otherwise the
  answer is that of the upstream, or 502, to a request with that URI and the same body in
  which the forwarding headers are those of the proxy alone, whatever the client sent under
  their names, there is at most one host header, the first the client sent, and every other
  header is untouched.
\<close>

theorem proxy_forwards:
  fixes client :: "('uri, 'hm, 'body) request \<Rightarrow> string + 'resp"
  assumes "http_documented ht" and "proxy_state ht var = Returns state"
  shows "(\<exists>n. (case var of Inr v \<Rightarrow> v | Inl _ \<Rightarrow> ''http://127.0.0.1:8080'') =
      ap_upstream state @ replicate n CHR 0x2F) \<and>
    (ap_upstream state = [] \<or> last (ap_upstream state) \<noteq> CHR 0x2F) \<and>
    (case ht_parse_uri ht (ap_upstream state @ (case ht_path_and_query ht (rq_uri req) of Some p \<Rightarrow> p | None \<Rightarrow> ''/'')) of
       Inl _ \<Rightarrow> proxy ht client state remote req = FromProxy BadRequest ''invalid upstream request URI''
     | Inr uri \<Rightarrow> (\<exists>r ip. rq_uri r = uri \<and> rq_body r = rq_body req \<and>
         ht_get_all ht ''x-forwarded-proto'' (rq_headers r) = [ht_from_static ht ''https''] \<and>
         ht_from_str ht (ht_ip_to_string ht remote) = Inr ip \<and>
         ht_get_all ht ''x-forwarded-for'' (rq_headers r) = [ip] \<and>
         ht_get_all ht ''host'' (rq_headers r) = take 1 (ht_get_all ht ''host'' (rq_headers req)) \<and>
         (\<forall>name. name \<notin> {''host'', ''x-forwarded-proto'', ''x-forwarded-for''} \<longrightarrow>
           ht_get_all ht name (rq_headers r) = ht_get_all ht name (rq_headers req)) \<and>
         proxy ht client state remote req =
           (case client r of
              Inr response \<Rightarrow> FromUpstream response
            | Inl error \<Rightarrow> FromProxy BadGateway (''upstream request failed: '' @ error))))"
proof -
  let ?var = "case var of Inr v \<Rightarrow> v | Inl _ \<Rightarrow> ''http://127.0.0.1:8080''"
  let ?path = "case ht_path_and_query ht (rq_uri req) of Some p \<Rightarrow> p | None \<Rightarrow> ''/''"
  have up: "ap_upstream state = trim_end_matches CHR 0x2F ?var"
    using assms(2) by (auto simp: proxy_state_def Let_def split: sum.splits)
  obtain n where n: "?var = ap_upstream state @ replicate n CHR 0x2F"
    using trim_end_matches_prefix [of ?var "CHR 0x2F"] up by metis
  have last: "ap_upstream state = [] \<or> last (ap_upstream state) \<noteq> CHR 0x2F"
    unfolding up by (rule trim_end_matches_last)
  obtain ip where ip: "ht_from_str ht (ht_ip_to_string ht remote) = Inr ip"
    using assms(1) unfolding http_documented_def by blast
  show ?thesis
  proof (cases "ht_parse_uri ht (ap_upstream state @ ?path)")
    case (Inl e)
    then have "proxy ht client state remote req = FromProxy BadRequest ''invalid upstream request URI''"
      by (simp add: proxy_def proxy_request_def Let_def)
    with n last show ?thesis unfolding Inl sum.case by blast
  next
    case (Inr uri)
    then obtain r where r: "proxy_request ht state remote req = (Inr r :: 'resp response + ('uri, 'hm, 'body) request)"
      by (auto simp: proxy_request_def Let_def)
    note sent = proxy_request_sent [OF assms(1) ip r Inr]
    have "proxy ht client state remote req =
        (case client r of
           Inr response \<Rightarrow> FromUpstream response
         | Inl error \<Rightarrow> FromProxy BadGateway (''upstream request failed: '' @ error))"
      using r by (simp add: proxy_def)
    with n last sent ip show ?thesis unfolding Inr sum.case by blast
  qed
qed

text \<open>Headers as a list of name and value, URIs as strings that must not be empty.\<close>

definition toy_http :: "(string, string, (string \<times> string) list, nat) http_api" where
  "toy_http = \<lparr>ht_parse_uri = (\<lambda>s. if s = [] then Inl ''empty'' else Inr s), ht_path_and_query = Some,
     ht_get = (\<lambda>n hm. case filter (\<lambda>x. fst x = n) hm of [] \<Rightarrow> None | x # _ \<Rightarrow> Some (snd x)),
     ht_get_all = (\<lambda>n hm. map snd (filter (\<lambda>x. fst x = n) hm)),
     ht_insert = (\<lambda>n v hm. filter (\<lambda>x. fst x \<noteq> n) hm @ [(n, v)]),
     ht_from_static = (\<lambda>s. s), ht_from_str = Inr, ht_ip_to_string = (\<lambda>a. replicate a CHR ''1'')\<rparr>"

lemma toy_http_documented: "http_documented toy_http"
proof -
  have "filter (\<lambda>x. fst x \<noteq> m \<and> fst x = n) hm = filter (\<lambda>x. fst x = n) hm" if "n \<noteq> m"
    for n m and hm :: "(string \<times> string) list"
    using that by (intro filter_cong) auto
  then show ?thesis
    by (auto simp: http_documented_def toy_http_def filter_empty_conv split: list.split)
qed

theorem proxy_forwards_witness:
  "\<exists>state. proxy_state toy_http (Inr ''http://up//'') = Returns state \<and>
     (\<exists>r. rq_uri r = ''http://up/a?b'' \<and> ht_get_all toy_http ''x-forwarded-for'' (rq_headers r) = [''111''] \<and>
       ht_get_all toy_http ''host'' (rq_headers r) = [''h''] \<and>
       proxy toy_http Inr state 3 \<lparr>rq_uri = ''/a?b'',
         rq_headers = [(''host'', ''h''), (''x-forwarded-for'', ''6.6.6.6''), (''host'', ''g'')], rq_body = ()\<rparr> =
         FromUpstream r)"
proof -
  let ?req = "\<lparr>rq_uri = ''/a?b'',
    rq_headers = [(''host'', ''h''), (''x-forwarded-for'', ''6.6.6.6''), (''host'', ''g'')], rq_body = ()\<rparr>"
  let ?state = "\<lparr>ap_upstream = ''http://up''\<rparr>"
  have state: "proxy_state toy_http (Inr ''http://up//'') = Returns ?state"
    by (simp add: proxy_state_def trim_end_matches_def toy_http_def)
  have "ht_parse_uri toy_http (ap_upstream ?state @
      (case ht_path_and_query toy_http (rq_uri ?req) of Some p \<Rightarrow> p | None \<Rightarrow> ''/'')) = Inr ''http://up/a?b''"
    by (simp add: toy_http_def)
  moreover have "ht_from_str toy_http (ht_ip_to_string toy_http 3) = Inr ''111''"
    by (simp add: toy_http_def numeral_3_eq_3)
  moreover have "take 1 (ht_get_all toy_http ''host'' (rq_headers ?req)) = [''h'']"
    by (simp add: toy_http_def)
  ultimately show ?thesis
    using proxy_forwards [OF toy_http_documented state, where req = ?req and client = Inr and remote = 3] state by auto
qed

end
