(* ===== verification/AcceptLoop.thy ===== *)
theory AcceptLoop
  imports ServerConfig
begin

text \<open>
  The function \<open>accept\<close> of \<open>src/src/server.rs\<close>: ask the listener for a stream until it
  gives one; report every error to the handler, without an address, and sleep 50 ms before
  the next attempt. It need not return, so the loop is a partial function of the sequence of
  the listener's results (\<open>accept_from\<close>), where \<open>None\<close> is "never returns". The future that
  the server polls is the machine \<open>accept_step\<close>; driven to its end (\<open>accept_drive\<close>) it does what
  \<open>accept_from\<close> does (\<open>accept_reports_and_sleeps\<close>).
\<close>

section \<open>The loop\<close>

definition backoff :: duration where
  "backoff = from_millis 50"

type_synonym 'a handler_log = "('a option \<times> io_error) list"

definition call_handler :: "bool \<Rightarrow> 'a option \<Rightarrow> io_error \<Rightarrow> 'a handler_log \<Rightarrow> 'a handler_log" where
  "call_handler present addr e log = (if present then log @ [(addr, e)] else log)"

partial_function (option) accept_from ::
  "bool \<Rightarrow> (nat \<Rightarrow> ('s \<times> 'a) io_result) \<Rightarrow> nat \<Rightarrow> 'a handler_log \<Rightarrow> duration \<Rightarrow>
   (('s \<times> 'a) \<times> nat \<times> 'a handler_log \<times> duration) option"
where
  "accept_from handler stream k log slept =
     (case stream k of
        Inr value \<Rightarrow> Some (value, Suc k, log, slept)
      | Inl e \<Rightarrow> accept_from handler stream (Suc k) (call_handler handler None e log) (slept + backoff))"

fun errors_reported :: "bool \<Rightarrow> (nat \<Rightarrow> ('s \<times> 'a) io_result) \<Rightarrow> nat \<Rightarrow> nat \<Rightarrow> 'a handler_log" where
  "errors_reported handler stream k 0 = []"
| "errors_reported handler stream k (Suc n) =
     (case stream k of Inl e \<Rightarrow> call_handler handler None e [] | Inr _ \<Rightarrow> []) @
     errors_reported handler stream (Suc k) n"

lemma errors_reported_all:
  assumes "\<forall>i<n. \<exists>e. stream (k + i) = Inl e"
  shows "map fst (errors_reported True stream k n) = replicate n None \<and>
    errors_reported False stream k n = []"
  using assms
proof (induction n arbitrary: k)
  case (Suc n)
  from Suc.prems obtain e where "stream k = Inl e" by force
  moreover have "\<forall>i<n. \<exists>e. stream (Suc k + i) = Inl e" using Suc.prems by auto
  ultimately show ?case using Suc.IH by (simp add: call_handler_def)
qed simp

lemma errors_reported_list:
  "\<forall>i<length errs. stream (k + i) = Inl (errs ! i) \<Longrightarrow>
   errors_reported handler stream k (length errs) = (if handler then map (\<lambda>e. (None, e)) errs else [])"
proof (induction errs arbitrary: k)
  case (Cons e errs)
  from Cons.prems have "stream k = Inl e" by force
  moreover from Cons.prems have "\<forall>i<length errs. stream (Suc k + i) = Inl (errs ! i)" by force
  ultimately show ?case using Cons.IH [of "Suc k"] by (simp add: call_handler_def)
qed simp

lemma accept_from_after_errors:
  assumes "\<forall>i<n. \<exists>e. stream (k + i) = Inl e" and "stream (k + n) = Inr v"
  shows "accept_from handler stream k log slept =
    Some (v, Suc (k + n), log @ errors_reported handler stream k n, slept + n * backoff)"
  using assms
proof (induction n arbitrary: k log slept)
  case 0
  then show ?case by (simp add: accept_from.simps)
next
  case (Suc n)
  from Suc.prems(1) obtain e where e: "stream k = Inl e" by force
  have "\<forall>i<n. \<exists>e. stream (Suc k + i) = Inl e" using Suc.prems(1) by auto
  moreover have "stream (Suc k + n) = Inr v" using Suc.prems(2) by simp
  ultimately show ?case
    using Suc.IH [of "Suc k"] e
    by (subst accept_from.simps) (simp add: call_handler_def algebra_simps)
qed

lemma accept_from_returns:
  assumes "accept_from handler stream k log slept = Some r"
  shows "\<exists>i v. k \<le> i \<and> stream i = Inr v"
proof (rule accept_from.raw_induct
    [where P = "\<lambda>handler stream k log slept r. \<exists>i v. k \<le> i \<and> stream i = Inr v", OF _ assms])
  fix f handler k log slept r
  fix stream :: "nat \<Rightarrow> ('a \<times> 'b) io_result"
  assume IH: "\<And>handler stream k log slept r. f handler stream k log slept = Some r \<Longrightarrow>
      \<exists>i v. k \<le> i \<and> stream i = (Inr v :: ('a \<times> 'b) io_result)"
    and eq: "(case stream k of
        Inl e \<Rightarrow> f handler stream (Suc k) (call_handler handler None e log) (slept + backoff)
      | Inr value \<Rightarrow> Some (value, Suc k, log, slept)) = Some r"
  show "\<exists>i v. k \<le> i \<and> stream i = Inr v"
  proof (cases "stream k")
    case (Inl e)
    with eq have "f handler stream (Suc k) (call_handler handler None e log) (slept + backoff) = Some r"
      by simp
    from IH [OF this] show ?thesis using Suc_leD by blast
  next
    case (Inr v)
    then show ?thesis by blast
  qed
qed

section \<open>The future\<close>

text \<open>
  Where the future of \<open>accept\<close> stands between polls. One step polls what it is waiting for:
  \<open>res\<close> is the poll of \<open>accept_stream\<close>, \<open>elapsed\<close> that of the sleep.
\<close>

datatype accept_fut = AfStream | AfBackoff

datatype ('s, 'a) accept_out =
    AoPending accept_fut
  | AoContinue accept_fut "'a handler_log"
  | AoReturn "'s \<times> 'a"

fun accept_step ::
  "bool \<Rightarrow> ('s \<times> 'a) io_result poll \<Rightarrow> bool \<Rightarrow> accept_fut \<Rightarrow> ('s, 'a) accept_out"
where
  "accept_step handler Pending elapsed AfStream = AoPending AfStream"
| "accept_step handler (Ready (Inr value)) elapsed AfStream = AoReturn value"
| "accept_step handler (Ready (Inl e)) elapsed AfStream =
     AoContinue AfBackoff (call_handler handler None e [])"
| "accept_step handler res elapsed AfBackoff =
     (if elapsed then AoContinue AfStream [] else AoPending AfBackoff)"

text \<open>
  Driving the future with the results of the listener in order and every sleep completed;
  the fuel bounds the number of steps.
\<close>

fun accept_drive ::
  "nat \<Rightarrow> bool \<Rightarrow> (nat \<Rightarrow> ('s \<times> 'a) io_result) \<Rightarrow> accept_fut \<Rightarrow> nat \<Rightarrow> 'a handler_log \<Rightarrow> duration \<Rightarrow>
   (('s \<times> 'a) \<times> nat \<times> 'a handler_log \<times> duration) option"
where
  "accept_drive 0 handler stream w k log slept = None"
| "accept_drive (Suc fuel) handler stream w k log slept =
     (case accept_step handler (Ready (stream k)) True w of
        AoReturn value \<Rightarrow> Some (value, Suc k, log, slept)
      | AoContinue w' l \<Rightarrow>
          accept_drive fuel handler stream w' (if w = AfStream then Suc k else k) (log @ l)
            (if w = AfBackoff then slept + backoff else slept)
      | AoPending w' \<Rightarrow> None)"

lemma accept_drive_after_errors:
  assumes "\<forall>i<n. \<exists>e. stream (k + i) = Inl e" and "stream (k + n) = Inr v" and "2 * n < fuel"
  shows "accept_drive fuel handler stream AfStream k log slept =
    accept_from handler stream k log slept"
  using assms
proof (induction n arbitrary: k log slept fuel)
  case 0
  then obtain m where "fuel = Suc m" by (cases fuel) auto
  with 0 show ?case by (simp add: accept_from.simps)
next
  case (Suc n)
  from Suc.prems(1) obtain e where e: "stream k = Inl e" by force
  from Suc.prems(3) obtain m where m: "fuel = Suc (Suc m)" "2 * n < m"
    by (cases fuel) (auto, metis Suc_lessE less_Suc_eq_0_disj not_less_eq)
  have "\<forall>i<n. \<exists>e. stream (Suc k + i) = Inl e" using Suc.prems(1) by auto
  moreover have "stream (Suc k + n) = Inr v" using Suc.prems(2) by simp
  ultimately have "accept_drive m handler stream AfStream (Suc k) (call_handler handler None e log) (slept + backoff) =
      accept_from handler stream (Suc k) (call_handler handler None e log) (slept + backoff)"
    using Suc.IH m(2) by blast
  then show ?case
    using e m(1) accept_from.simps [of handler stream k log slept]
    by (cases handler) (simp_all add: call_handler_def)
qed

section \<open>Properties\<close>

text \<open>
  \<open>accept\<close> returns exactly when the listener eventually gives a stream. It then returns
  the first one, has reported each of the \<open>n\<close> errors before it to the handler without an
  address (nothing when there is no handler), and has slept \<open>n\<close> times 50 ms.
\<close>

theorem accept_returns_first_stream:
  "((\<exists>r. accept_from handler stream 0 [] 0 = Some r) \<longleftrightarrow> (\<exists>k v. stream k = Inr v)) \<and>
   (\<forall>n v. stream n = Inr v \<and> (\<forall>i<n. \<exists>e. stream i = Inl e) \<longrightarrow>
      accept_from handler stream 0 [] 0 =
        Some (v, Suc n, errors_reported handler stream 0 n, n * backoff) \<and>
      length (errors_reported handler stream 0 n) = (if handler then n else 0) \<and>
      (\<forall>x \<in> set (errors_reported handler stream 0 n). fst x = None))"
proof -
  have returned: "accept_from handler stream 0 [] 0 =
        Some (v, Suc n, errors_reported handler stream 0 n, n * backoff)"
    if "stream n = Inr v" "\<forall>i<n. \<exists>e. stream i = Inl e" for n v
    using accept_from_after_errors [of n stream 0 v handler "[]" 0] that by simp
  have reported: "length (errors_reported handler stream 0 n) = (if handler then n else 0) \<and>
      (\<forall>x \<in> set (errors_reported handler stream 0 n). fst x = None)"
    if "\<forall>i<n. \<exists>e. stream i = Inl e" for n
  proof (cases handler)
    case True
    from errors_reported_all [of n stream 0] that
    have all: "map fst (errors_reported True stream 0 n) = replicate n None" by simp
    from arg_cong [OF all, of length] arg_cong [OF all, of set] True show ?thesis
      by (auto simp: set_replicate_conv_if split: if_splits)
  next
    case False
    with errors_reported_all [of n stream 0] that show ?thesis by simp
  qed
  have "\<exists>r. accept_from handler stream 0 [] 0 = Some r" if "stream k = Inr v" for k v
  proof -
    define n where "n = (LEAST n. \<exists>v. stream n = Inr v)"
    from that have "\<exists>n v. stream n = Inr v" by blast
    from LeastI_ex [OF this] have "\<exists>v. stream n = Inr v" unfolding n_def .
    moreover have "\<forall>i<n. \<exists>e. stream i = Inl e"
      unfolding n_def by (metis (mono_tags, lifting) not_less_Least sumE)
    ultimately show ?thesis using returned by blast
  qed
  then show ?thesis
    using accept_from_returns [of handler stream 0 "[]" 0] returned reported by blast
qed

definition toy_stream :: "nat \<Rightarrow> (nat \<times> nat) io_result" where
  "toy_stream k = (if k < 2 then Inl (IoError (OsError 24) []) else Inr (5, 9))"

theorem accept_returns_first_stream_witness:
  "accept_from True toy_stream 0 [] 0 =
     Some ((5, 9), 3, [(None, IoError (OsError 24) []), (None, IoError (OsError 24) [])], 100000000)"
proof -
  have "toy_stream 2 = Inr (5, 9) \<and> (\<forall>i<2. \<exists>e. toy_stream i = Inl e)"
    by (simp add: toy_stream_def)
  with accept_returns_first_stream [of True toy_stream]
  have "accept_from True toy_stream 0 [] 0 =
      Some ((5, 9), Suc 2, errors_reported True toy_stream 0 2, 2 * backoff)"
    by blast
  moreover have "errors_reported True toy_stream 0 2 =
      [(None, IoError (OsError 24) []), (None, IoError (OsError 24) [])]"
    by (simp add: numeral_2_eq_2 toy_stream_def call_handler_def)
  moreover have "2 * backoff = 100000000" by (simp add: backoff_def from_millis_def)
  ultimately show ?thesis by simp
qed

text \<open>
  C33. What \<open>accept\<close> does with errors of the listener: if it fails with \<open>errs\<close> before it gives a
  stream, both the function and the future that the server polls (driven with enough fuel and
  every sleep completed) return that stream after one more attempt, have told the handler, if
  there is one, of each of \<open>errs\<close> in order and without an address, and have slept 50 ms for each.
\<close>

theorem accept_reports_and_sleeps:
  assumes "\<forall>i<length errs. stream i = Inl (errs ! i)" and "stream (length errs) = Inr v" and "2 * length errs < fuel"
  shows "accept_drive fuel handler stream AfStream 0 [] 0 =
      Some (v, length errs + 1, if handler then map (\<lambda>e. (None, e)) errs else [], length errs * from_millis 50) \<and>
    accept_from handler stream 0 [] 0 =
      Some (v, length errs + 1, if handler then map (\<lambda>e. (None, e)) errs else [], length errs * from_millis 50)"
proof -
  have errors: "\<forall>i<length errs. \<exists>e. stream (0 + i) = Inl e" using assms(1) by auto
  have "accept_drive fuel handler stream AfStream 0 [] 0 = accept_from handler stream 0 [] 0"
    using accept_drive_after_errors [OF errors] assms(2,3) by simp
  moreover have "accept_from handler stream 0 [] 0 =
      Some (v, length errs + 1, errors_reported handler stream 0 (length errs), length errs * backoff)"
    using accept_from_after_errors [OF errors] assms(2) by simp
  moreover have "errors_reported handler stream 0 (length errs) = (if handler then map (\<lambda>e. (None, e)) errs else [])"
    using errors_reported_list [of errs stream 0] assms(1) by simp
  ultimately show ?thesis by (simp add: backoff_def)
qed

theorem accept_reports_and_sleeps_witness:
  "accept_drive 5 True toy_stream AfStream 0 [] 0 =
     Some ((5, 9), 3, [(None, IoError (OsError 24) []), (None, IoError (OsError 24) [])], 100000000)"
proof -
  let ?errs = "[IoError (OsError 24) [], IoError (OsError 24) []]"
  have "\<forall>i<length ?errs. toy_stream i = Inl (?errs ! i)" "toy_stream (length ?errs) = Inr (5, 9)"
    by (auto simp: toy_stream_def less_Suc_eq)
  from accept_reports_and_sleeps [OF this, of 5 True] show ?thesis by (simp add: from_millis_def)
qed

end
