(* ===== verification/Connection.thy ===== *)
theory Connection
  imports AcceptLoop
begin

text \<open>
  The task that \<open>Server::serve\<close> spawns for every connection (\<open>src/src/server.rs\<close>, the
  \<open>async move\<close> block of \<open>tokio::spawn\<close>), as a machine whose steps poll one branch of one
  \<open>select!\<close> each. All of them are \<open>biased\<close>: the branches are polled in the order of the
  source, and after a round in which every branch is pending the next poll starts again
  with the first. Between two steps the other tasks run.

  The futures of other crates (the acceptor, Hyper's connection, the timer, the oneshot
  receiver) are the environment of a step, \<open>conn_env\<close>: what polling each of them gives.
  Returning from the task drops its locals, with them the stream, and then the \<open>Watcher\<close>,
  whose \<open>drop\<close> is the machine of the theory \<open>Handle\<close>.
\<close>

section \<open>State\<close>

datatype conn_pc =
    AccShutdown | AccGraceful | AccAccept
  | FirstShutdown | FirstGraceful | FirstSleep | FirstRx | FirstServe
  | MainGraceful | MainShutdown | MainServe
  | DrainShutdown | DrainServe
  | CpDrop drop_pc

record conn_config =
  cc_http_version :: "http_version option"
  cc_first_request_timeout :: "duration option"
  cc_error_handler :: bool

text \<open>\<open>Either::Left\<close>: plain \<open>serve_connection\<close>; \<open>Either::Right\<close>: with upgrades.\<close>

datatype serve_kind = ServePlain | ServeUpgrades

record 'a conn =
  cn_pc :: conn_pc
  cn_remote :: 'a
  cn_stream_open :: bool
  cn_serve :: "serve_kind option"
  cn_graceful_calls :: nat
  cn_log :: "'a handler_log"

record conn_env =
  ce_accept :: "unit io_result poll"
  ce_sleep :: bool
  ce_rx :: "(unit + unit) poll"
  ce_serve :: bool

definition conn_spawn :: "'a \<Rightarrow> 'a conn" where
  "conn_spawn remote_addr =
     \<lparr>cn_pc = AccShutdown, cn_remote = remote_addr, cn_stream_open = True, cn_serve = None,
      cn_graceful_calls = 0, cn_log = []\<rparr>"

section \<open>Steps\<close>

definition conn_goto :: "conn_pc \<Rightarrow> 'a conn \<Rightarrow> 'a conn" where
  "conn_goto pc c = c\<lparr>cn_pc := pc\<rparr>"

definition conn_return :: "'a conn \<Rightarrow> 'a conn" where
  "conn_return c = c\<lparr>cn_pc := CpDrop DpSub, cn_stream_open := False\<rparr>"

text \<open>The acceptor failed: report the error with the remote address and return.\<close>

definition conn_accept_failed :: "conn_config \<Rightarrow> io_error \<Rightarrow> 'a conn \<Rightarrow> 'a conn" where
  "conn_accept_failed cfg e c =
     conn_return (c\<lparr>cn_log := call_handler (cc_error_handler cfg) (Some (cn_remote c)) e (cn_log c)\<rparr>)"

text \<open>
  The acceptor succeeded: choose the kind of connection by the HTTP version, then wait for
  the first request when a timeout is set and serve right away otherwise.
\<close>

definition conn_accepted :: "conn_config \<Rightarrow> 'a conn \<Rightarrow> 'a conn" where
  "conn_accepted cfg c =
     (let serve_future = (case cc_http_version cfg of Some _ \<Rightarrow> ServePlain | None \<Rightarrow> ServeUpgrades)
      in c\<lparr>cn_serve := Some serve_future,
           cn_pc := (case cc_first_request_timeout cfg of
             Some _ \<Rightarrow> FirstShutdown | None \<Rightarrow> MainGraceful)\<rparr>)"

definition conn_call_graceful :: "'a conn \<Rightarrow> 'a conn" where
  "conn_call_graceful c = c\<lparr>cn_graceful_calls := Suc (cn_graceful_calls c), cn_pc := DrainShutdown\<rparr>"

definition conn_step ::
  "'n notify_api \<Rightarrow> conn_config \<Rightarrow> conn_env \<Rightarrow> ('a, 'n) handle_inner \<Rightarrow> 'a conn \<Rightarrow>
   ('a, 'n) handle_inner \<times> 'a conn"
where
  "conn_step api cfg env h c =
     (case cn_pc c of
        AccShutdown \<Rightarrow>
          (case wait_shutdown h of
             Ready _ \<Rightarrow> (h, conn_return c) | Pending \<Rightarrow> (h, conn_goto AccGraceful c))
      | AccGraceful \<Rightarrow>
          (case wait_graceful_shutdown h of
             Ready _ \<Rightarrow> (h, conn_return c) | Pending \<Rightarrow> (h, conn_goto AccAccept c))
      | AccAccept \<Rightarrow>
          (case ce_accept env of
             Ready (Inr _) \<Rightarrow> (h, conn_accepted cfg c)
           | Ready (Inl e) \<Rightarrow> (h, conn_accept_failed cfg e c)
           | Pending \<Rightarrow> (h, conn_goto AccShutdown c))
      | FirstShutdown \<Rightarrow>
          (case wait_shutdown h of
             Ready _ \<Rightarrow> (h, conn_return c) | Pending \<Rightarrow> (h, conn_goto FirstGraceful c))
      | FirstGraceful \<Rightarrow>
          (case wait_graceful_shutdown h of
             Ready _ \<Rightarrow> (h, conn_goto MainGraceful c) | Pending \<Rightarrow> (h, conn_goto FirstSleep c))
      | FirstSleep \<Rightarrow>
          (if ce_sleep env then (h, conn_return c) else (h, conn_goto FirstRx c))
      | FirstRx \<Rightarrow>
          (case ce_rx env of
             Ready (Inl _) \<Rightarrow> (h, conn_return c)
           | Ready (Inr _) \<Rightarrow> (h, conn_goto MainGraceful c)
           | Pending \<Rightarrow> (h, conn_goto FirstServe c))
      | FirstServe \<Rightarrow>
          (if ce_serve env then (h, conn_return c) else (h, conn_goto FirstShutdown c))
      | MainGraceful \<Rightarrow>
          (case wait_graceful_shutdown h of
             Ready _ \<Rightarrow> (h, conn_call_graceful c) | Pending \<Rightarrow> (h, conn_goto MainShutdown c))
      | MainShutdown \<Rightarrow>
          (case wait_shutdown h of
             Ready _ \<Rightarrow> (h, conn_return c) | Pending \<Rightarrow> (h, conn_goto MainServe c))
      | MainServe \<Rightarrow>
          (if ce_serve env then (h, conn_return c) else (h, conn_goto MainGraceful c))
      | DrainShutdown \<Rightarrow>
          (case wait_shutdown h of
             Ready _ \<Rightarrow> (h, conn_return c) | Pending \<Rightarrow> (h, conn_goto DrainServe c))
      | DrainServe \<Rightarrow>
          (if ce_serve env then (h, conn_return c) else (h, conn_goto DrainShutdown c))
      | CpDrop d \<Rightarrow>
          (let (d', h') = watcher_drop_step api d h in (h', conn_goto (CpDrop d') c)))"

text \<open>
  A task that panics (in the acceptor or while serving) or is dropped by the runtime unwinds:
  the same drops as a return. Once it is dropping it cannot be aborted again.
\<close>

definition conn_abort :: "'a conn \<Rightarrow> 'a conn" where
  "conn_abort c = (case cn_pc c of CpDrop _ \<Rightarrow> c | _ \<Rightarrow> conn_return c)"

text \<open>The watcher is alive until its \<open>fetch_sub\<close>.\<close>

fun pc_live :: "conn_pc \<Rightarrow> bool" where
  "pc_live (CpDrop d) = (d = DpSub)"
| "pc_live _ = True"

definition conn_live :: "'a conn \<Rightarrow> bool" where
  "conn_live c = pc_live (cn_pc c)"

definition conn_done :: "'a conn \<Rightarrow> bool" where
  "conn_done c = (cn_pc c = CpDrop DpDone)"

text \<open>In service: past the first round of shutdown checks, and not yet returned.\<close>

fun pc_in_service :: "conn_pc \<Rightarrow> bool" where
  "pc_in_service AccShutdown = False"
| "pc_in_service AccGraceful = False"
| "pc_in_service (CpDrop d) = False"
| "pc_in_service _ = True"

definition conn_in_service :: "'a conn \<Rightarrow> bool" where
  "conn_in_service c = pc_in_service (cn_pc c)"

section \<open>Phases\<close>

datatype phase = PhAccept | PhFirst | PhMain | PhDrain | PhDrop

fun phase_rank :: "phase \<Rightarrow> nat" where
  "phase_rank PhAccept = 0"
| "phase_rank PhFirst = 1"
| "phase_rank PhMain = 2"
| "phase_rank PhDrain = 3"
| "phase_rank PhDrop = 4"

lemma phase_rank_inj: "phase_rank p = phase_rank q \<Longrightarrow> p = q"
  by (cases p; cases q) auto

instantiation phase :: linorder
begin

definition less_eq_phase :: "phase \<Rightarrow> phase \<Rightarrow> bool" where
  "less_eq_phase p q = (phase_rank p \<le> phase_rank q)"

definition less_phase :: "phase \<Rightarrow> phase \<Rightarrow> bool" where
  "less_phase p q = (phase_rank p < phase_rank q)"

instance
  by standard (auto simp: less_eq_phase_def less_phase_def phase_rank_inj)

end

fun pc_phase :: "conn_pc \<Rightarrow> phase" where
  "pc_phase AccShutdown = PhAccept"
| "pc_phase AccGraceful = PhAccept"
| "pc_phase AccAccept = PhAccept"
| "pc_phase FirstShutdown = PhFirst"
| "pc_phase FirstGraceful = PhFirst"
| "pc_phase FirstSleep = PhFirst"
| "pc_phase FirstRx = PhFirst"
| "pc_phase FirstServe = PhFirst"
| "pc_phase MainGraceful = PhMain"
| "pc_phase MainShutdown = PhMain"
| "pc_phase MainServe = PhMain"
| "pc_phase DrainShutdown = PhDrain"
| "pc_phase DrainServe = PhDrain"
| "pc_phase (CpDrop d) = PhDrop"

definition conn_phase :: "'a conn \<Rightarrow> phase" where
  "conn_phase c = pc_phase (cn_pc c)"

named_theorems conn_simps

lemmas conn_moves [conn_simps] =
  conn_goto_def conn_return_def conn_accept_failed_def conn_accepted_def conn_call_graceful_def Let_def

lemmas conn_splits = conn_pc.splits poll.splits sum.splits option.splits if_splits prod.splits

lemma wait_simps [simp]:
  "wait_shutdown h = Ready u \<longleftrightarrow> is_notified (hi_shutdown h)"
  "wait_shutdown h = Pending \<longleftrightarrow> \<not> is_notified (hi_shutdown h)"
  "wait_graceful_shutdown h = Ready u \<longleftrightarrow> is_notified (hi_graceful h)"
  "wait_graceful_shutdown h = Pending \<longleftrightarrow> \<not> is_notified (hi_graceful h)"
  by (simp_all add: wait_shutdown_def wait_graceful_shutdown_def)

section \<open>Runs of one task\<close>

text \<open>
  A run of a task under arbitrary interference: at every step some environment and some
  value of the shared handle.
\<close>

fun conn_trace ::
  "'n notify_api \<Rightarrow> conn_config \<Rightarrow> (conn_env \<times> ('a, 'n) handle_inner) list \<Rightarrow> 'a conn \<Rightarrow> 'a conn"
where
  "conn_trace api cfg [] c = c"
| "conn_trace api cfg ((env, h) # xs) c = conn_trace api cfg xs (snd (conn_step api cfg env h c))"

lemma conn_trace_append:
  "conn_trace api cfg (xs @ ys) c = conn_trace api cfg ys (conn_trace api cfg xs c)"
  by (induction xs arbitrary: c) auto

lemma conn_trace_inv:
  assumes "P c" and "\<And>env h c. P c \<Longrightarrow> (env, h) \<in> set xs \<Longrightarrow> P (snd (conn_step api cfg env h c))"
  shows "P (conn_trace api cfg xs c)"
  using assms by (induction xs arbitrary: c) auto

lemma conn_done_stays: "conn_done c \<Longrightarrow> conn_done (snd (conn_step api cfg env h c))"
  by (simp add: conn_done_def conn_step_def conn_goto_def)

section \<open>What a step does\<close>

lemma conn_step_handle:
  "pc_phase (cn_pc c) \<noteq> PhDrop \<Longrightarrow> fst (conn_step api cfg env h c) = h"
  by (cases "cn_pc c") (simp_all add: conn_step_def split: poll.split sum.split)

lemma conn_step_phase: "conn_phase c \<le> conn_phase (snd (conn_step api cfg env h c))"
  by (cases "cn_pc c")
    (simp_all add: conn_step_def conn_phase_def conn_simps less_eq_phase_def
      split: poll.split sum.split option.split prod.split)

lemma conn_step_remote [simp]: "cn_remote (snd (conn_step api cfg env h c)) = cn_remote c"
  by (cases "cn_pc c")
    (simp_all add: conn_step_def conn_simps split: poll.split sum.split option.split prod.split)

text \<open>The well-formedness of a task, by phase.\<close>

definition conn_wf :: "conn_config \<Rightarrow> 'a conn \<Rightarrow> bool" where
  "conn_wf cfg c \<longleftrightarrow>
     (cn_stream_open c \<longleftrightarrow> conn_phase c \<noteq> PhDrop) \<and>
     (cn_serve c = None \<or>
      cn_serve c = Some (if cc_http_version cfg = None then ServeUpgrades else ServePlain)) \<and>
     (conn_phase c = PhAccept \<longrightarrow> cn_serve c = None) \<and>
     (conn_phase c \<in> {PhFirst, PhMain, PhDrain} \<longrightarrow> cn_serve c \<noteq> None) \<and>
     (conn_phase c = PhFirst \<longrightarrow> cc_first_request_timeout cfg \<noteq> None) \<and>
     cn_graceful_calls c \<le> 1 \<and>
     (conn_phase c < PhDrain \<longrightarrow> cn_graceful_calls c = 0) \<and>
     (conn_phase c = PhDrain \<longrightarrow> cn_graceful_calls c = 1) \<and>
     (conn_phase c \<noteq> PhDrop \<or> cn_serve c \<noteq> None \<or> \<not> cc_error_handler cfg \<longrightarrow> cn_log c = []) \<and>
     length (cn_log c) \<le> 1 \<and>
     (\<forall>x \<in> set (cn_log c). fst x = Some (cn_remote c))"

lemma conn_wf_spawn: "conn_wf cfg (conn_spawn a)"
  by (simp add: conn_wf_def conn_spawn_def conn_phase_def)

lemma phase_less_simps [simp]:
  "PhAccept < PhDrain" "PhFirst < PhDrain" "PhMain < PhDrain"
  "\<not> PhDrain < PhDrain" "\<not> PhDrop < PhDrain"
  by (simp_all add: less_phase_def)

lemma conn_wf_return: "conn_wf cfg c \<Longrightarrow> pc_phase (cn_pc c) \<noteq> PhDrop \<Longrightarrow> conn_wf cfg (conn_return c)"
  by (auto simp: conn_wf_def conn_return_def conn_phase_def)

lemma conn_wf_abort: "conn_wf cfg c \<Longrightarrow> conn_wf cfg (conn_abort c)"
  by (cases "cn_pc c") (simp_all add: conn_abort_def conn_wf_return)

lemma conn_wf_goto:
  "conn_wf cfg c \<Longrightarrow> pc_phase pc = pc_phase (cn_pc c) \<Longrightarrow> conn_wf cfg (conn_goto pc c)"
  by (simp add: conn_wf_def conn_goto_def conn_phase_def)

lemma conn_wf_first_to_main:
  "conn_wf cfg c \<Longrightarrow> pc_phase (cn_pc c) = PhFirst \<Longrightarrow> conn_wf cfg (conn_goto MainGraceful c)"
  by (simp add: conn_wf_def conn_goto_def conn_phase_def)

lemma conn_wf_call_graceful:
  "conn_wf cfg c \<Longrightarrow> pc_phase (cn_pc c) = PhMain \<Longrightarrow> conn_wf cfg (conn_call_graceful c)"
  by (simp add: conn_wf_def conn_call_graceful_def conn_phase_def)

lemma conn_wf_accepted:
  "conn_wf cfg c \<Longrightarrow> pc_phase (cn_pc c) = PhAccept \<Longrightarrow> conn_wf cfg (conn_accepted cfg c)"
  by (auto simp: conn_wf_def conn_accepted_def conn_phase_def split: option.split)

lemma conn_wf_accept_failed:
  "conn_wf cfg c \<Longrightarrow> pc_phase (cn_pc c) = PhAccept \<Longrightarrow> conn_wf cfg (conn_accept_failed cfg e c)"
  by (auto simp: conn_wf_def conn_accept_failed_def conn_return_def conn_phase_def call_handler_def)

lemmas conn_wf_moves =
  conn_wf_return conn_wf_goto conn_wf_first_to_main conn_wf_call_graceful conn_wf_accepted
  conn_wf_accept_failed

lemma conn_wf_step: "conn_wf cfg c \<Longrightarrow> conn_wf cfg (snd (conn_step api cfg env h c))"
  by (cases "cn_pc c")
    (auto simp: conn_step_def intro: conn_wf_moves split: poll.split sum.split prod.split)

section \<open>Distances to the end of the task\<close>

text \<open>How many steps a task still takes when shutdown is notified, at most.\<close>

fun drop_distance :: "drop_pc \<Rightarrow> nat" where
  "drop_distance DpSub = 3"
| "drop_distance (DpCheck n) = 2"
| "drop_distance DpNotify = 1"
| "drop_distance DpDone = 0"
| "drop_distance DpOverflow = 0"

fun shutdown_distance :: "conn_pc \<Rightarrow> nat" where
  "shutdown_distance (CpDrop d) = drop_distance d"
| "shutdown_distance AccShutdown = 4"
| "shutdown_distance FirstShutdown = 4"
| "shutdown_distance MainShutdown = 4"
| "shutdown_distance DrainShutdown = 4"
| "shutdown_distance DrainServe = 5"
| "shutdown_distance MainGraceful = 5"
| "shutdown_distance MainServe = 6"
| "shutdown_distance FirstServe = 5"
| "shutdown_distance FirstRx = 6"
| "shutdown_distance FirstSleep = 7"
| "shutdown_distance FirstGraceful = 8"
| "shutdown_distance AccAccept = 6"
| "shutdown_distance AccGraceful = 7"

text \<open>The same when the graceful latch is notified and Hyper completes when polled.\<close>

fun graceful_distance :: "conn_pc \<Rightarrow> nat" where
  "graceful_distance (CpDrop d) = drop_distance d"
| "graceful_distance DrainServe = 4"
| "graceful_distance DrainShutdown = 5"
| "graceful_distance MainGraceful = 6"
| "graceful_distance MainServe = 4"
| "graceful_distance MainShutdown = 5"
| "graceful_distance FirstGraceful = 7"
| "graceful_distance FirstShutdown = 8"
| "graceful_distance FirstServe = 4"
| "graceful_distance FirstRx = 7"
| "graceful_distance FirstSleep = 8"
| "graceful_distance AccGraceful = 4"
| "graceful_distance AccShutdown = 5"
| "graceful_distance AccAccept = 9"

lemma drop_distance_0: "drop_distance d = 0 \<longleftrightarrow> d = DpDone \<or> d = DpOverflow"
  by (cases d) auto

lemma drop_distance_step:
  "hi_conn_count h \<noteq> 0 \<or> d \<noteq> DpSub \<Longrightarrow> d \<noteq> DpOverflow \<Longrightarrow>
   drop_distance (fst (watcher_drop_step api d h)) \<le> drop_distance d - 1 \<and>
   fst (watcher_drop_step api d h) \<noteq> DpOverflow"
  by (cases d) (simp_all add: case_prod_beta count_fetch_sub_def)

lemma distance_step:
  assumes "hi_conn_count h \<noteq> 0 \<or> cn_pc c \<noteq> CpDrop DpSub" and "cn_pc c \<noteq> CpDrop DpOverflow"
  shows "cn_pc (snd (conn_step api cfg env h c)) \<noteq> CpDrop DpOverflow"
    and "is_notified (hi_shutdown h) \<Longrightarrow>
      shutdown_distance (cn_pc (snd (conn_step api cfg env h c))) \<le> shutdown_distance (cn_pc c) - 1"
    and "is_notified (hi_graceful h) \<Longrightarrow> ce_serve env \<Longrightarrow>
      graceful_distance (cn_pc (snd (conn_step api cfg env h c))) \<le> graceful_distance (cn_pc c) - 1"
proof -
  note drop = drop_distance_step [of h _ api]
  show "cn_pc (snd (conn_step api cfg env h c)) \<noteq> CpDrop DpOverflow"
    by (cases "cn_pc c")
      (use assms drop in \<open>auto simp: conn_step_def conn_simps case_prod_beta split: poll.split sum.split option.split\<close>)
  show "shutdown_distance (cn_pc (snd (conn_step api cfg env h c))) \<le> shutdown_distance (cn_pc c) - 1"
    if "is_notified (hi_shutdown h)"
    by (cases "cn_pc c")
      (use that assms drop in \<open>auto simp: conn_step_def conn_simps case_prod_beta split: poll.split sum.split option.split\<close>)
  show "graceful_distance (cn_pc (snd (conn_step api cfg env h c))) \<le> graceful_distance (cn_pc c) - 1"
    if "is_notified (hi_graceful h)" "ce_serve env"
    by (cases "cn_pc c")
      (use that assms drop in \<open>auto simp: conn_step_def conn_simps case_prod_beta split: poll.split sum.split option.split\<close>)
qed

lemma drop_distance_le: "drop_distance d \<le> 3"
  by (cases d) simp_all

lemma distance_le:
  "shutdown_distance pc \<le> 8" "graceful_distance pc \<le> 9"
  by (cases pc; simp add: drop_distance_le [THEN le_trans])+

lemma distance_0:
  "shutdown_distance pc = 0 \<longleftrightarrow> pc = CpDrop DpDone \<or> pc = CpDrop DpOverflow"
  "graceful_distance pc = 0 \<longleftrightarrow> pc = CpDrop DpDone \<or> pc = CpDrop DpOverflow"
  by (cases pc; simp add: drop_distance_0)+

section \<open>Concrete environments\<close>

definition env_pending :: conn_env where
  "env_pending = \<lparr>ce_accept = Pending, ce_sleep = False, ce_rx = Pending, ce_serve = False\<rparr>"

definition env_accepts :: conn_env where
  "env_accepts = env_pending\<lparr>ce_accept := Ready (Inr ())\<rparr>"

definition toy_handle :: "bool \<Rightarrow> bool \<Rightarrow> usize \<Rightarrow> (nat, toy_notify) handle_inner" where
  "toy_handle shutdown graceful n =
     (let h = (handle_new toy_api)\<lparr>hi_conn_count := n\<rparr>;
          h = (if shutdown then handle_shutdown toy_api h else h)
      in if graceful then graceful_shutdown toy_api None h else h)"

definition toy_config :: conn_config where
  "toy_config = \<lparr>cc_http_version = None, cc_first_request_timeout = Some (from_secs 5),
     cc_error_handler = True\<rparr>"

lemma toy_handle_simps [simp]:
  "is_notified (hi_shutdown (toy_handle s g n)) = s"
  "is_notified (hi_graceful (toy_handle s g n)) = g"
  "hi_conn_count (toy_handle s g n) = n"
  by (simp_all add: toy_handle_def graceful_shutdown_def handle_simps handle_defs handle_new_def Let_def)

section \<open>Properties\<close>

text \<open>
  C28. A task is well formed at every point of every run, whatever the environment and the
  other threads do, and its phases only advance. In particular: the stream is open exactly
  until the task starts to drop, so it is closed before the watcher's count goes down; the
  connection is served without upgrades exactly when an HTTP version was chosen;
  \<open>graceful_shutdown\<close> is called on Hyper's connection once when draining and never
  otherwise; at most one error is reported, with the remote address, and only by a task that
  never served.
\<close>

theorem conn_task_wellformed:
  "conn_wf cfg (conn_trace api cfg xs (conn_spawn a)) \<and>
   conn_phase (conn_trace api cfg xs (conn_spawn a)) \<le>
     conn_phase (conn_trace api cfg (xs @ ys) (conn_spawn a))"
proof -
  have "conn_wf cfg (conn_trace api cfg xs (conn_spawn a))"
    by (rule conn_trace_inv) (auto intro: conn_wf_spawn conn_wf_step)
  moreover have "conn_phase c \<le> conn_phase (conn_trace api cfg ys c)" for c
    by (rule conn_trace_inv) (auto intro: order_trans conn_step_phase)
  ultimately show ?thesis by (simp add: conn_trace_append)
qed

text \<open>
  C21. A graceful shutdown cuts nothing: as long as shutdown is not notified and Hyper's
  connection is not complete, a task that is serving or draining keeps serving or draining
  with its stream open, whatever the graceful latch, the timers and the acceptor do.
\<close>

theorem graceful_never_cuts:
  assumes "conn_wf cfg c" and "conn_phase c \<in> {PhMain, PhDrain}"
    and "\<forall>(env, h) \<in> set xs. \<not> is_notified (hi_shutdown h) \<and> \<not> ce_serve env"
  shows "conn_phase (conn_trace api cfg xs c) \<in> {PhMain, PhDrain} \<and>
    cn_stream_open (conn_trace api cfg xs c)"
proof -
  have "conn_wf cfg (conn_trace api cfg xs c) \<and> conn_phase (conn_trace api cfg xs c) \<in> {PhMain, PhDrain}"
  proof (rule conn_trace_inv, goal_cases)
    case 1
    then show ?case using assms(1,2) by simp
  next
    case (2 env h c)
    with assms(3) have "\<not> is_notified (hi_shutdown h)" and "\<not> ce_serve env" by auto
    with 2 have "pc_phase (cn_pc (snd (conn_step api cfg env h c))) \<in> {PhMain, PhDrain}"
      by (cases "cn_pc c") (simp_all add: conn_phase_def conn_step_def conn_simps split: poll.split)
    with 2 show ?case by (simp add: conn_wf_step conn_phase_def)
  qed
  then show ?thesis by (auto simp: conn_wf_def)
qed

definition toy_serving :: "nat conn" where
  "toy_serving = conn_goto MainGraceful (conn_accepted toy_config (conn_spawn 3))"

theorem graceful_never_cuts_witness:
  "conn_phase (conn_trace toy_api toy_config (replicate 4 (env_pending, toy_handle False True 1)) toy_serving)
     \<in> {PhMain, PhDrain} \<and>
   cn_stream_open (conn_trace toy_api toy_config (replicate 4 (env_pending, toy_handle False True 1)) toy_serving)"
proof (rule graceful_never_cuts)
  show "conn_wf toy_config toy_serving"
    by (simp add: toy_serving_def toy_config_def conn_wf_def conn_phase_def conn_simps conn_spawn_def)
qed (auto simp: toy_serving_def conn_phase_def conn_goto_def env_pending_def)

text \<open>
  A failed acceptor is reported exactly once: if the acceptor gives an error, then after
  any further run the handler has been called once, with the remote address and that error
  (not at all when no handler is set), the stream is closed and the connection was never
  served.
\<close>

theorem acceptor_error_reported_once:
  assumes "cn_pc c = AccAccept" and "ce_accept env = Ready (Inl e)" and "conn_wf cfg c"
  shows "let c' = conn_trace api cfg ((env, h) # xs) c in
    cn_log c' = (if cc_error_handler cfg then [(Some (cn_remote c), e)] else []) \<and>
    \<not> cn_stream_open c' \<and> cn_serve c' = None \<and> conn_phase c' = PhDrop"
proof -
  have none: "cn_log c = []" "cn_serve c = None"
    using assms(1,3) by (auto simp: conn_wf_def conn_phase_def)
  let ?log = "if cc_error_handler cfg then [(Some (cn_remote c), e)] else []"
  have "cn_log c' = ?log \<and> \<not> cn_stream_open c' \<and> cn_serve c' = None \<and> (\<exists>d. cn_pc c' = CpDrop d)"
    if "c' = conn_trace api cfg xs (snd (conn_step api cfg env h c))" for c'
    unfolding that
    by (rule conn_trace_inv)
      (use assms none in \<open>auto simp: conn_step_def conn_simps call_handler_def case_prod_beta\<close>)
  then show ?thesis by (auto simp: Let_def conn_phase_def)
qed

theorem acceptor_error_reported_once_witness:
  "cn_log (conn_trace toy_api toy_config
      [(env_pending\<lparr>ce_accept := Ready (Inl (IoError Other ''acceptor failed''))\<rparr>, toy_handle False False 1)]
      (conn_goto AccAccept (conn_spawn 3))) =
     [(Some 3, IoError Other ''acceptor failed'')]"
proof -
  have "conn_wf toy_config (conn_goto AccAccept (conn_spawn 3 :: nat conn))"
    by (rule conn_wf_goto [OF conn_wf_spawn]) (simp add: conn_spawn_def)
  from acceptor_error_reported_once
    [OF _ _ this, of "env_pending\<lparr>ce_accept := Ready (Inl (IoError Other ''acceptor failed''))\<rparr>"
      "IoError Other ''acceptor failed''" toy_api "toy_handle False False 1" "[]"]
  show ?thesis by (simp add: Let_def conn_goto_def conn_spawn_def toy_config_def)
qed

end
