(* ===== verification/ServeTask.thy ===== *)
theory ServeTask
  imports Connection
begin

text \<open>
  \<open>Server::serve\<close> (\<open>src/src/server.rs\<close>) as a machine, and the whole running system: the
  serving task, every connection task it has spawned, and the user's calls on the shared
  handle, interleaved at each access to the shared state.

  The future of the accept loop is polled under the outer \<open>select!\<close>, which reads the
  shutdown latch first: \<open>SvOuter l\<close> is about to read it, \<open>SvLoop l\<close> polls the loop at
  \<open>l\<close>; whenever what the loop waits for is pending, the next poll starts at the outer
  \<open>select!\<close> again. The listener, the timer and the make service are the environment of a
  step (\<open>serve_env\<close>).
\<close>

section \<open>The serving task\<close>

datatype 'a loop_pc =
    LpAccept accept_fut
  | LpGraceful accept_fut
  | LpPollReady 'a
  | LpMake 'a
  | LpSpawn 'a

datatype after_bind = BindFailed io_error | Listening

datatype 'a serve_pc =
    SvBind
  | SvSetAddr "'a option" after_bind
  | SvNotifyAddr after_bind
  | SvOuter "'a loop_pc"
  | SvLoop "'a loop_pc"
  | SvLoopDone "unit io_result"
  | SvWaitEnd wait_end_pc
  | SvReturned "unit io_result"

record 'a serve_env =
  se_bind :: "unit io_result poll"
  se_local_addr :: "'a io_result"
  se_accept :: "(unit \<times> 'a) io_result poll"
  se_backoff :: bool
  se_ready :: "(string + unit) poll"
  se_make :: "(string + unit) poll"
  se_sleep :: bool

record ('a, 'n) serve_out =
  so_handle :: "('a, 'n) handle_inner"
  so_pc :: "'a serve_pc"
  so_log :: "'a handler_log"
  so_spawn :: "'a conn list"

definition serve_goto :: "('a, 'n) handle_inner \<Rightarrow> 'a serve_pc \<Rightarrow> ('a, 'n) serve_out" where
  "serve_goto h pc = \<lparr>so_handle = h, so_pc = pc, so_log = [], so_spawn = []\<rparr>"

text \<open>One poll inside the accept loop.\<close>

fun loop_step ::
  "conn_config \<Rightarrow> 'a serve_env \<Rightarrow> ('a, 'n) handle_inner \<Rightarrow> 'a loop_pc \<Rightarrow> ('a, 'n) serve_out"
where
  "loop_step cfg env h (LpAccept w) =
     (case accept_step (cc_error_handler cfg) (se_accept env) (se_backoff env) w of
        AoPending w' \<Rightarrow> serve_goto h (SvLoop (LpGraceful w'))
      | AoContinue w' log \<Rightarrow> (serve_goto h (SvLoop (LpAccept w')))\<lparr>so_log := log\<rparr>
      | AoReturn (tcp_stream, socket_addr) \<Rightarrow> serve_goto h (SvLoop (LpPollReady socket_addr)))"
| "loop_step cfg env h (LpGraceful w) =
     (case wait_graceful_shutdown h of
        Ready _ \<Rightarrow> serve_goto h (SvLoopDone (Inr ()))
      | Pending \<Rightarrow> serve_goto h (SvOuter (LpAccept w)))"
| "loop_step cfg env h (LpPollReady socket_addr) =
     (case se_ready env of
        Pending \<Rightarrow> serve_goto h (SvOuter (LpPollReady socket_addr))
      | Ready (Inl e) \<Rightarrow> serve_goto h (SvLoopDone (Inl (io_other e)))
      | Ready (Inr _) \<Rightarrow> serve_goto h (SvLoop (LpMake socket_addr)))"
| "loop_step cfg env h (LpMake socket_addr) =
     (case se_make env of
        Pending \<Rightarrow> serve_goto h (SvOuter (LpMake socket_addr))
      | Ready (Inr _) \<Rightarrow> serve_goto h (SvLoop (LpSpawn socket_addr))
      | Ready (Inl e) \<Rightarrow> (serve_goto h (SvLoop (LpAccept AfStream)))
          \<lparr>so_log := call_handler (cc_error_handler cfg) (Some socket_addr) (io_other e) []\<rparr>)"
| "loop_step cfg env h (LpSpawn socket_addr) =
     (serve_goto (watcher_new h) (SvLoop (LpAccept AfStream)))\<lparr>so_spawn := [conn_spawn socket_addr]\<rparr>"

fun serve_step ::
  "'n notify_api \<Rightarrow> conn_config \<Rightarrow> 'a serve_env \<Rightarrow> ('a, 'n) handle_inner \<Rightarrow> 'a serve_pc \<Rightarrow>
   ('a, 'n) serve_out"
where
  "serve_step api cfg env h SvBind =
     (case se_bind env of
        Pending \<Rightarrow> serve_goto h SvBind
      | Ready (Inr _) \<Rightarrow> serve_goto h (SvSetAddr (res_ok (se_local_addr env)) Listening)
      | Ready (Inl e) \<Rightarrow> serve_goto h (SvSetAddr None (BindFailed e)))"
| "serve_step api cfg env h (SvSetAddr addr k) = serve_goto (set_addr addr h) (SvNotifyAddr k)"
| "serve_step api cfg env h (SvNotifyAddr k) =
     serve_goto (notify_addr api h)
       (case k of
          BindFailed e \<Rightarrow> SvReturned (Inl e)
        | Listening \<Rightarrow> SvOuter (LpAccept AfStream))"
| "serve_step api cfg env h (SvOuter l) =
     (case wait_shutdown h of
        Ready _ \<Rightarrow> serve_goto h (SvReturned (Inr ()))
      | Pending \<Rightarrow> serve_goto h (SvLoop l))"
| "serve_step api cfg env h (SvLoop l) = loop_step cfg env h l"
| "serve_step api cfg env h (SvLoopDone result) =
     serve_goto h (case result of Inl e \<Rightarrow> SvReturned (Inl e) | Inr _ \<Rightarrow> SvWaitEnd WeCount)"
| "serve_step api cfg env h (SvWaitEnd w) =
     (let (w', h') = wait_connections_end_step api (se_sleep env) w h
      in serve_goto h' (if w' = WeDone then SvReturned (Inr ()) else SvWaitEnd w'))"
| "serve_step api cfg env h (SvReturned result) = serve_goto h (SvReturned result)"

text \<open>The listener exists from a successful bind to the end of the loop or of \<open>serve\<close>.\<close>

fun listener_open :: "'a serve_pc \<Rightarrow> bool" where
  "listener_open (SvSetAddr a k) = (k = Listening)"
| "listener_open (SvNotifyAddr k) = (k = Listening)"
| "listener_open (SvOuter l) = True"
| "listener_open (SvLoop l) = True"
| "listener_open (SvLoopDone r) = True"
| "listener_open _ = False"

section \<open>The system\<close>

record ('a, 'n) sys =
  sy_handle :: "('a, 'n) handle_inner"
  sy_serve :: "'a serve_pc"
  sy_conns :: "'a conn list"
  sy_graceful_calls :: nat
  sy_log :: "'a handler_log"

text \<open>
  Who moves: the serving task; a connection task; the runtime, which aborts one; a user who
  calls \<open>shutdown\<close>; a user in \<open>graceful_shutdown\<close>, first writing the duration, then
  notifying (\<open>sy_graceful_calls\<close> counts the calls that are between the two).
\<close>

datatype 'a action =
    ActServe "'a serve_env"
  | ActConn nat conn_env
  | ActAbort nat
  | ActShutdown
  | ActGracefulDur "duration option"
  | ActGracefulNotify

fun sys_step ::
  "'n notify_api \<Rightarrow> conn_config \<Rightarrow> 'a action \<Rightarrow> ('a, 'n) sys \<Rightarrow> ('a, 'n) sys option"
where
  "sys_step api cfg (ActServe env) s =
     (let out = serve_step api cfg env (sy_handle s) (sy_serve s)
      in Some (s\<lparr>sy_handle := so_handle out, sy_serve := so_pc out,
                 sy_conns := sy_conns s @ so_spawn out, sy_log := sy_log s @ so_log out\<rparr>))"
| "sys_step api cfg (ActConn i env) s =
     (if i < length (sy_conns s)
      then let (h, c) = conn_step api cfg env (sy_handle s) (sy_conns s ! i)
           in Some (s\<lparr>sy_handle := h, sy_conns := (sy_conns s)[i := c]\<rparr>)
      else None)"
| "sys_step api cfg (ActAbort i) s =
     (if i < length (sy_conns s)
      then Some (s\<lparr>sy_conns := (sy_conns s)[i := conn_abort (sy_conns s ! i)]\<rparr>)
      else None)"
| "sys_step api cfg ActShutdown s = Some (s\<lparr>sy_handle := handle_shutdown api (sy_handle s)\<rparr>)"
| "sys_step api cfg (ActGracefulDur d) s =
     Some (s\<lparr>sy_handle := set_graceful_dur d (sy_handle s),
             sy_graceful_calls := Suc (sy_graceful_calls s)\<rparr>)"
| "sys_step api cfg ActGracefulNotify s =
     (case sy_graceful_calls s of
        0 \<Rightarrow> None
      | Suc n \<Rightarrow> Some (s\<lparr>sy_handle := notify_graceful api (sy_handle s), sy_graceful_calls := n\<rparr>))"

definition sys_start :: "'n notify_api \<Rightarrow> ('a, 'n) sys" where
  "sys_start api = \<lparr>sy_handle = handle_new api, sy_serve = SvBind, sy_conns = [],
     sy_graceful_calls = 0, sy_log = []\<rparr>"

inductive sys_moves ::
  "'n notify_api \<Rightarrow> conn_config \<Rightarrow> ('a, 'n) sys \<Rightarrow> ('a, 'n) sys \<Rightarrow> bool" for api cfg
where
  moves: "sys_step api cfg a s = Some t \<Longrightarrow> sys_moves api cfg s t"

inductive_simps sys_moves_iff: "sys_moves api cfg s t"

abbreviation sys_reachable :: "'n notify_api \<Rightarrow> conn_config \<Rightarrow> ('a, 'n) sys \<Rightarrow> bool" where
  "sys_reachable api cfg \<equiv> reach (\<lambda>s. s = sys_start api) (sys_moves api cfg)"

fun sys_run ::
  "'n notify_api \<Rightarrow> conn_config \<Rightarrow> 'a action list \<Rightarrow> ('a, 'n) sys \<Rightarrow> ('a, 'n) sys option"
where
  "sys_run api cfg [] s = Some s"
| "sys_run api cfg (a # acts) s =
     (case sys_step api cfg a s of None \<Rightarrow> None | Some t \<Rightarrow> sys_run api cfg acts t)"

lemma sys_run_reachable:
  "sys_reachable api cfg s \<Longrightarrow> sys_run api cfg acts s = Some t \<Longrightarrow> sys_reachable api cfg t"
proof (induction acts arbitrary: s)
  case (Cons a acts)
  from Cons.prems(2) obtain u where "sys_step api cfg a s = Some u" and "sys_run api cfg acts u = Some t"
    by (auto split: option.splits)
  then show ?case using Cons.IH [OF reach_step [OF Cons.prems(1) moves]] by blast
qed simp

lemma sys_start_reachable: "sys_run api cfg acts (sys_start api) = Some t \<Longrightarrow> sys_reachable api cfg t"
  by (rule sys_run_reachable [OF reach_start]) simp_all

section \<open>What a step changes\<close>

lemma serve_goto_simps [simp]:
  "so_handle (serve_goto h pc) = h" "so_pc (serve_goto h pc) = pc"
  "so_log (serve_goto h pc) = []" "so_spawn (serve_goto h pc) = []"
  by (simp_all add: serve_goto_def)

lemmas serve_splits = poll.split sum.split accept_out.split prod.split option.split

lemma loop_step_spawn:
  "so_spawn (loop_step cfg env h l) = [] \<and> so_handle (loop_step cfg env h l) = h \<or>
   (\<exists>a. l = LpSpawn a \<and> so_spawn (loop_step cfg env h l) = [conn_spawn a] \<and>
      so_handle (loop_step cfg env h l) = watcher_new h)"
  by (cases l) (auto split: serve_splits)

lemma serve_step_spawn:
  "so_spawn (serve_step api cfg env h pc) = [] \<and>
     hi_conn_count (so_handle (serve_step api cfg env h pc)) = hi_conn_count h \<or>
   (\<exists>a. pc = SvLoop (LpSpawn a) \<and> so_spawn (serve_step api cfg env h pc) = [conn_spawn a] \<and>
      so_handle (serve_step api cfg env h pc) = watcher_new h)"
proof (cases pc)
  case (SvLoop l)
  with loop_step_spawn [of cfg env h l] show ?thesis by auto
next
  case (SvWaitEnd w)
  then show ?thesis by (cases w) (auto simp: handle_simps split: option.split)
qed (auto simp: handle_simps split: serve_splits)

text \<open>\<open>serve\<close> never signals a graceful shutdown, and a task gives no signal but the end.\<close>

lemma serve_step_signals:
  "hi_graceful (so_handle (serve_step api cfg env h pc)) = hi_graceful h \<and>
   hi_graceful_dur (so_handle (serve_step api cfg env h pc)) = hi_graceful_dur h"
proof (cases pc)
  case (SvLoop l)
  with loop_step_spawn [of cfg env h l] show ?thesis by (auto simp: handle_simps)
next
  case (SvWaitEnd w)
  then show ?thesis by (cases w) (auto simp: handle_simps split: option.split)
qed (auto simp: handle_simps split: serve_splits)

lemma conn_step_signals:
  "hi_graceful (fst (conn_step api cfg env h c)) = hi_graceful h \<and>
   hi_graceful_dur (fst (conn_step api cfg env h c)) = hi_graceful_dur h \<and>
   hi_shutdown (fst (conn_step api cfg env h c)) = hi_shutdown h \<and>
   hi_addr (fst (conn_step api cfg env h c)) = hi_addr h \<and>
   hi_addr_notify (fst (conn_step api cfg env h c)) = hi_addr_notify h"
proof (cases "cn_pc c")
  case (CpDrop d)
  then show ?thesis
    by (cases d) (auto simp: conn_step_def case_prod_beta Let_def handle_simps)
qed (simp_all add: conn_step_def split: poll.split sum.split)

text \<open>The latches only ever grow.\<close>

definition latches_grow :: "('a, 'n) handle_inner \<Rightarrow> ('a, 'n) handle_inner \<Rightarrow> bool" where
  "latches_grow h h' \<longleftrightarrow>
     (is_notified (hi_shutdown h) \<longrightarrow> is_notified (hi_shutdown h')) \<and>
     (is_notified (hi_graceful h) \<longrightarrow> is_notified (hi_graceful h')) \<and>
     (is_notified (hi_conn_end h) \<longrightarrow> is_notified (hi_conn_end h')) \<and>
     (is_notified (hi_addr_notify h) \<longrightarrow> is_notified (hi_addr_notify h'))"

lemma latches_grow_refl [simp]: "latches_grow h h"
  by (simp add: latches_grow_def)

lemma latches_grow_trans: "latches_grow h h' \<Longrightarrow> latches_grow h' h'' \<Longrightarrow> latches_grow h h''"
  by (simp add: latches_grow_def)

lemma latches_grow_ops [simp]:
  "latches_grow h (handle_shutdown api h)" "latches_grow h (notify_graceful api h)"
  "latches_grow h (set_graceful_dur d h)" "latches_grow h (set_addr a h)"
  "latches_grow h (notify_addr api h)" "latches_grow h (watcher_new h)"
  "latches_grow h (snd (count_fetch_sub h))" "latches_grow h (notify_conn_end api h)"
  by (simp_all add: latches_grow_def handle_simps)

lemma wait_end_grow: "latches_grow h (snd (wait_connections_end_step api e w h))"
  by (cases w) (auto split: option.split)

lemma drop_grow: "latches_grow h (snd (watcher_drop_step api d h))"
  by (cases d) (auto simp: case_prod_beta)

lemma conn_step_grow: "latches_grow h (fst (conn_step api cfg env h c))"
  by (cases "cn_pc c")
    (simp_all add: conn_step_def drop_grow case_prod_beta split: poll.split sum.split)

lemma serve_step_grow: "latches_grow h (so_handle (serve_step api cfg env h pc))"
proof (cases pc)
  case (SvLoop l)
  with loop_step_spawn [of cfg env h l] show ?thesis by auto
qed (auto simp: case_prod_beta wait_end_grow split: serve_splits)

lemma sys_step_grow: "sys_step api cfg a s = Some t \<Longrightarrow> latches_grow (sy_handle s) (sy_handle t)"
  by (cases a)
    (auto simp: Let_def case_prod_beta serve_step_grow conn_step_grow split: if_splits nat.splits)

lemma sys_step_conns_length:
  "sys_step api cfg a s = Some t \<Longrightarrow> length (sy_conns s) \<le> length (sy_conns t)"
  by (cases a) (auto simp: Let_def case_prod_beta split: if_splits nat.splits)

end
