(* ===== verification/Shutdown.thy ===== *)
theory Shutdown
  imports ServeTask
begin

text \<open>
  The invariants of the system of the theory \<open>ServeTask\<close>, and the scheme of its liveness
  arguments.

  \<^item> \<open>counted\<close>: every task is well formed and the counter counts the live watchers.
  \<^item> \<open>draining\<close>, relative to it: \<open>serve\<close> waits for the connections only after a graceful
    signal, and while it waits on the end latch, the latch is notified or some task still
    owes the notification.
  \<^item> \<open>ends_soundly\<close>, relative to both and for calm runs: the end latch is notified only when
    no connection is in service.
  \<^item> \<open>sys_run_rank\<close>: enough selected steps of a run, in any interleaving, bring a rank to 0;
    its instances end a task (\<open>run_shutdown_ends\<close>, \<open>run_graceful_ends\<close>) and \<open>serve\<close>
    (\<open>drained_returns\<close>).

  The bound \<open>bounded\<close>, fewer than \<open>2 ^ 64\<close> connections ever accepted, is what the 64 bit
  counter needs to tell 0 from a multiple of its modulus.
\<close>

section \<open>One task's effect on the counter\<close>

lemma conn_step_counts:
  "(hi_conn_count (fst (conn_step api cfg env h c)) = hi_conn_count h \<and>
      conn_live (snd (conn_step api cfg env h c)) = conn_live c) \<or>
   (cn_pc c = CpDrop DpSub \<and> fst (conn_step api cfg env h c) = snd (count_fetch_sub h) \<and>
      \<not> conn_live (snd (conn_step api cfg env h c)))"
proof (cases "cn_pc c")
  case (CpDrop d)
  then show ?thesis
    by (cases d) (auto simp: conn_step_def conn_live_def conn_goto_def handle_simps case_prod_beta Let_def)
qed (simp_all add: conn_step_def conn_live_def conn_simps split: poll.split sum.split option.split)

lemma conn_live_abort [simp]: "conn_live (conn_abort c) = conn_live c"
  by (cases "cn_pc c") (simp_all add: conn_abort_def conn_live_def conn_return_def)

lemma conn_live_spawn [simp]: "conn_live (conn_spawn a)"
  by (simp add: conn_live_def conn_spawn_def)

section \<open>The counter\<close>

definition counted :: "conn_config \<Rightarrow> ('a, 'n) sys \<Rightarrow> bool" where
  "counted cfg s \<longleftrightarrow>
     (\<forall>c \<in> set (sy_conns s). conn_wf cfg c) \<and>
     connection_count (sy_handle s) = of_nat (count_if conn_live (sy_conns s))"

lemma counted_same:
  "counted cfg s \<Longrightarrow> hi_conn_count (sy_handle t) = hi_conn_count (sy_handle s) \<Longrightarrow>
   sy_conns t = sy_conns s \<Longrightarrow> counted cfg t"
  by (simp add: counted_def connection_count_def)

lemma counted_update:
  assumes "counted cfg s" and "i < length (sy_conns s)" and "conn_wf cfg c"
    and "hi_conn_count h = hi_conn_count (sy_handle s) \<and> conn_live c = conn_live (sy_conns s ! i) \<or>
      conn_live (sy_conns s ! i) \<and> \<not> conn_live c \<and> h = snd (count_fetch_sub (sy_handle s))"
  shows "counted cfg (s\<lparr>sy_handle := h, sy_conns := (sy_conns s)[i := c]\<rparr>)"
proof -
  have wf: "\<forall>d \<in> set ((sy_conns s)[i := c]). conn_wf cfg d"
    using assms(1,3) set_update_subset_insert [of "sy_conns s" i c] by (auto simp: counted_def)
  have count: "connection_count (sy_handle s) = of_nat (count_if conn_live (sy_conns s))"
    using assms(1) by (simp add: counted_def)
  from assms(4) have "connection_count h = of_nat (count_if conn_live ((sy_conns s)[i := c]))"
  proof
    assume "hi_conn_count h = hi_conn_count (sy_handle s) \<and> conn_live c = conn_live (sy_conns s ! i)"
    with assms(2) count show ?thesis by (simp add: connection_count_def count_if_update_same)
  next
    assume "conn_live (sy_conns s ! i) \<and> \<not> conn_live c \<and> h = snd (count_fetch_sub (sy_handle s))"
    with assms(2) watchers.dec_tracks [OF count, of i c] show ?thesis by simp
  qed
  with wf show ?thesis by (simp add: counted_def)
qed

lemma counted_step:
  assumes "counted cfg s" and "sys_moves api cfg s t"
  shows "counted cfg t"
  using assms(2)
proof cases
  case (moves a)
  show ?thesis
  proof (cases a)
    case (ActServe env)
    let ?out = "serve_step api cfg env (sy_handle s) (sy_serve s)"
    from serve_step_spawn [of api cfg env "sy_handle s" "sy_serve s"] show ?thesis
    proof
      assume "so_spawn ?out = [] \<and> hi_conn_count (so_handle ?out) = hi_conn_count (sy_handle s)"
      with moves ActServe show ?thesis by (auto intro: counted_same [OF assms(1)] simp: Let_def)
    next
      assume "\<exists>a. sy_serve s = SvLoop (LpSpawn a) \<and> so_spawn ?out = [conn_spawn a] \<and>
        so_handle ?out = watcher_new (sy_handle s)"
      then obtain b where b: "so_spawn ?out = [conn_spawn b]" "so_handle ?out = watcher_new (sy_handle s)"
        by blast
      have "connection_count (sy_handle s) = of_nat (count_if conn_live (sy_conns s))"
        using assms(1) by (simp add: counted_def)
      from watchers.inc_tracks [OF this conn_live_spawn, of b] b moves ActServe assms(1)
      show ?thesis by (auto simp: counted_def Let_def conn_wf_spawn)
    qed
  next
    case (ActConn i env)
    let ?c = "sy_conns s ! i" and ?r = "conn_step api cfg env (sy_handle s) (sy_conns s ! i)"
    from moves ActConn have i: "i < length (sy_conns s)"
      and t: "t = s\<lparr>sy_handle := fst ?r, sy_conns := (sy_conns s)[i := snd ?r]\<rparr>"
      by (auto simp: case_prod_beta split: if_splits)
    have "conn_wf cfg (snd ?r)" using assms(1) i by (auto simp: counted_def intro: conn_wf_step)
    with conn_step_counts [of api cfg env "sy_handle s" ?c] show ?thesis
      unfolding t by (intro counted_update [OF assms(1) i]) (auto simp: conn_live_def)
  next
    case (ActAbort i)
    from moves ActAbort have i: "i < length (sy_conns s)"
      and t: "t = s\<lparr>sy_handle := sy_handle s, sy_conns := (sy_conns s)[i := conn_abort (sy_conns s ! i)]\<rparr>"
      by (auto split: if_splits)
    have "conn_wf cfg (conn_abort (sy_conns s ! i))"
      using assms(1) i by (auto simp: counted_def intro: conn_wf_abort)
    then show ?thesis unfolding t by (intro counted_update [OF assms(1) i]) auto
  qed (use moves in \<open>auto intro!: counted_same [OF assms(1)] simp: handle_simps split: nat.splits\<close>)
qed

lemma counted_start: "s = sys_start api \<Longrightarrow> counted cfg s"
  by (simp add: counted_def sys_start_def connection_count_def handle_simps)

definition bounded :: "('a, 'n) sys \<Rightarrow> bool" where
  "bounded s \<longleftrightarrow> length (sy_conns s) < 2 ^ 64"

lemma bounded_before: "sys_moves api cfg s t \<Longrightarrow> bounded t \<Longrightarrow> bounded s"
  by (auto simp: bounded_def sys_moves_iff dest: sys_step_conns_length)

lemma counted_zero_iff:
  "counted cfg s \<Longrightarrow> bounded s \<Longrightarrow>
   hi_conn_count (sy_handle s) = 0 \<longleftrightarrow> (\<forall>c \<in> set (sy_conns s). \<not> conn_live c)"
  using watchers.zero_iff_none [of "sy_handle s" conn_live "sy_conns s"]
  by (simp add: counted_def bounded_def connection_count_def)

section \<open>The effect of one step of a task\<close>

text \<open>
  What a step of a task, or aborting it, does to the shared handle and to what the rest of
  the system depends on.
\<close>

inductive conn_effect ::
  "'n notify_api \<Rightarrow> ('a, 'n) handle_inner \<Rightarrow> 'a conn \<Rightarrow> ('a, 'n) handle_inner \<Rightarrow> 'a conn \<Rightarrow> bool"
  for api h c
where
  effect_run: "pc_phase (cn_pc c) \<noteq> PhDrop \<Longrightarrow> conn_live c' \<Longrightarrow>
    conn_in_service c' \<longrightarrow> conn_in_service c \<or> \<not> is_notified (hi_graceful h) \<Longrightarrow>
    conn_effect api h c h c'"
| effect_sub: "cn_pc c = CpDrop DpSub \<Longrightarrow> hi_conn_count h \<noteq> 0 \<Longrightarrow>
    cn_pc c' = CpDrop (DpCheck (hi_conn_count h - 1)) \<Longrightarrow>
    conn_effect api h c (snd (count_fetch_sub h)) c'"
| effect_underflow: "cn_pc c = CpDrop DpSub \<Longrightarrow> hi_conn_count h = 0 \<Longrightarrow>
    cn_pc c' = CpDrop DpOverflow \<Longrightarrow> conn_effect api h c (snd (count_fetch_sub h)) c'"
| effect_last: "cn_pc c = CpDrop (DpCheck 0) \<Longrightarrow> is_notified (hi_graceful h) \<Longrightarrow>
    cn_pc c' = CpDrop DpNotify \<Longrightarrow> conn_effect api h c h c'"
| effect_not_last: "cn_pc c = CpDrop (DpCheck n) \<Longrightarrow> n \<noteq> 0 \<or> \<not> is_notified (hi_graceful h) \<Longrightarrow>
    cn_pc c' = CpDrop DpDone \<Longrightarrow> conn_effect api h c h c'"
| effect_end: "cn_pc c = CpDrop DpNotify \<Longrightarrow> cn_pc c' = CpDrop DpDone \<Longrightarrow>
    conn_effect api h c (notify_conn_end api h) c'"
| effect_idle: "cn_pc c' = cn_pc c \<Longrightarrow> conn_effect api h c h c'"

lemma conn_step_effect:
  "conn_effect api h c (fst (conn_step api cfg env h c)) (snd (conn_step api cfg env h c))"
proof (cases "cn_pc c")
  case (CpDrop d)
  show ?thesis
  proof (cases d)
    case DpSub
    with CpDrop show ?thesis
      by (cases "hi_conn_count h = 0")
        (auto simp: conn_step_def conn_goto_def case_prod_beta Let_def handle_simps
          intro: effect_sub effect_underflow)
  next
    case (DpCheck n)
    with CpDrop show ?thesis
      by (auto simp: conn_step_def conn_goto_def intro: effect_last effect_not_last)
  next
    case DpNotify
    with CpDrop show ?thesis by (auto simp: conn_step_def conn_goto_def intro: effect_end)
  next
    case DpDone
    with CpDrop show ?thesis by (auto simp: conn_step_def conn_goto_def intro: effect_idle)
  next
    case DpOverflow
    with CpDrop show ?thesis by (auto simp: conn_step_def conn_goto_def intro: effect_idle)
  qed
qed (auto simp: conn_step_def conn_live_def conn_in_service_def conn_simps
      split: poll.split sum.split option.split intro!: effect_run)

lemma conn_abort_effect: "conn_effect api h c h (conn_abort c)"
proof (cases "cn_pc c")
  case (CpDrop d)
  then show ?thesis by (simp add: conn_abort_def effect_idle)
qed (auto simp: conn_abort_def conn_return_def conn_live_def conn_in_service_def intro!: effect_run)

text \<open>The moves of the system, by who makes them.\<close>

inductive sys_effect :: "'n notify_api \<Rightarrow> conn_config \<Rightarrow> bool \<Rightarrow> ('a, 'n) sys \<Rightarrow> ('a, 'n) sys \<Rightarrow> bool"
  for api cfg and graceful_notify :: bool and s :: "('a, 'n) sys"
where
  by_serve: "\<not> graceful_notify \<Longrightarrow> out = serve_step api cfg env (sy_handle s) (sy_serve s) \<Longrightarrow>
    sy_handle t = so_handle out \<Longrightarrow> sy_serve t = so_pc out \<Longrightarrow>
    sy_conns t = sy_conns s @ so_spawn out \<Longrightarrow> sys_effect api cfg graceful_notify s t"
| by_conn: "\<not> graceful_notify \<Longrightarrow> i < length (sy_conns s) \<Longrightarrow> conn_effect api (sy_handle s) (sy_conns s ! i) (sy_handle t) c \<Longrightarrow>
    sy_conns t = (sy_conns s)[i := c] \<Longrightarrow> sy_serve t = sy_serve s \<Longrightarrow> sys_effect api cfg graceful_notify s t"
| by_shutdown: "\<not> graceful_notify \<Longrightarrow> sy_handle t = handle_shutdown api (sy_handle s) \<Longrightarrow> sy_conns t = sy_conns s \<Longrightarrow>
    sy_serve t = sy_serve s \<Longrightarrow> sys_effect api cfg graceful_notify s t"
| by_duration: "\<not> graceful_notify \<Longrightarrow> sy_handle t = set_graceful_dur d (sy_handle s) \<Longrightarrow> sy_conns t = sy_conns s \<Longrightarrow>
    sy_serve t = sy_serve s \<Longrightarrow> sys_effect api cfg graceful_notify s t"
| by_graceful: "graceful_notify \<Longrightarrow> sy_handle t = notify_graceful api (sy_handle s) \<Longrightarrow> sy_conns t = sy_conns s \<Longrightarrow>
    sy_serve t = sy_serve s \<Longrightarrow> sys_effect api cfg graceful_notify s t"

lemma sys_step_effect: "sys_step api cfg a s = Some t \<Longrightarrow> sys_effect api cfg (a = ActGracefulNotify) s t"
proof (cases a)
  case (ActServe env)
  moreover assume "sys_step api cfg a s = Some t"
  ultimately show ?thesis by (intro by_serve [OF _ refl, of _ _ _ _ env]) (auto simp: Let_def)
next
  case (ActConn i env)
  moreover assume "sys_step api cfg a s = Some t"
  ultimately show ?thesis
    using conn_step_effect [of api "sy_handle s" "sy_conns s ! i" cfg env]
    by (intro by_conn [of _ i]) (auto simp: case_prod_beta split: if_splits)
next
  case (ActAbort i)
  moreover assume "sys_step api cfg a s = Some t"
  ultimately show ?thesis
    using conn_abort_effect [of api "sy_handle s" "sy_conns s ! i"]
    by (intro by_conn [of _ i]) (auto split: if_splits)
qed (auto split: nat.splits intro: by_shutdown by_duration by_graceful)

inductive_cases conn_effectE [elim!]: "conn_effect api h c h' c'"

inductive_cases sys_effectE: "sys_effect api cfg g s t"

section \<open>Draining\<close>

definition at_drop :: "drop_pc \<Rightarrow> 'a conn \<Rightarrow> bool" where
  "at_drop d c \<longleftrightarrow> cn_pc c = CpDrop d"

text \<open>A task that will still notify the end of the connections, or is not at its end yet.\<close>

definition owes_end :: "'a conn \<Rightarrow> bool" where
  "owes_end c \<longleftrightarrow> conn_live c \<or> at_drop (DpCheck 0) c \<or> at_drop DpNotify c"

fun awaits_end :: "'a serve_pc \<Rightarrow> bool" where
  "awaits_end (SvWaitEnd WeDur) = True"
| "awaits_end (SvWaitEnd (WeSleep d)) = True"
| "awaits_end (SvWaitEnd (WeTimedEnd d)) = True"
| "awaits_end (SvWaitEnd WeEnd) = True"
| "awaits_end _ = False"

fun past_accepting :: "'a serve_pc \<Rightarrow> bool" where
  "past_accepting (SvLoopDone r) = (\<exists>u. r = Inr u)"
| "past_accepting (SvWaitEnd w) = True"
| "past_accepting _ = False"

definition draining :: "('a, 'n) sys \<Rightarrow> bool" where
  "draining s \<longleftrightarrow>
     (past_accepting (sy_serve s) \<longrightarrow> is_notified (hi_graceful (sy_handle s))) \<and>
     sy_serve s \<noteq> SvWaitEnd WeDone \<and>
     (sy_serve s = SvReturned (Inr ()) \<longrightarrow>
       is_notified (hi_shutdown (sy_handle s)) \<or> is_notified (hi_graceful (sy_handle s))) \<and>
     (bounded s \<longrightarrow>
       (\<forall>c \<in> set (sy_conns s). \<not> at_drop DpOverflow c) \<and>
       (awaits_end (sy_serve s) \<longrightarrow>
         is_notified (hi_conn_end (sy_handle s)) \<or> (\<exists>c \<in> set (sy_conns s). owes_end c)))"

lemma draining_start: "s = sys_start api \<Longrightarrow> draining s"
  by (simp add: draining_def sys_start_def)

text \<open>What the serving task can do, as far as the drain is concerned.\<close>

lemma serve_step_drain:
  assumes "out = serve_step api cfg env h pc" and "pc \<noteq> SvWaitEnd WeDone"
  shows "(past_accepting (so_pc out) \<longrightarrow> past_accepting pc \<or> is_notified (hi_graceful h)) \<and>
    so_pc out \<noteq> SvWaitEnd WeDone \<and>
    (so_pc out = SvReturned (Inr ()) \<longrightarrow>
      pc = SvReturned (Inr ()) \<or> is_notified (hi_shutdown (so_handle out)) \<or> past_accepting pc) \<and>
    (awaits_end (so_pc out) \<longrightarrow> awaits_end pc \<or> hi_conn_count h \<noteq> 0 \<and> so_spawn out = []) \<and>
    (so_spawn out \<noteq> [] \<longrightarrow> \<not> past_accepting (so_pc out))"
proof -
  consider l where "pc = SvLoop l" | w where "pc = SvWaitEnd w" | "(\<forall>l. pc \<noteq> SvLoop l) \<and> (\<forall>w. pc \<noteq> SvWaitEnd w)"
    by blast
  then show ?thesis
  proof cases
    case (1 l)
    with assms show ?thesis by (cases l) (auto split: serve_splits)
  next
    case (2 w)
    with assms show ?thesis by (cases w) (auto split: option.split)
  next
    case 3
    with assms show ?thesis by (cases pc) (auto split: serve_splits sum.splits after_bind.splits)
  qed
qed

lemma spawned_new:
  "c \<in> set (so_spawn (serve_step api cfg env h pc)) \<Longrightarrow> \<exists>a. c = conn_spawn a"
  using serve_step_spawn [of api cfg env h pc] by auto

lemma at_drop_spawn [simp]: "\<not> at_drop d (conn_spawn a)"
  by (simp add: at_drop_def conn_spawn_def)

lemma grow_effect: "sys_effect api cfg g s t \<Longrightarrow> latches_grow (sy_handle s) (sy_handle t)"
proof (elim sys_effectE)
  fix i c
  assume "conn_effect api (sy_handle s) (sy_conns s ! i) (sy_handle t) c"
  then show ?thesis by (elim conn_effectE) auto
qed (auto simp: serve_step_grow)

lemma owes_end_step:
  assumes "conn_effect api h (cs ! i) h' c" and "i < length cs" and "is_notified (hi_graceful h)"
    and "\<exists>c \<in> set cs. owes_end c"
    and "h' = snd (count_fetch_sub h) \<Longrightarrow> hi_conn_count h' \<noteq> 0 \<Longrightarrow> \<exists>c \<in> set (cs[i := c]). conn_live c"
    and "\<not> at_drop DpOverflow c"
  shows "is_notified (hi_conn_end h') \<or> (\<exists>c \<in> set (cs[i := c]). owes_end c)"
proof -
  have stays: ?thesis if "owes_end c"
    using that assms(2) set_update_memI by fast
  have other: ?thesis if "\<not> owes_end (cs ! i)"
  proof -
    from assms(4) obtain j where j: "j < length cs" "owes_end (cs ! j)"
      by (auto simp: in_set_conv_nth)
    with that have "j \<noteq> i" by auto
    with j have "cs ! j \<in> set (cs[i := c])" by (metis length_list_update nth_list_update_neq nth_mem)
    with j show ?thesis by blast
  qed
  from assms(1) show ?thesis
  proof cases
    case effect_run
    then show ?thesis by (intro stays) (simp add: owes_end_def)
  next
    case effect_sub
    show ?thesis
    proof (cases "hi_conn_count h = 1")
      case True
      with effect_sub show ?thesis by (intro stays) (simp add: owes_end_def at_drop_def)
    next
      case False
      with effect_sub have "hi_conn_count h' \<noteq> 0" by (simp add: handle_simps)
      with assms(5) effect_sub show ?thesis by (auto simp: owes_end_def)
    qed
  next
    case effect_underflow
    with assms(6) show ?thesis by (simp add: at_drop_def)
  next
    case effect_last
    then show ?thesis by (intro stays) (simp add: owes_end_def at_drop_def)
  next
    case (effect_not_last n)
    with assms(3) show ?thesis by (intro other) (auto simp: owes_end_def at_drop_def conn_live_def)
  next
    case effect_end
    then show ?thesis by (simp add: handle_simps)
  next
    case effect_idle
    then have "owes_end c = owes_end (cs ! i)" by (simp add: owes_end_def at_drop_def conn_live_def)
    then show ?thesis using stays other by blast
  qed
qed

lemma sys_moves_effect: "sys_moves api cfg s t \<Longrightarrow> \<exists>g. sys_effect api cfg g s t"
  by (auto simp: sys_moves_iff intro: sys_step_effect)

lemma draining_conn:
  assumes "draining s" and "counted cfg s" and "counted cfg t" and "bounded t \<Longrightarrow> bounded s"
    and "i < length (sy_conns s)"
    and "conn_effect api (sy_handle s) (sy_conns s ! i) (sy_handle t) c"
    and "sy_conns t = (sy_conns s)[i := c]" and "sy_serve t = sy_serve s"
    and "latches_grow (sy_handle s) (sy_handle t)"
  shows "draining t"
proof -
  have "(\<forall>c \<in> set (sy_conns t). \<not> at_drop DpOverflow c) \<and>
      (awaits_end (sy_serve t) \<longrightarrow>
         is_notified (hi_conn_end (sy_handle t)) \<or> (\<exists>c \<in> set (sy_conns t). owes_end c))"
    if "bounded t"
  proof -
    have b: "bounded s" using assms(4) that .
    let ?c = "sy_conns s ! i"
    have old: "\<forall>c \<in> set (sy_conns s). \<not> at_drop DpOverflow c" using assms(1) b by (simp add: draining_def)
    have "?c \<in> set (sy_conns s)" using assms(5) by simp
    then have live: "cn_pc ?c = CpDrop DpSub \<Longrightarrow> hi_conn_count (sy_handle s) \<noteq> 0"
      using counted_zero_iff [OF assms(2) b] by (auto simp: conn_live_def)
    have new: "\<not> at_drop DpOverflow c"
      using assms(6) live old \<open>?c \<in> set (sy_conns s)\<close>
      by cases (auto simp: at_drop_def conn_live_def)
    have conns: "\<forall>c \<in> set (sy_conns t). \<not> at_drop DpOverflow c"
      using old new set_update_subset_insert [of "sy_conns s" i c] assms(7) by auto
    moreover have "is_notified (hi_conn_end (sy_handle t)) \<or> (\<exists>c \<in> set (sy_conns t). owes_end c)"
      if "awaits_end (sy_serve t)"
    proof -
      have wait: "past_accepting (sy_serve s)"
        using that assms(8) by (cases "sy_serve s") auto
      then have g: "is_notified (hi_graceful (sy_handle s))" using assms(1) by (simp add: draining_def)
      show ?thesis
      proof (cases "is_notified (hi_conn_end (sy_handle s))")
        case True
        then show ?thesis using assms(9) by (simp add: latches_grow_def)
      next
        case False
        then have "\<exists>c \<in> set (sy_conns s). owes_end c"
          using assms(1,8) b that by (simp add: draining_def)
        moreover have "\<exists>c \<in> set ((sy_conns s)[i := c]). conn_live c"
          if "hi_conn_count (sy_handle t) \<noteq> 0"
          using that counted_zero_iff [OF assms(3) \<open>bounded t\<close>] assms(7) by simp
        ultimately show ?thesis
          using owes_end_step [OF assms(6) assms(5) g _ _ new] assms(7) by simp
      qed
    qed
    ultimately show ?thesis by blast
  qed
  then show ?thesis using assms(1,8,9) by (auto simp: draining_def latches_grow_def)
qed

lemma draining_step:
  assumes "counted cfg s" and "counted cfg t" and "draining s" and "sys_moves api cfg s t"
  shows "draining t"
proof -
  have before: "bounded t \<Longrightarrow> bounded s" using bounded_before assms(4) .
  obtain g where eff: "sys_effect api cfg g s t" using sys_moves_effect [OF assms(4)] by blast
  note grow = grow_effect [OF eff]
  from eff show ?thesis
  proof (cases rule: sys_effect.cases)
    case (by_serve out env)
    from assms(3) have "sy_serve s \<noteq> SvWaitEnd WeDone" by (simp add: draining_def)
    note st = serve_step_drain [OF by_serve(2) this]
    have conns: "\<forall>c \<in> set (sy_conns t). c \<in> set (sy_conns s) \<or> (\<exists>a. c = conn_spawn a)"
      using by_serve spawned_new by fastforce
    have owes: "\<exists>c \<in> set (sy_conns s). owes_end c"
      if "hi_conn_count (sy_handle s) \<noteq> 0" "bounded s"
      using counted_zero_iff [OF assms(1) that(2)] that by (auto simp: owes_end_def)
    show ?thesis
      using assms(3) st grow conns owes before by_serve(3-5)
      unfolding draining_def latches_grow_def by (smt (verit) at_drop_spawn UnI1 set_append)
  next
    case (by_conn i c)
    show ?thesis
      by (rule draining_conn [OF assms(3,1,2) before by_conn(2-5) grow])
  qed (use assms(3) before grow in \<open>auto simp: draining_def latches_grow_def bounded_def handle_simps\<close>)
qed

interpretation drain: relative_invariant "\<lambda>s. s = sys_start api" "sys_moves api cfg" "counted cfg" draining
  for api :: "'n notify_api" and cfg
  by unfold_locales (blast intro: counted_start counted_step draining_start draining_step)+

lemma sys_drain_inv:
  "sys_reachable api cfg s \<Longrightarrow> counted cfg s \<and> draining s"
  by (rule drain.both.reach_inv)

section \<open>Calm runs\<close>

text \<open>
  A run is calm when no graceful shutdown is signalled while some watcher, having counted the
  connections down to 0, has not yet read the graceful latch.
\<close>

definition calm :: "'a action \<Rightarrow> ('a, 'n) sys \<Rightarrow> bool" where
  "calm a s \<longleftrightarrow> (a = ActGracefulNotify \<longrightarrow> (\<forall>c \<in> set (sy_conns s). \<not> at_drop (DpCheck 0) c))"

inductive calm_moves ::
  "'n notify_api \<Rightarrow> conn_config \<Rightarrow> ('a, 'n) sys \<Rightarrow> ('a, 'n) sys \<Rightarrow> bool" for api cfg
where
  calm_moves: "calm a s \<Longrightarrow> sys_step api cfg a s = Some t \<Longrightarrow> calm_moves api cfg s t"

lemma calm_is_move: "calm_moves api cfg s t \<Longrightarrow> sys_moves api cfg s t"
  by (auto elim: calm_moves.cases intro: moves)

abbreviation calm_reachable :: "'n notify_api \<Rightarrow> conn_config \<Rightarrow> ('a, 'n) sys \<Rightarrow> bool" where
  "calm_reachable api cfg \<equiv> reach (\<lambda>s. s = sys_start api) (calm_moves api cfg)"

definition idle :: "('a, 'n) sys \<Rightarrow> bool" where
  "idle s \<longleftrightarrow> (\<forall>c \<in> set (sy_conns s). \<not> conn_in_service c)"

definition end_signalled :: "('a, 'n) sys \<Rightarrow> bool" where
  "end_signalled s \<longleftrightarrow>
     is_notified (hi_conn_end (sy_handle s)) \<or> (\<exists>c \<in> set (sy_conns s). at_drop DpNotify c)"

definition end_due :: "('a, 'n) sys \<Rightarrow> bool" where
  "end_due s \<longleftrightarrow> (\<exists>c \<in> set (sy_conns s). at_drop (DpCheck 0) c)"

definition graceful_called :: "('a, 'n) sys \<Rightarrow> bool" where
  "graceful_called s \<longleftrightarrow> is_notified (hi_graceful (sy_handle s))"

definition ends_soundly :: "('a, 'n) sys \<Rightarrow> bool" where
  "ends_soundly s \<longleftrightarrow> (bounded s \<longrightarrow>
     (end_signalled s \<longrightarrow> graceful_called s) \<and>
     (graceful_called s \<and> (end_signalled s \<or> end_due s) \<longrightarrow> idle s) \<and>
     (sy_serve s = SvReturned (Inr ()) \<and> \<not> is_notified (hi_shutdown (sy_handle s)) \<longrightarrow>
       graceful_called s \<and> idle s))"

lemmas end_defs = end_signalled_def end_due_def graceful_called_def

lemma ends_soundly_start: "s = sys_start api \<Longrightarrow> ends_soundly s"
  by (simp add: ends_soundly_def end_defs sys_start_def handle_simps)

lemma in_service_live: "conn_in_service c \<Longrightarrow> conn_live c"
  by (cases "cn_pc c") (simp_all add: conn_in_service_def conn_live_def)

lemma conn_in_service_spawn [simp]: "\<not> conn_in_service (conn_spawn a)"
  by (simp add: conn_in_service_def conn_spawn_def)

lemma idle_update:
  "idle s \<Longrightarrow> sy_conns t = (sy_conns s)[i := c] \<Longrightarrow> \<not> conn_in_service c \<Longrightarrow> idle t"
  using set_update_subset_insert [of "sy_conns s" i c] by (auto simp: idle_def)

lemma counted_zero_idle: "counted cfg s \<Longrightarrow> bounded s \<Longrightarrow> hi_conn_count (sy_handle s) = 0 \<Longrightarrow> idle s"
  using counted_zero_iff [of cfg s] in_service_live by (auto simp: idle_def)

lemma idle_conn:
  assumes "conn_effect api (sy_handle s) (sy_conns s ! i) (sy_handle t) c" and "idle s"
    and "is_notified (hi_graceful (sy_handle s))" and "i < length (sy_conns s)"
    and "sy_conns t = (sy_conns s)[i := c]"
  shows "idle t"
proof -
  have "\<not> conn_in_service (sy_conns s ! i)" using assms(2,4) by (simp add: idle_def)
  with assms(1,3) have "\<not> conn_in_service c" by cases (auto simp: conn_in_service_def)
  with idle_update [OF assms(2,5)] show ?thesis .
qed

lemma ends_soundly_conn:
  assumes "ends_soundly s" and "counted cfg t" and "bounded t \<Longrightarrow> bounded s"
    and "i < length (sy_conns s)"
    and "conn_effect api (sy_handle s) (sy_conns s ! i) (sy_handle t) c"
    and "sy_conns t = (sy_conns s)[i := c]" and "sy_serve t = sy_serve s"
  shows "ends_soundly t"
proof (cases "bounded t")
  case False
  then show ?thesis by (simp add: ends_soundly_def)
next
  case True
  with assms(3) have b: "bounded s" by blast
  have latch: "graceful_called t = graceful_called s"
    "hi_shutdown (sy_handle t) = hi_shutdown (sy_handle s)"
    using assms(5) by (auto simp: handle_simps graceful_called_def)
  have old: "sy_conns s ! i \<in> set (sy_conns s)" using assms(4) by simp
  have mem: "d \<in> set (sy_conns t) \<Longrightarrow> d = c \<or> d \<in> set (sy_conns s)" for d
    using set_update_subset_insert [of "sy_conns s" i c] assms(6) by auto
  have "at_drop DpNotify c \<Longrightarrow> at_drop DpNotify (sy_conns s ! i) \<or>
      at_drop (DpCheck 0) (sy_conns s ! i) \<and> is_notified (hi_graceful (sy_handle s))"
    and "is_notified (hi_conn_end (sy_handle t)) \<Longrightarrow>
      is_notified (hi_conn_end (sy_handle s)) \<or> at_drop DpNotify (sy_conns s ! i)"
    using assms(5) by (cases; auto simp: at_drop_def conn_live_def handle_simps)+
  then have ended: "end_signalled t \<Longrightarrow> end_signalled s \<or> graceful_called s \<and> end_due s"
    using mem old unfolding end_defs by blast
  have "at_drop (DpCheck 0) c \<Longrightarrow> at_drop (DpCheck 0) (sy_conns s ! i) \<or> hi_conn_count (sy_handle t) = 0"
    using assms(5) by cases (auto simp: at_drop_def conn_live_def handle_simps)
  then have due: "end_due t \<Longrightarrow> end_due s \<or> hi_conn_count (sy_handle t) = 0"
    using mem old unfolding end_defs by blast
  have idle: "idle s \<Longrightarrow> graceful_called s \<Longrightarrow> idle t"
    using idle_conn [OF assms(5) _ _ assms(4,6)] by (simp add: graceful_called_def)
  show ?thesis
    using assms(1) b ended due idle counted_zero_idle [OF assms(2) True]
    unfolding ends_soundly_def latch assms(7) by blast
qed

lemma serve_step_handle:
  "hi_conn_end (so_handle (serve_step api cfg env h pc)) = hi_conn_end h"
  "hi_graceful (so_handle (serve_step api cfg env h pc)) = hi_graceful h"
proof -
  have "hi_conn_end (so_handle (serve_step api cfg env h pc)) = hi_conn_end h \<and>
    hi_graceful (so_handle (serve_step api cfg env h pc)) = hi_graceful h"
  proof (cases pc)
    case (SvLoop l)
    with loop_step_spawn [of cfg env h l] show ?thesis by (auto simp: handle_simps)
  next
    case (SvWaitEnd w)
    then show ?thesis by (cases w) (auto simp: handle_simps split: option.split)
  qed (auto simp: handle_simps split: serve_splits)
  then show "hi_conn_end (so_handle (serve_step api cfg env h pc)) = hi_conn_end h"
    and "hi_graceful (so_handle (serve_step api cfg env h pc)) = hi_graceful h" by auto
qed

text \<open>\<open>serve\<close> returns \<open>Ok\<close> for one of three reasons.\<close>

lemma serve_step_returns:
  assumes "so_pc (serve_step api cfg env h pc) = SvReturned (Inr ())" and "pc \<noteq> SvWaitEnd WeDone"
  shows "pc = SvReturned (Inr ()) \<or> is_notified (hi_shutdown (so_handle (serve_step api cfg env h pc))) \<or>
    (\<exists>w. pc = SvWaitEnd w) \<and> (hi_conn_count h = 0 \<or> is_notified (hi_conn_end h))"
proof (cases pc)
  case (SvLoop l)
  with assms show ?thesis
    by (cases l) (auto split: poll.splits sum.splits accept_out.splits prod.splits)
next
  case (SvWaitEnd w)
  with assms show ?thesis by (cases w) (auto simp: handle_simps split: option.splits if_splits)
qed (use assms in \<open>auto split: serve_splits sum.splits after_bind.splits poll.splits\<close>)

lemma ends_soundly_serve:
  assumes "ends_soundly s" and "counted cfg s" and "draining s" and "bounded t \<Longrightarrow> bounded s"
    and "out = serve_step api cfg env (sy_handle s) (sy_serve s)"
    and "sy_handle t = so_handle out" and "sy_serve t = so_pc out"
    and "sy_conns t = sy_conns s @ so_spawn out"
  shows "ends_soundly t"
proof (cases "bounded t")
  case False
  then show ?thesis by (simp add: ends_soundly_def)
next
  case True
  with assms(4) have b: "bounded s" by blast
  have new: "c \<in> set (sy_conns t) \<Longrightarrow> c \<in> set (sy_conns s) \<or> (\<exists>a. c = conn_spawn a)" for c
    using assms(5,8) spawned_new by fastforce
  then have idle: "idle s \<Longrightarrow> idle t" by (force simp: idle_def)
  have latch: "hi_conn_end (sy_handle t) = hi_conn_end (sy_handle s)"
    "graceful_called t = graceful_called s"
    using assms(5,6) by (simp_all add: serve_step_handle graceful_called_def)
  then have signalled: "end_signalled t \<Longrightarrow> end_signalled s" "end_due t \<Longrightarrow> end_due s"
    using new at_drop_spawn unfolding end_defs by metis+
  have "graceful_called s \<and> idle s"
    if "sy_serve t = SvReturned (Inr ())" "\<not> is_notified (hi_shutdown (sy_handle t))"
  proof -
    have "sy_serve s \<noteq> SvWaitEnd WeDone" using assms(3) by (simp add: draining_def)
    with serve_step_returns [of api cfg env "sy_handle s" "sy_serve s"] that assms(5-7)
    consider "sy_serve s = SvReturned (Inr ())"
      | w where "sy_serve s = SvWaitEnd w" "hi_conn_count (sy_handle s) = 0 \<or> is_notified (hi_conn_end (sy_handle s))"
      by auto
    then show ?thesis
    proof cases
      case 1
      moreover have "\<not> is_notified (hi_shutdown (sy_handle s))"
        using that(2) assms(5,6) serve_step_grow [of "sy_handle s" api cfg env "sy_serve s"]
        by (auto simp: latches_grow_def)
      ultimately show ?thesis using assms(1) b by (simp add: ends_soundly_def)
    next
      case 2
      then have "graceful_called s" using assms(3) by (simp add: draining_def graceful_called_def)
      moreover from this 2 have "idle s"
        using assms(1) b counted_zero_idle [OF assms(2) b] by (auto simp: ends_soundly_def end_signalled_def)
      ultimately show ?thesis by blast
    qed
  qed
  with assms(1) b latch(2) signalled idle show ?thesis unfolding ends_soundly_def by blast
qed

lemma ends_soundly_step:
  assumes "counted cfg s \<and> draining s" and "counted cfg t \<and> draining t" and "ends_soundly s"
    and "calm_moves api cfg s t"
  shows "ends_soundly t"
proof -
  have move: "sys_moves api cfg s t" using assms(4) by (rule calm_is_move)
  note before = bounded_before [OF move]
  from assms(4) obtain a where calm: "calm a s" and step: "sys_step api cfg a s = Some t"
    by (blast elim: calm_moves.cases)
  from sys_step_effect [OF step] show ?thesis
  proof (cases rule: sys_effect.cases)
    case (by_serve out env)
    then show ?thesis using ends_soundly_serve [OF assms(3) _ _ before by_serve(2-5)] assms(1) by blast
  next
    case (by_conn i c)
    then show ?thesis using ends_soundly_conn [OF assms(3) _ before by_conn(2-5)] assms(2) by blast
  next
    case by_shutdown
    with assms(3) before show ?thesis by (auto simp: ends_soundly_def end_defs idle_def handle_simps)
  next
    case (by_duration d)
    with assms(3) before show ?thesis by (auto simp: ends_soundly_def end_defs idle_def handle_simps)
  next
    case by_graceful
    have "\<not> end_due s" using calm by_graceful(1) by (auto simp: calm_def end_defs)
    moreover have "end_due t = end_due s" "end_signalled t = end_signalled s" "graceful_called t"
      "idle t = idle s" "bounded t = bounded s" "hi_shutdown (sy_handle t) = hi_shutdown (sy_handle s)"
      using by_graceful by (simp_all add: end_defs idle_def bounded_def handle_simps)
    ultimately show ?thesis using assms(3) by_graceful(4) by (auto simp: ends_soundly_def)
  qed
qed

lemma calm_inv_step:
  "counted cfg s \<and> draining s \<Longrightarrow> calm_moves api cfg s t \<Longrightarrow> counted cfg t \<and> draining t"
  using counted_step draining_step calm_is_move by blast

interpretation calm_drain: relative_invariant "\<lambda>s. s = sys_start api" "calm_moves api cfg"
    "\<lambda>s. counted cfg s \<and> draining s" ends_soundly
  for api :: "'n notify_api" and cfg
proof
  show "counted cfg s \<and> draining s" if "s = sys_start api" for s
    using counted_start [OF that] draining_start [OF that] by blast
  show "counted cfg t \<and> draining t" if "counted cfg s \<and> draining s" "calm_moves api cfg s t" for s t
    using that by (rule calm_inv_step)
  show "ends_soundly s" if "s = sys_start api" for s using that by (rule ends_soundly_start)
  show "ends_soundly t"
    if "counted cfg s \<and> draining s" "counted cfg t \<and> draining t" "ends_soundly s" "calm_moves api cfg s t" for s t
    using that by (rule ends_soundly_step)
qed

section \<open>Every interleaving brings a task closer to its end\<close>

definition moves_conn :: "nat \<Rightarrow> 'a action \<Rightarrow> bool" where
  "moves_conn i a \<longleftrightarrow> (\<exists>env. a = ActConn i env)"

lemma sys_step_conn_keep:
  "sys_step api cfg a s = Some t \<Longrightarrow> i < length (sy_conns s) \<Longrightarrow> \<not> moves_conn i a \<Longrightarrow>
   sy_conns t ! i = sy_conns s ! i \<or> sy_conns t ! i = conn_abort (sy_conns s ! i)"
  by (cases a)
    (auto simp: moves_conn_def Let_def case_prod_beta nth_append nth_list_update split: if_splits nat.splits)

lemma sys_step_conn_move:
  "sys_step api cfg (ActConn i env) s = Some t \<Longrightarrow> 
   i < length (sy_conns s) \<and> sy_conns t ! i = snd (conn_step api cfg env (sy_handle s) (sy_conns s ! i))"
  by (auto simp: case_prod_beta split: if_splits)

lemma sys_run_conns_length:
  "sys_run api cfg acts s = Some t \<Longrightarrow> length (sy_conns s) \<le> length (sy_conns t)"
  by (induction acts arbitrary: s)
    (auto split: option.splits dest: sys_step_conns_length intro: order_trans)

lemma sys_run_grow:
  "sys_run api cfg acts s = Some t \<Longrightarrow> latches_grow (sy_handle s) (sy_handle t)"
  by (induction acts arbitrary: s)
    (auto split: option.splits dest: sys_step_grow intro: latches_grow_trans)

text \<open>A task that is about to subtract finds the counter positive.\<close>

lemma sub_finds_positive:
  assumes "sys_reachable api cfg s" and "bounded s" and "i < length (sy_conns s)"
  shows "hi_conn_count (sy_handle s) \<noteq> 0 \<or> cn_pc (sy_conns s ! i) \<noteq> CpDrop DpSub"
    and "cn_pc (sy_conns s ! i) \<noteq> CpDrop DpOverflow"
proof -
  from sys_drain_inv [OF assms(1)] have inv: "counted cfg s" "draining s" by auto
  have mem: "sy_conns s ! i \<in> set (sy_conns s)" using assms(3) by simp
  show "hi_conn_count (sy_handle s) \<noteq> 0 \<or> cn_pc (sy_conns s ! i) \<noteq> CpDrop DpSub"
    using counted_zero_iff [OF inv(1) assms(2)] mem by (auto simp: conn_live_def)
  show "cn_pc (sy_conns s ! i) \<noteq> CpDrop DpOverflow"
    using inv(2) assms(2) mem by (auto simp: draining_def at_drop_def)
qed

text \<open>
  The scheme of every liveness argument: along a run \<open>J\<close> is kept, and a rank never grows
  and shrinks at every selected action; if there are enough of those, it ends at 0.
\<close>

lemma sys_run_rank:
  assumes "sys_run api cfg acts s = Some t" and "J s" and "rank s \<le> count_if sel acts"
    and "\<And>a u v. a \<in> set acts \<Longrightarrow> J u \<Longrightarrow> sys_step api cfg a u = Some v \<Longrightarrow>
      length (sy_conns v) \<le> length (sy_conns t) \<Longrightarrow>
      J v \<and> rank v \<le> rank u - (if sel a then 1 else (0 :: nat))"
  shows "J t \<and> rank t = 0"
  using assms
proof (induction acts arbitrary: s)
  case Nil
  then show ?case by simp
next
  case (Cons a acts)
  from Cons.prems(1) obtain u where step: "sys_step api cfg a s = Some u" and run: "sys_run api cfg acts u = Some t"
    by (auto split: option.splits)
  from Cons.prems(2,4) step sys_run_conns_length [OF run]
  have u: "J u" "rank u \<le> rank s - (if sel a then 1 else 0)" by auto
  with Cons.prems(3) have "rank u \<le> count_if sel acts" by (auto split: if_splits)
  then show ?case by (rule Cons.IH [OF run u(1)]) (rule Cons.prems(4), simp_all)
qed

lemma sys_run_inv:
  assumes "sys_run api cfg acts s = Some t" and "J s"
    and "\<And>a u v. a \<in> set acts \<Longrightarrow> J u \<Longrightarrow> sys_step api cfg a u = Some v \<Longrightarrow> J v"
  shows "J t"
  using sys_run_rank [OF assms(1), of J "\<lambda>s. 0" "\<lambda>a. False"] assms(2,3) by auto

lemma sys_reach_step: "sys_reachable api cfg u \<Longrightarrow> sys_step api cfg a u = Some v \<Longrightarrow> sys_reachable api cfg v"
  by (blast intro: reach_step moves)

lemma distance_abort:
  "shutdown_distance (cn_pc (conn_abort c)) \<le> shutdown_distance (cn_pc c)"
  "graceful_distance (cn_pc (conn_abort c)) \<le> graceful_distance (cn_pc c)"
  by (cases "cn_pc c"; simp add: conn_abort_def conn_return_def)+

lemma sys_run_distance:
  fixes s :: "('a, 'n) sys"
  assumes "sys_run api cfg acts s = Some t" and "sys_reachable api cfg s" and "bounded t"
    and "i < length (sy_conns s)" and "I (sy_handle s)"
    and "dist (cn_pc (sy_conns s ! i)) \<le> count_if (moves_conn i) acts"
    and keep: "\<And>h h'. latches_grow h h' \<Longrightarrow> I h \<Longrightarrow> I h'"
    and abort: "\<And>c :: 'a conn. dist (cn_pc (conn_abort c)) \<le> dist (cn_pc c)"
    and move: "\<And>env h c. ActConn i env \<in> set acts \<Longrightarrow> I h \<Longrightarrow>
      hi_conn_count h \<noteq> 0 \<or> cn_pc c \<noteq> CpDrop DpSub \<Longrightarrow> cn_pc c \<noteq> CpDrop DpOverflow \<Longrightarrow>
      dist (cn_pc (snd (conn_step api cfg env h (c :: 'a conn)))) \<le> dist (cn_pc c) - (1 :: nat)"
  shows "dist (cn_pc (sy_conns t ! i)) = 0"
proof -
  let ?J = "\<lambda>u :: ('a, 'n) sys. sys_reachable api cfg u \<and> i < length (sy_conns u) \<and> I (sy_handle u)"
  have "?J t \<and> dist (cn_pc (sy_conns t ! i)) = 0"
  proof (rule sys_run_rank [where J = ?J and rank = "\<lambda>u. dist (cn_pc (sy_conns u ! i))", OF assms(1) _ assms(6)])
    show "?J s" using assms(2,4,5) by blast
    fix a and u v :: "('a, 'n) sys"
    assume a: "a \<in> set acts" and u: "?J u" and step: "sys_step api cfg a u = Some v"
      and len: "length (sy_conns v) \<le> length (sy_conns t)"
    have "bounded u" using len sys_step_conns_length [OF step] assms(3) by (simp add: bounded_def)
    note pos = sub_finds_positive [OF _ this, of api cfg i]
    have "dist (cn_pc (sy_conns v ! i)) \<le> dist (cn_pc (sy_conns u ! i)) - (if moves_conn i a then 1 else 0)"
    proof (cases "moves_conn i a")
      case True
      then obtain env where act: "a = ActConn i env" by (auto simp: moves_conn_def)
      with True move [of env "sy_handle u" "sy_conns u ! i"] pos u a
        sys_step_conn_move [OF step [unfolded act]]
      show ?thesis by simp
    next
      case False
      from sys_step_conn_keep [OF step _ False, of] u abort [of "sy_conns u ! i"] False
      show ?thesis by auto
    qed
    moreover have "?J v"
      using u sys_reach_step [OF _ step] sys_step_conns_length [OF step] keep [OF sys_step_grow [OF step]]
      by auto
    ultimately show "?J v \<and> dist (cn_pc (sy_conns v ! i)) \<le>
        dist (cn_pc (sy_conns u ! i)) - (if moves_conn i a then 1 else 0)" by blast
  qed
  then show ?thesis by blast
qed

lemma distance_0_done:
  assumes "sys_reachable api cfg t" and "bounded t" and "i < length (sy_conns t)"
    and "shutdown_distance (cn_pc (sy_conns t ! i)) = 0 \<or> graceful_distance (cn_pc (sy_conns t ! i)) = 0"
  shows "conn_done (sy_conns t ! i)"
  using sub_finds_positive(2) [OF assms(1-3)] assms(4) by (auto simp: conn_done_def distance_0)

text \<open>Shutdown, or a graceful shutdown with Hyper completing, ends a task in any interleaving.\<close>

lemma run_shutdown_ends:
  assumes "sys_run api cfg acts s = Some t" and "sys_reachable api cfg s" and "bounded t"
    and "i < length (sy_conns s)" and "is_notified (hi_shutdown (sy_handle s))"
    and "8 \<le> count_if (moves_conn i) acts"
  shows "conn_done (sy_conns t ! i)"
proof (rule distance_0_done [OF sys_run_reachable [OF assms(2,1)] assms(3)])
  show "i < length (sy_conns t)" using assms(4) sys_run_conns_length [OF assms(1)] by simp
  have "shutdown_distance (cn_pc (sy_conns s ! i)) \<le> count_if (moves_conn i) acts"
    using distance_le(1) assms(6) order_trans by blast
  then have "shutdown_distance (cn_pc (sy_conns t ! i)) = 0"
    by (rule sys_run_distance [where I = "\<lambda>h. is_notified (hi_shutdown h)", OF assms(1-5)])
      (use assms in \<open>auto simp: latches_grow_def intro: distance_abort distance_step [simplified]\<close>)
  then show "shutdown_distance (cn_pc (sy_conns t ! i)) = 0 \<or> graceful_distance (cn_pc (sy_conns t ! i)) = 0"
    by blast
qed

lemma run_graceful_ends:
  assumes "sys_run api cfg acts s = Some t" and "sys_reachable api cfg s" and "bounded t"
    and "i < length (sy_conns s)" and "is_notified (hi_graceful (sy_handle s))"
    and "9 \<le> count_if (moves_conn i) acts" and "\<forall>env. ActConn i env \<in> set acts \<longrightarrow> ce_serve env"
  shows "conn_done (sy_conns t ! i)"
proof (rule distance_0_done [OF sys_run_reachable [OF assms(2,1)] assms(3)])
  show "i < length (sy_conns t)" using assms(4) sys_run_conns_length [OF assms(1)] by simp
  have "graceful_distance (cn_pc (sy_conns s ! i)) \<le> count_if (moves_conn i) acts"
    using distance_le(2) assms(6) order_trans by blast
  then have "graceful_distance (cn_pc (sy_conns t ! i)) = 0"
    by (rule sys_run_distance [where I = "\<lambda>h. is_notified (hi_graceful h)", OF assms(1-5)])
      (use assms in \<open>auto simp: latches_grow_def intro: distance_abort distance_step [simplified]\<close>)
  then show "shutdown_distance (cn_pc (sy_conns t ! i)) = 0 \<or> graceful_distance (cn_pc (sy_conns t ! i)) = 0"
    by blast
qed

section \<open>The end of \<open>serve\<close>\<close>

definition moves_serve :: "'a action \<Rightarrow> bool" where
  "moves_serve a \<longleftrightarrow> (\<exists>env. a = ActServe env)"

text \<open>How many steps \<open>serve\<close> still takes once every connection has ended.\<close>

fun drain_rank :: "'a serve_pc \<Rightarrow> nat" where
  "drain_rank (SvWaitEnd WeDur) = 3"
| "drain_rank (SvWaitEnd (WeSleep d)) = 2"
| "drain_rank (SvWaitEnd w) = 1"
| "drain_rank (SvReturned r) = 0"
| "drain_rank _ = 4"

definition drained :: "('a, 'n) sys \<Rightarrow> bool" where
  "drained s \<longleftrightarrow> (\<forall>c \<in> set (sy_conns s). conn_done c) \<and>
     (sy_serve s = SvReturned (Inr ()) \<or> (\<exists>w. sy_serve s = SvWaitEnd w))"

lemma conn_abort_done [simp]: "conn_done c \<Longrightarrow> conn_abort c = c"
  by (simp add: conn_done_def conn_abort_def)

lemma done_owes_nothing: "conn_done c \<Longrightarrow> \<not> owes_end c \<and> \<not> conn_live c"
  by (simp add: conn_done_def owes_end_def conn_live_def at_drop_def)

lemma sys_step_not_serve:
  "sys_step api cfg a s = Some t \<Longrightarrow> \<not> moves_serve a \<Longrightarrow>
   sy_serve t = sy_serve s \<and> length (sy_conns t) = length (sy_conns s)"
  by (cases a) (auto simp: moves_serve_def case_prod_beta split: if_splits nat.splits)

lemma drained_others:
  assumes "drained s" and "sys_step api cfg a s = Some t" and "\<not> moves_serve a"
  shows "drained t"
proof -
  have "\<forall>c \<in> set (sy_conns t). conn_done c"
    using assms by (cases a)
      (auto simp: drained_def moves_serve_def case_prod_beta conn_done_stays
        dest!: set_update_subset_insert [THEN subsetD] split: if_splits nat.splits)
  with sys_step_not_serve [OF assms(2,3)] assms(1) show ?thesis by (simp add: drained_def)
qed

lemma drained_serve:
  assumes "drained s" and "counted cfg s" and "draining s" and "bounded s"
    and "sys_step api cfg (ActServe env) s = Some t"
  shows "drained t \<and> drain_rank (sy_serve t) \<le> drain_rank (sy_serve s) - 1"
proof -
  from assms(1) have none: "\<forall>c \<in> set (sy_conns s). \<not> owes_end c \<and> \<not> conn_live c"
    using done_owes_nothing by (auto simp: drained_def)
  then have zero: "hi_conn_count (sy_handle s) = 0" using counted_zero_iff [OF assms(2,4)] by blast
  have ended: "awaits_end (sy_serve s) \<Longrightarrow> is_notified (hi_conn_end (sy_handle s))"
    using assms(3,4) none by (auto simp: draining_def)
  from assms(1) consider "sy_serve s = SvReturned (Inr ())" | w where "sy_serve s = SvWaitEnd w"
    by (auto simp: drained_def)
  then show ?thesis
  proof cases
    case 1
    with assms(1,5) show ?thesis by (auto simp: drained_def)
  next
    case (2 w)
    with assms(1,5) zero ended show ?thesis
      by (cases w) (auto simp: drained_def Let_def case_prod_beta split: option.splits if_splits)
  qed
qed

lemma drained_returns:
  fixes s :: "('a, 'n) sys"
  assumes "sys_run api cfg acts s = Some t" and "sys_reachable api cfg s" and "bounded t"
    and "drained s" and "3 \<le> count_if moves_serve acts"
  shows "sy_serve t = SvReturned (Inr ())"
proof -
  let ?J = "\<lambda>u :: ('a, 'n) sys. sys_reachable api cfg u \<and> drained u"
  have "drain_rank (SvWaitEnd w :: 'a serve_pc) \<le> 3" for w by (cases w) auto
  then have "drain_rank (sy_serve s) \<le> 3"
    using assms(4) by (auto simp: drained_def)
  then have "drain_rank (sy_serve s) \<le> count_if moves_serve acts" using assms(5) by simp
  then have "?J t \<and> drain_rank (sy_serve t) = 0"
  proof (rule sys_run_rank [where J = ?J and rank = "\<lambda>u. drain_rank (sy_serve u)", OF assms(1), rotated])
    show "?J s" using assms(2,4) by blast
    fix a and u v :: "('a, 'n) sys"
    assume u: "?J u" and step: "sys_step api cfg a u = Some v"
      and len: "length (sy_conns v) \<le> length (sy_conns t)"
    have b: "bounded u" using len sys_step_conns_length [OF step] assms(3) by (simp add: bounded_def)
    have reach: "sys_reachable api cfg v" using u sys_reach_step [OF _ step] by blast
    show "?J v \<and> drain_rank (sy_serve v) \<le> drain_rank (sy_serve u) - (if moves_serve a then 1 else 0)"
    proof (cases "moves_serve a")
      case True
      then obtain env where "a = ActServe env" by (auto simp: moves_serve_def)
      with drained_serve [of u cfg api env v] u b sys_drain_inv [of api cfg u] step reach True
      show ?thesis by auto
    next
      case False
      with drained_others [of u] sys_step_not_serve [OF step False] u step reach show ?thesis by auto
    qed
  qed
  then show ?thesis by (auto simp: drained_def elim: drain_rank.elims)
qed

lemma no_spawn_while_waiting:
  assumes "sys_run api cfg acts s = Some t"
    and "sy_serve s = SvReturned (Inr ()) \<or> (\<exists>w. sy_serve s = SvWaitEnd w)"
  shows "(sy_serve t = SvReturned (Inr ()) \<or> (\<exists>w. sy_serve t = SvWaitEnd w)) \<and>
    length (sy_conns t) = length (sy_conns s)"
proof -
  let ?J = "\<lambda>u. (sy_serve u = SvReturned (Inr ()) \<or> (\<exists>w. sy_serve u = SvWaitEnd w)) \<and>
    length (sy_conns u) = length (sy_conns s)"
  show ?thesis
  proof (rule sys_run_inv [where J = ?J, OF assms(1)])
    show "?J s" using assms(2) by simp
    fix a u v
    assume "?J u" and step: "sys_step api cfg a u = Some v"
    then show "?J v"
    proof (cases "moves_serve a")
      case True
      then obtain env where "a = ActServe env" by (auto simp: moves_serve_def)
      with \<open>?J u\<close> step show ?thesis by (auto simp: Let_def case_prod_beta split: if_splits)
    next
      case False
      with \<open>?J u\<close> sys_step_not_serve [OF step False] show ?thesis by simp
    qed
  qed
qed

end
