(* ===== verification/Serving.thy ===== *)
theory Serving
  imports Shutdown
begin

text \<open>
  The properties of the running server (the system of the theory \<open>ServeTask\<close>): the counter,
  graceful shutdown and its deadline, shutdown, connections that arrive late, the listening
  address, the errors of \<open>serve\<close>. They are about every interleaving of the serving task,
  the connection tasks and the calls on the handle.
\<close>

section \<open>The address and the errors\<close>

fun before_address :: "'a serve_pc \<Rightarrow> bool" where
  "before_address SvBind = True"
| "before_address (SvSetAddr a k) = True"
| "before_address (SvNotifyAddr k) = True"
| "before_address _ = False"

definition published :: "('a, 'n) sys \<Rightarrow> bool" where
  "published s \<longleftrightarrow>
     (before_address (sy_serve s) \<longrightarrow> sy_conns s = []) \<and>
     is_notified (hi_addr_notify (sy_handle s)) = (\<not> before_address (sy_serve s)) \<and>
     (\<forall>a e. sy_serve s = SvSetAddr a (BindFailed e) \<longrightarrow> a = None) \<and>
     (\<forall>e. sy_serve s = SvNotifyAddr (BindFailed e) \<longrightarrow> hi_addr (sy_handle s) = None) \<and>
     (\<forall>e. sy_serve s = SvLoopDone (Inl e) \<longrightarrow> err_kind e = Other) \<and>
     (\<forall>e. sy_serve s = SvReturned (Inl e) \<longrightarrow>
       err_kind e = Other \<or> sy_conns s = [] \<and> hi_addr (sy_handle s) = None)"

lemma published_start: "s = sys_start api \<Longrightarrow> published s"
  by (simp add: published_def sys_start_def handle_simps)

lemma conn_effect_addr:
  "conn_effect api h c h' c' \<Longrightarrow> hi_addr h' = hi_addr h \<and> hi_addr_notify h' = hi_addr_notify h"
  by (auto simp: handle_simps)

lemma published_serve:
  assumes "published s" and "out = serve_step api cfg env (sy_handle s) (sy_serve s)"
    and "sy_handle t = so_handle out" and "sy_serve t = so_pc out"
    and "sy_conns t = sy_conns s @ so_spawn out"
  shows "published t"
proof (cases "sy_serve s")
  case (SvLoop l)
  with assms show ?thesis
    by (cases l) (auto simp: published_def io_other_def handle_simps split: serve_splits)
next
  case (SvWaitEnd w)
  with assms show ?thesis
    by (cases w) (auto simp: published_def handle_simps split: option.splits)
qed (use assms in \<open>auto simp: published_def handle_simps split: serve_splits sum.splits after_bind.splits\<close>)

lemma published_step: "published s \<Longrightarrow> sys_moves api cfg s t \<Longrightarrow> published t"
proof -
  assume pub: "published s" and "sys_moves api cfg s t"
  from sys_moves_effect [OF this(2)] obtain g where "sys_effect api cfg g s t" by blast
  then show "published t"
  proof (cases rule: sys_effect.cases)
    case (by_serve out env)
    with published_serve [OF pub] show ?thesis by blast
  next
    case (by_conn i c)
    with pub conn_effect_addr [OF by_conn(3)] show ?thesis by (auto simp: published_def)
  qed (use pub in \<open>auto simp: published_def handle_simps\<close>)
qed

interpretation publish: invariant_system "\<lambda>s. s = sys_start api" "sys_moves api cfg" published
  for api :: "'n notify_api" and cfg
  by unfold_locales (auto intro: published_start published_step)

lemma sys_step_addr:
  assumes "sys_step api cfg a s = Some t" and "\<not> before_address (sy_serve s)"
  shows "hi_addr (sy_handle t) = hi_addr (sy_handle s) \<and> \<not> before_address (sy_serve t)"
proof -
  from sys_step_effect [OF assms(1)] show ?thesis
  proof (cases rule: sys_effect.cases)
    case (by_serve out env)
    show ?thesis
    proof (cases "sy_serve s")
      case (SvLoop l)
      with by_serve show ?thesis by (cases l) (auto simp: handle_simps split: serve_splits)
    next
      case (SvWaitEnd w)
      with by_serve show ?thesis by (cases w) (auto simp: handle_simps split: option.splits)
    qed (use by_serve assms(2) in \<open>auto simp: handle_simps split: serve_splits sum.splits\<close>)
  next
    case (by_conn i c)
    with assms(2) conn_effect_addr [OF by_conn(3)] show ?thesis by simp
  qed (use assms(2) in \<open>auto simp: handle_simps\<close>)
qed

text \<open>That \<open>serve\<close>, in some step of a run, met a failure with which it returns.\<close>

definition bind_failed :: "'a serve_pc \<Rightarrow> 'a serve_env \<Rightarrow> io_error \<Rightarrow> bool" where
  "bind_failed pc env e \<longleftrightarrow> pc = SvBind \<and> se_bind env = Ready (Inl e)"

definition ready_failed :: "'a serve_pc \<Rightarrow> 'a serve_env \<Rightarrow> io_error \<Rightarrow> bool" where
  "ready_failed pc env e \<longleftrightarrow> (\<exists>a msg. pc = SvLoop (LpPollReady a) \<and> se_ready env = Ready (Inl msg) \<and> e = io_other msg)"

definition happened where
  "happened api cfg failure acts e \<longleftrightarrow> (\<exists>before env after u. acts = before @ ActServe env # after \<and>
     sys_run api cfg before (sys_start api) = Some u \<and> failure (sy_serve u) env e)"

lemma happened_later: "happened api cfg failure acts e \<Longrightarrow> happened api cfg failure (acts @ acts') e"
  unfolding happened_def by (metis append.assoc append_Cons)

lemma happened_now:
  "sys_run api cfg acts (sys_start api) = Some u \<Longrightarrow> failure (sy_serve u) env e \<Longrightarrow>
   happened api cfg failure (acts @ [ActServe env]) e"
  unfolding happened_def by blast

definition origin_known where
  "origin_known api cfg acts s \<longleftrightarrow>
     (\<forall>a e. sy_serve s = SvSetAddr a (BindFailed e) \<longrightarrow> happened api cfg bind_failed acts e) \<and>
     (\<forall>e. sy_serve s = SvNotifyAddr (BindFailed e) \<longrightarrow> happened api cfg bind_failed acts e) \<and>
     (\<forall>e. sy_serve s = SvLoopDone (Inl e) \<longrightarrow> happened api cfg ready_failed acts e) \<and>
     (\<forall>e. sy_serve s = SvReturned (Inl e) \<longrightarrow> happened api cfg ready_failed acts e \<or>
        happened api cfg bind_failed acts e \<and> sy_conns s = [] \<and> hi_addr (sy_handle s) = None)"

lemma origin_serve:
  assumes "sys_run api cfg acts (sys_start api) = Some u" and "origin_known api cfg acts u" and "published u"
    and "out = serve_step api cfg env (sy_handle u) (sy_serve u)" and "sy_handle t = so_handle out"
    and "sy_serve t = so_pc out" and "sy_conns t = sy_conns u @ so_spawn out"
  shows "origin_known api cfg (acts @ [ActServe env]) t"
proof (cases "sy_serve u")
  case SvBind
  have "happened api cfg bind_failed (acts @ [ActServe env]) e" if "se_bind env = Ready (Inl e)" for e
    using happened_now [OF assms(1), of bind_failed env e] SvBind that by (simp add: bind_failed_def)
  with SvBind assms(4,6) show ?thesis by (auto simp: origin_known_def split: serve_splits)
next
  case (SvLoop l)
  have "happened api cfg ready_failed (acts @ [ActServe env]) (io_other msg)"
    if "l = LpPollReady a" "se_ready env = Ready (Inl msg)" for a msg
    using happened_now [OF assms(1), of ready_failed env "io_other msg"] SvLoop that by (auto simp: ready_failed_def)
  with SvLoop assms(4,6) show ?thesis by (cases l) (auto simp: origin_known_def split: serve_splits)
next
  case (SvWaitEnd w)
  with assms(4,6) show ?thesis by (auto simp: origin_known_def Let_def case_prod_beta)
qed (use assms(2-7) in \<open>auto simp: origin_known_def published_def handle_simps
      split: serve_splits sum.splits after_bind.splits dest: happened_later [where acts' = "[ActServe env]"]\<close>)

lemma sys_run_append:
  "sys_run api cfg (acts @ acts') s =
    (case sys_run api cfg acts s of None \<Rightarrow> None | Some t \<Rightarrow> sys_run api cfg acts' t)"
  by (induction acts arbitrary: s) (auto split: option.split)

lemma run_origin: "sys_run api cfg acts (sys_start api) = Some s \<Longrightarrow> origin_known api cfg acts s"
proof (induction acts arbitrary: s rule: rev_induct)
  case Nil
  then show ?case by (auto simp: origin_known_def sys_start_def)
next
  case (snoc b acts)
  from snoc.prems obtain u where u: "sys_run api cfg acts (sys_start api) = Some u" and step: "sys_step api cfg b u = Some s"
    by (auto simp: sys_run_append split: option.splits)
  have pub: "published u" using publish.reach_inv [OF sys_start_reachable [OF u]] .
  note known = snoc.IH [OF u]
  show ?case
  proof (cases "moves_serve b")
    case True
    then obtain env where b: "b = ActServe env" by (auto simp: moves_serve_def)
    show ?thesis unfolding b
      by (rule origin_serve [OF u known pub refl]) (use step b in \<open>auto simp: Let_def\<close>)
  next
    case False
    from sys_step_not_serve [OF step False] have same: "sy_serve s = sy_serve u" "sy_conns s = [] \<longleftrightarrow> sy_conns u = []" by auto
    moreover have "hi_addr (sy_handle s) = hi_addr (sy_handle u)" if "sy_serve u = SvReturned r" for r
      using sys_step_addr [OF step] that by simp
    ultimately show ?thesis
      using known by (auto simp: origin_known_def dest: happened_later [where acts' = "[b]"])
  qed
qed

section \<open>Late connections\<close>

definition refused :: "bool \<Rightarrow> 'a conn \<Rightarrow> bool" where
  "refused graceful c \<longleftrightarrow>
     cn_pc c = AccShutdown \<or> graceful \<and> cn_pc c = AccGraceful \<or> conn_phase c = PhDrop"

lemma refused_spawn: "refused g (conn_spawn a)"
  by (simp add: refused_def conn_spawn_def)

lemma refused_abort: "refused g c \<Longrightarrow> refused g (conn_abort c)"
  by (auto simp: refused_def conn_abort_def conn_return_def conn_phase_def split: conn_pc.splits)

lemma refused_conn_step:
  assumes "refused g c" and "if g then is_notified (hi_graceful h) else is_notified (hi_shutdown h)"
  shows "refused g (snd (conn_step api cfg env h c))"
  using assms
  by (cases "cn_pc c")
    (auto simp: refused_def conn_phase_def conn_step_def conn_simps case_prod_beta split: if_splits poll.splits)

lemma refused_not_in_service: "refused g c \<Longrightarrow> \<not> conn_in_service c"
  by (cases "cn_pc c") (auto simp: refused_def conn_in_service_def conn_phase_def)

lemma late_conn_step:
  assumes "sys_step api cfg a s = Some t"
    and "if g then is_notified (hi_graceful (sy_handle s)) else is_notified (hi_shutdown (sy_handle s))"
    and "\<forall>i < length (sy_conns s). n \<le> i \<longrightarrow> refused g (sy_conns s ! i)"
  shows "\<forall>i < length (sy_conns t). n \<le> i \<longrightarrow> refused g (sy_conns t ! i)"
proof (cases a)
  case (ActServe env)
  let ?new = "so_spawn (serve_step api cfg env (sy_handle s) (sy_serve s))"
  have t: "sy_conns t = sy_conns s @ ?new" using assms(1) ActServe by (auto simp: Let_def)
  have new: "\<forall>c \<in> set ?new. refused g c" using spawned_new refused_spawn by metis
  show ?thesis
  proof (intro allI impI)
    fix i assume "i < length (sy_conns t)" "n \<le> i"
    then show "refused g (sy_conns t ! i)"
      using assms(3) new t by (cases "i < length (sy_conns s)") (auto simp: nth_append)
  qed
next
  case (ActConn j env)
  with assms refused_conn_step [OF _ assms(2)] show ?thesis
    by (auto simp: case_prod_beta nth_list_update split: if_splits)
next
  case (ActAbort j)
  with assms show ?thesis by (auto simp: nth_list_update refused_abort split: if_splits)
qed (use assms in \<open>auto split: nat.splits\<close>)

section \<open>Closing the listener\<close>

definition quiet :: "'a serve_env \<Rightarrow> bool" where
  "quiet env \<longleftrightarrow> se_accept env = Pending \<and> \<not> se_backoff env \<and> se_ready env = Pending \<and> se_make env = Pending"

fun stop_rank :: "'a serve_pc \<Rightarrow> nat" where
  "stop_rank (SvOuter l) = 1"
| "stop_rank (SvLoop (LpSpawn a)) = 4"
| "stop_rank (SvLoop (LpAccept w)) = 3"
| "stop_rank (SvLoop l) = 2"
| "stop_rank (SvLoopDone r) = 1"
| "stop_rank pc = 0"

fun serving :: "'a serve_pc \<Rightarrow> bool" where
  "serving (SvOuter l) = True"
| "serving (SvLoop l) = True"
| "serving (SvLoopDone r) = (r = Inr ())"
| "serving (SvWaitEnd w) = True"
| "serving (SvReturned r) = (r = Inr ())"
| "serving _ = False"

lemma quiet_accept:
  "quiet env \<Longrightarrow> accept_step handler (se_accept env) (se_backoff env) w = AoPending w"
  by (cases w) (simp_all add: quiet_def)

lemma stop_rank_serve:
  assumes "serving pc" and "is_notified (hi_shutdown h)" and "quiet env"
  shows "serving (so_pc (serve_step api cfg env h pc)) \<and>
    stop_rank (so_pc (serve_step api cfg env h pc)) \<le> stop_rank pc - 1"
proof (cases pc)
  case (SvLoop l)
  with assms show ?thesis
    by (cases l) (auto simp: quiet_accept [OF assms(3)] split: poll.split, auto simp: quiet_def)
next
  case (SvWaitEnd w)
  then show ?thesis by (cases w) (auto split: option.split)
qed (use assms in \<open>auto split: poll.split sum.split\<close>)

text \<open>The same for the graceful signal, which the loop reads only where it awaits a connection.\<close>

definition idle_listener :: "'a serve_env \<Rightarrow> bool" where
  "idle_listener env \<longleftrightarrow> se_accept env = Pending \<and> \<not> se_backoff env \<and>
     se_ready env = Ready (Inr ()) \<and> se_make env = Ready (Inr ())"

fun loop_rank :: "'a loop_pc \<Rightarrow> nat" where
  "loop_rank (LpPollReady a) = 6"
| "loop_rank (LpMake a) = 5"
| "loop_rank (LpSpawn a) = 4"
| "loop_rank (LpAccept w) = 3"
| "loop_rank (LpGraceful w) = 2"

fun graceful_rank :: "'a serve_pc \<Rightarrow> nat" where
  "graceful_rank (SvOuter l) = Suc (loop_rank l)"
| "graceful_rank (SvLoop l) = loop_rank l"
| "graceful_rank (SvLoopDone r) = 1"
| "graceful_rank pc = 0"

lemma idle_accept:
  "idle_listener env \<Longrightarrow> accept_step handler (se_accept env) (se_backoff env) w = AoPending w"
  by (cases w) (simp_all add: idle_listener_def)

lemma graceful_rank_serve:
  assumes "serving pc" and "is_notified (hi_graceful h)" and "idle_listener env"
  shows "serving (so_pc (serve_step api cfg env h pc)) \<and>
    graceful_rank (so_pc (serve_step api cfg env h pc)) \<le> graceful_rank pc - 1"
proof (cases pc)
  case (SvLoop l)
  with assms show ?thesis
    by (cases l) (auto simp: idle_accept [OF assms(3)] split: poll.split, auto simp: idle_listener_def)
next
  case (SvWaitEnd w)
  then show ?thesis by (cases w) (auto split: option.split)
qed (use assms in \<open>auto split: poll.split sum.split\<close>)

text \<open>
  The scheme of both: while a latch is notified, every poll of \<open>serve\<close> brings it closer to the
  end of the loop, and nobody else moves it.
\<close>

lemma run_serve_rank:
  assumes "sys_run api cfg acts s = Some t" and "I (sy_handle s)" and "serving (sy_serve s)"
    and "rank (sy_serve s) \<le> count_if moves_serve acts"
    and keep: "\<And>h h'. latches_grow h h' \<Longrightarrow> I h \<Longrightarrow> I h'"
    and move: "\<And>env h pc. ActServe env \<in> set acts \<Longrightarrow> serving pc \<Longrightarrow> I h \<Longrightarrow>
      serving (so_pc (serve_step api cfg env h pc)) \<and>
      rank (so_pc (serve_step api cfg env h pc)) \<le> rank pc - (1 :: nat)"
  shows "serving (sy_serve t) \<and> rank (sy_serve t) = 0"
proof -
  let ?J = "\<lambda>u. I (sy_handle u) \<and> serving (sy_serve u)"
  have "?J t \<and> rank (sy_serve t) = 0"
  proof (rule sys_run_rank [where J = ?J and rank = "\<lambda>u. rank (sy_serve u)", OF assms(1) _ assms(4)])
    show "?J s" using assms(2,3) by simp
    fix a u v
    assume a: "a \<in> set acts" and u: "?J u" and step: "sys_step api cfg a u = Some v"
    have "serving (sy_serve v) \<and> rank (sy_serve v) \<le> rank (sy_serve u) - (if moves_serve a then 1 else 0)"
    proof (cases "moves_serve a")
      case True
      then obtain env where "a = ActServe env" by (auto simp: moves_serve_def)
      with move [of env "sy_serve u" "sy_handle u"] a u step True show ?thesis by (auto simp: Let_def)
    next
      case False
      with sys_step_not_serve [OF step False] u show ?thesis by simp
    qed
    with u keep [OF sys_step_grow [OF step]]
    show "?J v \<and> rank (sy_serve v) \<le> rank (sy_serve u) - (if moves_serve a then 1 else 0)" by blast
  qed
  then show ?thesis by blast
qed

lemma run_shutdown_closes:
  assumes "sys_run api cfg acts s = Some t" and "is_notified (hi_shutdown (sy_handle s))"
    and "\<exists>l. sy_serve s = SvOuter l \<or> sy_serve s = SvLoop l"
    and "\<forall>env. ActServe env \<in> set acts \<longrightarrow> quiet env" and "4 \<le> count_if moves_serve acts"
  shows "\<not> listener_open (sy_serve t) \<and>
    (sy_serve t = SvReturned (Inr ()) \<or> (\<exists>w. sy_serve t = SvWaitEnd w))"
proof -
  have "stop_rank pc \<le> 4" for pc :: "'a serve_pc"
    by (cases pc rule: stop_rank.cases) simp_all
  then have "stop_rank (sy_serve s) \<le> count_if moves_serve acts" using assms(5) order_trans by blast
  then have "serving (sy_serve t) \<and> stop_rank (sy_serve t) = 0"
  proof (rule run_serve_rank [where I = "\<lambda>h. is_notified (hi_shutdown h)", OF assms(1,2), rotated])
    show "serving (sy_serve s)" using assms(3) by auto
    show "serving (so_pc (serve_step api cfg env h pc)) \<and>
        stop_rank (so_pc (serve_step api cfg env h pc)) \<le> stop_rank pc - 1"
      if "ActServe env \<in> set acts" "serving pc" "is_notified (hi_shutdown h)" for env h pc
      using stop_rank_serve that assms(4) by blast
  qed (simp add: latches_grow_def)
  then show ?thesis by (cases "sy_serve t" rule: stop_rank.cases) simp_all
qed

lemma run_graceful_closes:
  assumes "sys_run api cfg acts s = Some t" and "is_notified (hi_graceful (sy_handle s))"
    and "\<exists>l. sy_serve s = SvOuter l \<or> sy_serve s = SvLoop l"
    and "\<forall>env. ActServe env \<in> set acts \<longrightarrow> idle_listener env" and "7 \<le> count_if moves_serve acts"
  shows "sy_serve t = SvReturned (Inr ()) \<or> (\<exists>w. sy_serve t = SvWaitEnd w)"
proof -
  have "loop_rank l \<le> 6" for l :: "'a loop_pc" by (cases l) simp_all
  then have "graceful_rank pc \<le> 7" for pc :: "'a serve_pc"
    by (cases pc) (auto intro: le_SucI order_trans)
  then have "graceful_rank (sy_serve s) \<le> count_if moves_serve acts" using assms(5) order_trans by blast
  then have "serving (sy_serve t) \<and> graceful_rank (sy_serve t) = 0"
  proof (rule run_serve_rank [where I = "\<lambda>h. is_notified (hi_graceful h)", OF assms(1,2), rotated])
    show "serving (sy_serve s)" using assms(3) by auto
    show "serving (so_pc (serve_step api cfg env h pc)) \<and>
        graceful_rank (so_pc (serve_step api cfg env h pc)) \<le> graceful_rank pc - 1"
      if "ActServe env \<in> set acts" "serving pc" "is_notified (hi_graceful h)" for env h pc
      using graceful_rank_serve that assms(4) by blast
  qed (simp add: latches_grow_def)
  moreover have "loop_rank l \<noteq> 0" for l :: "'a loop_pc" by (cases l) simp_all
  ultimately show ?thesis by (cases "sy_serve t" rule: graceful_rank.cases) simp_all
qed

section \<open>The deadline\<close>

fun deadline_rank :: "'a serve_pc \<Rightarrow> nat" where
  "deadline_rank (SvWaitEnd (WeTimedEnd d)) = 3"
| "deadline_rank (SvWaitEnd (WeSleep d)) = 2"
| "deadline_rank (SvWaitEnd w) = 1"
| "deadline_rank _ = 0"

definition on_deadline :: "('a, 'n) sys \<Rightarrow> bool" where
  "on_deadline s \<longleftrightarrow> (case sy_serve s of
     SvWaitEnd w \<Rightarrow> (\<exists>d. w = WeSleep d \<or> w = WeTimedEnd d) \<or> w = WeShutdown
   | SvReturned r \<Rightarrow> r = Inr () \<and>
       (is_notified (hi_conn_end (sy_handle s)) \<or> is_notified (hi_shutdown (sy_handle s)))
   | _ \<Rightarrow> False)"

lemma on_deadline_serve:
  assumes "on_deadline s" and "sys_step api cfg (ActServe env) s = Some t" and "se_sleep env"
  shows "on_deadline t \<and> deadline_rank (sy_serve t) \<le> deadline_rank (sy_serve s) - 1"
proof (cases "sy_serve s")
  case (SvWaitEnd w)
  with assms show ?thesis
    by (cases w) (auto simp: on_deadline_def Let_def case_prod_beta handle_simps split: if_splits)
qed (use assms in \<open>auto simp: on_deadline_def Let_def\<close>)

lemma on_deadline_others:
  assumes "on_deadline s" and "sys_step api cfg a s = Some t" and "\<not> moves_serve a"
  shows "on_deadline t"
  using assms sys_step_not_serve [OF assms(2,3)] sys_step_grow [OF assms(2)]
  by (auto simp: on_deadline_def latches_grow_def split: serve_pc.splits)

text \<open>The invariant of calm runs, for a \<open>serve\<close> that has returned.\<close>

lemma calm_return_idle:
  assumes "calm_reachable api cfg s" and "length (sy_conns s) < 2 ^ 64"
    and "sy_serve s = SvReturned (Inr ())" and "\<not> is_notified (hi_shutdown (sy_handle s))"
  shows "is_notified (hi_graceful (sy_handle s))" and "\<forall>c \<in> set (sy_conns s). \<not> conn_in_service c"
  using calm_drain.reach_inv2 [OF assms(1)] assms(2-4)
  by (simp_all add: ends_soundly_def bounded_def graceful_called_def idle_def)

section \<open>The pace of the listener's errors\<close>

fun loop_backs_off :: "'a loop_pc \<Rightarrow> bool" where
  "loop_backs_off (LpAccept w) = (w = AfBackoff)"
| "loop_backs_off (LpGraceful w) = (w = AfBackoff)"
| "loop_backs_off l = False"

text \<open>Where \<open>serve\<close> cannot report an error of the listener before a sleep has elapsed.\<close>

fun backs_off :: "'a serve_pc \<Rightarrow> bool" where
  "backs_off (SvOuter l) = loop_backs_off l"
| "backs_off (SvLoop l) = loop_backs_off l"
| "backs_off (SvLoopDone r) = True"
| "backs_off (SvWaitEnd w) = True"
| "backs_off (SvReturned r) = True"
| "backs_off pc = False"

text \<open>The entries of the log that come from the listener carry no address.\<close>

definition listener_errors :: "'a handler_log \<Rightarrow> nat" where
  "listener_errors log = count_if (\<lambda>x. fst x = None) log"

definition wakes_backoff :: "'a action \<Rightarrow> bool" where
  "wakes_backoff a \<longleftrightarrow> (\<exists>env. a = ActServe env \<and> se_backoff env)"

lemma serve_step_errors:
  "listener_errors (so_log (serve_step api cfg env h pc)) + (if backs_off pc then 1 else 0) \<le>
   (if se_backoff env then 1 else 0) + (if backs_off (so_pc (serve_step api cfg env h pc)) then 1 else 0)"
proof (cases pc)
  case (SvLoop l)
  show ?thesis
  proof (cases l)
    case (LpAccept w)
    note defs = SvLoop LpAccept listener_errors_def call_handler_def
    show ?thesis
    proof (cases "se_accept env")
      case Pending
      then show ?thesis by (cases w) (auto simp: defs)
    next
      case (Ready r)
      then show ?thesis by (cases w; cases r) (auto simp: defs split: prod.split)
    qed
  qed (use SvLoop in \<open>auto simp: listener_errors_def call_handler_def split: poll.split sum.split\<close>)
qed (auto simp: listener_errors_def split: serve_splits sum.split after_bind.split)

lemma listener_errors_append [simp]:
  "listener_errors (xs @ ys) = listener_errors xs + listener_errors ys"
  by (simp add: listener_errors_def)

lemma sys_step_errors:
  assumes "sys_step api cfg a s = Some t"
  shows "listener_errors (sy_log t) + (if backs_off (sy_serve s) then 1 else 0) \<le>
    listener_errors (sy_log s) + (if wakes_backoff a then 1 else 0) + (if backs_off (sy_serve t) then 1 else 0)"
proof (cases a)
  case (ActServe env)
  with assms serve_step_errors [of api cfg env "sy_handle s" "sy_serve s"] show ?thesis
    by (auto simp: Let_def wakes_backoff_def)
qed (use assms in \<open>auto simp: wakes_backoff_def case_prod_beta split: if_splits nat.splits\<close>)

lemma sys_run_errors:
  "sys_run api cfg acts s = Some t \<Longrightarrow>
   listener_errors (sy_log t) + (if backs_off (sy_serve s) then 1 else 0) \<le>
   listener_errors (sy_log s) + count_if wakes_backoff acts + (if backs_off (sy_serve t) then 1 else 0)"
proof (induction acts arbitrary: s)
  case (Cons a acts)
  from Cons.prems obtain u where u: "sys_step api cfg a s = Some u" "sys_run api cfg acts u = Some t"
    by (auto split: option.splits)
  from sys_step_errors [OF u(1)] Cons.IH [OF u(2)] show ?case by (auto split: if_splits)
qed simp

section \<open>Concrete schedules\<close>

definition sv_quiet :: "nat serve_env" where
  "sv_quiet = \<lparr>se_bind = Pending, se_local_addr = Inr 80, se_accept = Pending, se_backoff = False,
     se_ready = Pending, se_make = Pending, se_sleep = False\<rparr>"

definition sv_ready :: "nat \<Rightarrow> nat serve_env" where
  "sv_ready remote = sv_quiet\<lparr>se_bind := Ready (Inr ()), se_accept := Ready (Inr ((), remote)),
     se_ready := Ready (Inr ()), se_make := Ready (Inr ())\<rparr>"

definition env_fails :: conn_env where
  "env_fails = env_pending\<lparr>ce_accept := Ready (Inl (IoError Other ''handshake failed''))\<rparr>"

definition env_serves :: conn_env where
  "env_serves = env_accepts\<lparr>ce_serve := True\<rparr>"

text \<open>Bind and start to listen; accept one connection and spawn its task.\<close>

definition sc_listen :: "nat action list" where
  "sc_listen = replicate 4 (ActServe (sv_ready 1))"

definition sc_accept :: "nat \<Rightarrow> nat action list" where
  "sc_accept remote = replicate 4 (ActServe (sv_ready remote))"

definition sc_graceful :: "duration option \<Rightarrow> nat action list" where
  "sc_graceful d = [ActGracefulDur d, ActGracefulNotify]"

text \<open>
  Connection 0 fails its handshake and counts the connections down to 0; before it reads the
  graceful latch, connection 1 is accepted and served and a graceful shutdown is signalled.
\<close>

definition sc_race :: "nat action list" where
  "sc_race =
     sc_listen @ sc_accept 1 @ replicate 4 (ActConn 0 env_fails) @
     sc_accept 2 @ replicate 3 (ActConn 1 env_accepts) @ sc_graceful None @
     replicate 2 (ActConn 0 env_pending) @ replicate 6 (ActServe sv_quiet)"

text \<open>A graceful shutdown with one connection in service, which then completes.\<close>

definition sc_drain :: "nat action list" where
  "sc_drain = sc_listen @ sc_accept 1 @ replicate 3 (ActConn 0 env_accepts) @ sc_graceful (Some 7) @
     replicate 5 (ActServe sv_quiet)"

definition sc_finish :: "nat action list" where
  "sc_finish = replicate 9 (ActConn 0 env_serves)"

lemma toy_latch_simps [simp]:
  "is_notified (notify_waiters api l)"
  "\<not> is_notified (notify_once_default api)"
  by (simp_all add: notify_waiters_def wake_waiters_def store_notified_def is_notified_def notify_once_default_def)

lemma replicate_numeral: "replicate (numeral k) x = x # replicate (pred_numeral k) x"
  by (simp add: numeral_eq_Suc)

lemmas run_simps =
  sys_start_def handle_new_def handle_defs count_fetch_sub_def conn_step_def conn_spawn_def conn_simps
  wait_shutdown_def wait_graceful_shutdown_def call_handler_def io_other_def
  sc_listen_def sc_accept_def sc_graceful_def sv_ready_def sv_quiet_def
  env_fails_def env_accepts_def env_pending_def env_serves_def toy_config_def replicate_numeral serve_goto_def

fun calm_run ::
  "'n notify_api \<Rightarrow> conn_config \<Rightarrow> 'a action list \<Rightarrow> ('a, 'n) sys \<Rightarrow> ('a, 'n) sys option"
where
  "calm_run api cfg [] s = Some s"
| "calm_run api cfg (a # acts) s =
     (if calm a s
      then (case sys_step api cfg a s of None \<Rightarrow> None | Some t \<Rightarrow> calm_run api cfg acts t)
      else None)"

lemma calm_run_reachable:
  "calm_reachable api cfg s \<Longrightarrow> calm_run api cfg acts s = Some t \<Longrightarrow> calm_reachable api cfg t"
proof (induction acts arbitrary: s)
  case (Cons a acts)
  from Cons.prems(2) obtain u where "calm a s" "sys_step api cfg a s = Some u" "calm_run api cfg acts u = Some t"
    by (auto split: option.splits if_splits)
  then show ?case using Cons.IH [OF reach_step [OF Cons.prems(1) calm_moves]] by blast
qed simp

definition drain_state :: "(nat, toy_notify) sys" where
  "drain_state = the (sys_run toy_api toy_config sc_drain (sys_start toy_api))"

lemma drain_state_run:
  "sys_run toy_api toy_config sc_drain (sys_start toy_api) = Some drain_state"
  by (simp add: drain_state_def sc_drain_def run_simps)

lemma drain_state_simps:
  "sy_serve drain_state = SvWaitEnd (WeSleep 7)" "length (sy_conns drain_state) = 1"
  "sys_reachable toy_api toy_config drain_state"
  "is_notified (hi_graceful (sy_handle drain_state))"
  "hi_conn_count (sy_handle drain_state) = 1"
  by (simp_all add: sys_start_reachable [OF drain_state_run])
    (simp_all add: drain_state_def sc_drain_def run_simps)

section \<open>Properties\<close>

text \<open>
  C9. The connection counter is exact: in every reachable state (with fewer than \<open>2 ^ 64\<close>
  connections ever accepted) \<open>connection_count\<close> is the number of tasks whose watcher is
  alive, and no watcher's drop has underflowed it.
\<close>

theorem connection_count_exact:
  assumes "sys_reachable api cfg s" and "length (sy_conns s) < 2 ^ 64"
  shows "unat (connection_count (sy_handle s)) = count_if conn_live (sy_conns s) \<and>
    (\<forall>c \<in> set (sy_conns s). cn_pc c \<noteq> CpDrop DpOverflow)"
proof -
  from sys_drain_inv [OF assms(1)] have inv: "counted cfg s" "draining s" by auto
  have "count_if conn_live (sy_conns s) < 2 ^ 64"
    using count_if_le_length [of conn_live "sy_conns s"] assms(2) by simp
  with inv(1) have "unat (connection_count (sy_handle s)) = count_if conn_live (sy_conns s)"
    by (simp add: counted_def unat_of_nat take_bit_nat_eq_self_iff)
  with inv(2) assms(2) show ?thesis by (simp add: draining_def bounded_def at_drop_def)
qed

theorem connection_count_exact_witness:
  "unat (connection_count (sy_handle drain_state)) = count_if conn_live (sy_conns drain_state)"
  using connection_count_exact [OF drain_state_simps(3)] by (simp add: drain_state_simps)

text \<open>
  C1. A graceful shutdown returns only when the server is idle: in every calm run, once
  \<open>serve\<close> has returned \<open>Ok\<close> and \<open>shutdown\<close> was not signalled, a graceful shutdown was
  signalled and no connection is in service any more.
\<close>

theorem graceful_return_is_idle:
  assumes "calm_reachable api cfg s" and "length (sy_conns s) < 2 ^ 64"
    and "sy_serve s = SvReturned (Inr ())" and "\<not> is_notified (hi_shutdown (sy_handle s))"
  shows "is_notified (hi_graceful (sy_handle s)) \<and> (\<forall>c \<in> set (sy_conns s). \<not> conn_in_service c)"
  using calm_return_idle [OF assms] by blast

theorem graceful_return_is_idle_witness:
  "\<exists>s. calm_run toy_api toy_config (sc_drain @ sc_finish @ replicate 2 (ActServe sv_quiet)) (sys_start toy_api) = Some s \<and>
     sy_serve s = SvReturned (Inr ()) \<and> length (sy_conns s) = 1 \<and>
     (\<forall>c \<in> set (sy_conns s). \<not> conn_in_service c)"
proof -
  let ?r = "calm_run toy_api toy_config (sc_drain @ sc_finish @ replicate 2 (ActServe sv_quiet)) (sys_start toy_api)"
  obtain s where run: "?r = Some s" and ret: "sy_serve s = SvReturned (Inr ())"
    and len: "length (sy_conns s) = 1" and sh: "\<not> is_notified (hi_shutdown (sy_handle s))"
    by (simp add: sc_drain_def sc_finish_def run_simps calm_def at_drop_def)
  have "calm_reachable toy_api toy_config s"
    using calm_run_reachable [OF reach_start run] by simp
  from graceful_return_is_idle [OF this _ ret sh] run ret len show ?thesis by simp
qed

text \<open>
  C2. Without calmness that fails: there is a run in which \<open>serve\<close> returns \<open>Ok\<close> from a
  graceful shutdown while a connection is in service. A watcher that has counted down to 0
  reads the graceful latch only after another connection was accepted and a graceful
  shutdown signalled, and then notifies the end of all connections from its stale count.
\<close>

theorem early_return_race:
  "\<exists>s. sys_run toy_api toy_config sc_race (sys_start toy_api) = Some s \<and>
    sy_serve s = SvReturned (Inr ()) \<and> \<not> is_notified (hi_shutdown (sy_handle s)) \<and>
    is_notified (hi_graceful (sy_handle s)) \<and> connection_count (sy_handle s) = 1 \<and>
    conn_in_service (sy_conns s ! 1)"
  by (simp add: sc_race_def run_simps conn_in_service_def connection_count_def)

text \<open>
  C4. A graceful shutdown completes: from any reachable state in which \<open>serve\<close> waits for the
  connections, in any interleaving with the user and the other tasks, once every task has
  been polled nine times with Hyper completing and then \<open>serve\<close> three times, \<open>serve\<close> has
  returned \<open>Ok\<close>, every task has ended and the counter is 0. No wakeup of the drain is lost.
\<close>

theorem graceful_shutdown_completes:
  assumes "sys_reachable api cfg s" and "sy_serve s = SvWaitEnd w" and "length (sy_conns s) < 2 ^ 64"
    and "sys_run api cfg acts s = Some u" and "sys_run api cfg acts' u = Some t"
    and "\<forall>i < length (sy_conns s). 9 \<le> count_if (moves_conn i) acts"
    and "\<forall>i env. ActConn i env \<in> set acts \<longrightarrow> ce_serve env"
    and "3 \<le> count_if moves_serve acts'"
  shows "sy_serve t = SvReturned (Inr ()) \<and> (\<forall>c \<in> set (sy_conns u). conn_done c) \<and>
    connection_count (sy_handle u) = 0"
proof -
  have g: "is_notified (hi_graceful (sy_handle s))"
    using sys_drain_inv [OF assms(1)] assms(2) by (simp add: draining_def)
  have u: "sy_serve u = SvReturned (Inr ()) \<or> (\<exists>w. sy_serve u = SvWaitEnd w)"
    "length (sy_conns u) = length (sy_conns s)"
    using no_spawn_while_waiting [OF assms(4)] assms(2) by auto
  have t: "length (sy_conns t) = length (sy_conns s)"
    using no_spawn_while_waiting [OF assms(5) u(1)] u(2) by simp
  have reach: "sys_reachable api cfg u" by (rule sys_run_reachable [OF assms(1,4)])
  have ended: "\<forall>c \<in> set (sy_conns u). conn_done c"
    using run_graceful_ends [OF assms(4,1) _ _ g] assms(3,6,7) u(2)
    by (auto simp: bounded_def in_set_conv_nth)
  with u(1) have "drained u" by (simp add: drained_def)
  from drained_returns [OF assms(5) reach _ this assms(8)] assms(3) t
  have "sy_serve t = SvReturned (Inr ())" by (simp add: bounded_def)
  moreover have "connection_count (sy_handle u) = 0"
    using counted_zero_iff [of cfg u] sys_drain_inv [OF reach] assms(3) u(2) ended done_owes_nothing
    by (auto simp: connection_count_def bounded_def)
  ultimately show ?thesis using ended by blast
qed

theorem graceful_shutdown_completes_witness:
  "\<exists>u t. sys_run toy_api toy_config sc_finish drain_state = Some u \<and>
     sys_run toy_api toy_config (replicate 3 (ActServe sv_quiet)) u = Some t \<and>
     sy_serve t = SvReturned (Inr ()) \<and> connection_count (sy_handle u) = 0"
proof -
  obtain u t where run: "sys_run toy_api toy_config sc_finish drain_state = Some u"
      "sys_run toy_api toy_config (replicate 3 (ActServe sv_quiet)) u = Some t"
    by (simp add: drain_state_def sc_drain_def sc_finish_def run_simps)
  have "9 \<le> count_if (moves_conn 0) sc_finish" "3 \<le> count_if moves_serve (replicate 3 (ActServe sv_quiet))"
    "\<forall>i env. ActConn i env \<in> set sc_finish \<longrightarrow> ce_serve env"
    by (auto simp: sc_finish_def replicate_numeral moves_conn_def moves_serve_def env_serves_def)
  with graceful_shutdown_completes [OF drain_state_simps(3,1) _ run] run
  show ?thesis by (auto simp: drain_state_simps less_Suc_eq)
qed

text \<open>
  C8. Shutdown completes: when shutdown is signalled while \<open>serve\<close> waits for the connections,
  eight polls of every task and then three of \<open>serve\<close>, in any interleaving, end it, even if
  the acceptors, Hyper and the timers stay pending for ever.
\<close>

theorem shutdown_completes:
  assumes "sys_reachable api cfg s" and "sy_serve s = SvWaitEnd w" and "length (sy_conns s) < 2 ^ 64"
    and "is_notified (hi_shutdown (sy_handle s))"
    and "sys_run api cfg acts s = Some u" and "sys_run api cfg acts' u = Some t"
    and "\<forall>i < length (sy_conns s). 8 \<le> count_if (moves_conn i) acts"
    and "3 \<le> count_if moves_serve acts'"
  shows "sy_serve t = SvReturned (Inr ()) \<and> (\<forall>c \<in> set (sy_conns u). conn_done c)"
proof -
  have u: "sy_serve u = SvReturned (Inr ()) \<or> (\<exists>w. sy_serve u = SvWaitEnd w)"
    "length (sy_conns u) = length (sy_conns s)"
    using no_spawn_while_waiting [OF assms(5)] assms(2) by auto
  have t: "length (sy_conns t) = length (sy_conns s)"
    using no_spawn_while_waiting [OF assms(6) u(1)] u(2) by simp
  have ended: "\<forall>c \<in> set (sy_conns u). conn_done c"
    using run_shutdown_ends [OF assms(5,1) _ _ assms(4)] assms(3,7) u(2)
    by (auto simp: bounded_def in_set_conv_nth)
  with u(1) have "drained u" by (simp add: drained_def)
  from drained_returns [OF assms(6) sys_run_reachable [OF assms(1,5)] _ this assms(8)] assms(3) t ended
  show ?thesis by (simp add: bounded_def)
qed

definition shut_state :: "(nat, toy_notify) sys" where
  "shut_state = the (sys_step toy_api toy_config ActShutdown drain_state)"

theorem shutdown_completes_witness:
  "\<exists>u t. sys_run toy_api toy_config (replicate 8 (ActConn 0 env_pending)) shut_state = Some u \<and>
     sys_run toy_api toy_config (replicate 3 (ActServe sv_quiet)) u = Some t \<and>
     sy_serve t = SvReturned (Inr ())"
proof -
  have s: "sys_reachable toy_api toy_config shut_state" "sy_serve shut_state = SvWaitEnd (WeSleep 7)"
    "length (sy_conns shut_state) = 1" "is_notified (hi_shutdown (sy_handle shut_state))"
    using sys_reach_step [OF drain_state_simps(3), of ActShutdown]
    by (simp_all add: shut_state_def drain_state_simps handle_shutdown_def)
  obtain u t where run: "sys_run toy_api toy_config (replicate 8 (ActConn 0 env_pending)) shut_state = Some u"
      "sys_run toy_api toy_config (replicate 3 (ActServe sv_quiet)) u = Some t"
    by (simp add: shut_state_def drain_state_def sc_drain_def run_simps)
  have "8 \<le> count_if (moves_conn 0) (replicate 8 (ActConn 0 env_pending :: nat action))"
    "3 \<le> count_if moves_serve (replicate 3 (ActServe sv_quiet))"
    by (simp_all add: replicate_numeral moves_conn_def moves_serve_def)
  with shutdown_completes [OF s(1,2) _ s(4) run] run s(3)
  show ?thesis by (auto simp: less_Suc_eq)
qed

text \<open>
  C20. Shutdown ends a task wherever it stands: from any reachable state in which shutdown was
  signalled, whatever \<open>serve\<close>, the other tasks and the users do meanwhile and even if the acceptor,
  Hyper and the timer of the task stay pending for ever, eight steps of the task end it, with its
  stream closed and its watcher dropped (as long as fewer than \<open>2 ^ 64\<close> connections are accepted).
\<close>

theorem shutdown_ends_task:
  assumes "sys_reachable api cfg s" and "is_notified (hi_shutdown (sy_handle s))"
    and "sys_run api cfg acts s = Some t" and "length (sy_conns t) < 2 ^ 64"
    and "i < length (sy_conns s)" and "8 \<le> count_if (moves_conn i) acts"
  shows "conn_done (sy_conns t ! i) \<and> \<not> cn_stream_open (sy_conns t ! i) \<and> \<not> conn_live (sy_conns t ! i)"
proof -
  have ended: "conn_done (sy_conns t ! i)"
    using run_shutdown_ends [OF assms(3,1) _ assms(5,2,6)] assms(4) by (simp add: bounded_def)
  from sys_drain_inv [OF sys_run_reachable [OF assms(1,3)]] sys_run_conns_length [OF assms(3)] assms(5)
  have "conn_wf cfg (sy_conns t ! i)" by (auto simp: counted_def)
  with ended show ?thesis by (auto simp: conn_wf_def conn_done_def conn_phase_def conn_live_def)
qed

theorem shutdown_ends_task_witness:
  "\<exists>s t. sys_run toy_api toy_config (sc_listen @ sc_accept 1 @ [ActConn 0 env_accepts, ActShutdown]) (sys_start toy_api) = Some s \<and>
     sys_run toy_api toy_config (ActServe sv_quiet # replicate 8 (ActConn 0 env_pending)) s = Some t \<and>
     conn_done (sy_conns t ! 0) \<and> \<not> cn_stream_open (sy_conns t ! 0)"
proof -
  let ?acts = "ActServe sv_quiet # replicate 8 (ActConn 0 env_pending)"
  obtain s t where run: "sys_run toy_api toy_config (sc_listen @ sc_accept 1 @ [ActConn 0 env_accepts, ActShutdown])
        (sys_start toy_api) = Some s" "sys_run toy_api toy_config ?acts s = Some t"
    and s: "is_notified (hi_shutdown (sy_handle s))" "length (sy_conns s) = 1" "length (sy_conns t) = 1"
    by (simp add: run_simps)
  have "8 \<le> count_if (moves_conn 0) ?acts" by (simp add: replicate_numeral moves_conn_def)
  from shutdown_ends_task [OF sys_start_reachable [OF run(1)] s(1) run(2) _ _ this] run s show ?thesis by simp
qed

text \<open>
  C25. A connection that is accepted after a graceful shutdown or a shutdown was signalled is
  never in service, in any interleaving: its task is about to read a latch, or dropping.
\<close>

theorem late_connections_refused:
  assumes "sys_run api cfg acts s = Some t"
    and "is_notified (hi_graceful (sy_handle s)) \<or> is_notified (hi_shutdown (sy_handle s))"
    and "length (sy_conns s) \<le> i" and "i < length (sy_conns t)"
  shows "\<not> conn_in_service (sy_conns t ! i)"
proof -
  let ?n = "length (sy_conns s)" and ?g = "is_notified (hi_graceful (sy_handle s))"
  let ?on = "\<lambda>h. if ?g then is_notified (hi_graceful h) else is_notified (hi_shutdown h)"
  let ?J = "\<lambda>u. ?on (sy_handle u) \<and> (\<forall>i < length (sy_conns u). ?n \<le> i \<longrightarrow> refused ?g (sy_conns u ! i))"
  have "?J t"
  proof (rule sys_run_inv [where J = ?J, OF assms(1)])
    show "?J s" using assms(2) by auto
    fix a u v
    assume "?J u" and step: "sys_step api cfg a u = Some v"
    with late_conn_step [OF step, of ?g ?n] sys_step_grow [OF step]
    show "?J v" by (auto simp: latches_grow_def)
  qed
  with assms(3,4) show ?thesis using refused_not_in_service by blast
qed

theorem late_connections_refused_witness:
  "\<exists>s t. sys_run toy_api toy_config (sc_listen @ sc_graceful None) (sys_start toy_api) = Some s \<and>
     sys_run toy_api toy_config (sc_accept 3 @ [ActConn 0 env_accepts, ActConn 0 env_accepts]) s = Some t \<and>
     length (sy_conns s) = 0 \<and> length (sy_conns t) = 1 \<and> \<not> conn_in_service (sy_conns t ! 0)"
proof -
  obtain s where s: "sys_run toy_api toy_config (sc_listen @ sc_graceful None) (sys_start toy_api) = Some s"
      "is_notified (hi_graceful (sy_handle s))" "length (sy_conns s) = 0"
    and run: "\<exists>t. sys_run toy_api toy_config (sc_accept 3 @ [ActConn 0 env_accepts, ActConn 0 env_accepts]) s = Some t \<and>
       length (sy_conns t) = 1"
    by (simp add: run_simps)
  from run obtain t where t: "sys_run toy_api toy_config (sc_accept 3 @ [ActConn 0 env_accepts, ActConn 0 env_accepts]) s = Some t"
      "length (sy_conns t) = 1" by blast
  from late_connections_refused [OF t(1), of 0] s t show ?thesis by auto
qed

text \<open>
  \<open>listening\<close> answers once and for all: in every reachable state in which its latch lets a
  waiter through, whatever runs before the waiter reads the address, it reads the address
  that was published then; and no connection exists before the address is published.
\<close>

theorem listening_answer_stable:
  assumes "sys_reachable api cfg s" and "sys_run api cfg acts s = Some t"
  shows "(listening_step LiWait (sy_handle s) = LiRead \<longrightarrow>
      listening_step LiRead (sy_handle t) = LiDone (hi_addr (sy_handle s))) \<and>
    (sy_conns s \<noteq> [] \<longrightarrow> listening_step LiWait (sy_handle s) = LiRead)"
proof -
  have pub: "published s" by (rule publish.reach_inv [OF assms(1)])
  have "hi_addr (sy_handle t) = hi_addr (sy_handle s)" if "is_notified (hi_addr_notify (sy_handle s))"
  proof -
    let ?J = "\<lambda>u. \<not> before_address (sy_serve u) \<and> hi_addr (sy_handle u) = hi_addr (sy_handle s)"
    have "?J t"
      by (rule sys_run_inv [where J = ?J, OF assms(2)])
        (use pub that in \<open>auto simp: published_def dest: sys_step_addr\<close>)
    then show ?thesis by blast
  qed
  with pub show ?thesis by (auto simp: published_def)
qed

theorem listening_answer_stable_witness:
  "\<exists>s t. sys_run toy_api toy_config (sc_listen @ sc_accept 1) (sys_start toy_api) = Some s \<and>
     sys_run toy_api toy_config [ActShutdown, ActServe sv_quiet] s = Some t \<and>
     listening_step LiRead (sy_handle t) = LiDone (Some 80)"
proof -
  let ?run = "sys_run toy_api toy_config (sc_listen @ sc_accept 1) (sys_start toy_api)"
  obtain s where s: "?run = Some s" "hi_addr (sy_handle s) = Some 80" "sy_conns s \<noteq> []"
    by (simp add: run_simps)
  moreover from s(1) obtain t where t: "sys_run toy_api toy_config [ActShutdown, ActServe sv_quiet] s = Some t"
    by (simp add: Let_def)
  ultimately show ?thesis
    using listening_answer_stable [OF sys_start_reachable [OF s(1)] t] by simp
qed

text \<open>
  C31. Where the errors of \<open>serve\<close> come from: if a run makes \<open>serve\<close> return an error, then in one
  of its steps either binding failed, with that very error, no connection was ever accepted and
  \<open>listening\<close> answers \<open>None\<close>; or, after a connection was accepted, \<open>poll_ready\<close> of the make service
  failed, and the error is its error as one of kind \<open>Other\<close>. The errors of the listener, of the
  make service's call and of the connections never end \<open>serve\<close>.
\<close>

theorem serve_error_origin:
  assumes "sys_run api cfg acts (sys_start api) = Some s" and "sy_serve s = SvReturned (Inl e)"
  shows "\<exists>before env after u. acts = before @ ActServe env # after \<and>
    sys_run api cfg before (sys_start api) = Some u \<and>
    (sy_serve u = SvBind \<and> se_bind env = Ready (Inl e) \<and> sy_conns s = [] \<and>
       listening_step (listening_step LiWait (sy_handle s)) (sy_handle s) = LiDone None \<or>
     (\<exists>a msg. sy_serve u = SvLoop (LpPollReady a) \<and> se_ready env = Ready (Inl msg) \<and> e = io_other msg))"
proof -
  have known: "origin_known api cfg acts s" by (rule run_origin [OF assms(1)])
  have pub: "published s" using publish.reach_inv [OF sys_start_reachable [OF assms(1)]] .
  from known assms(2) consider (ready) "happened api cfg ready_failed acts e"
    | (bind) "happened api cfg bind_failed acts e" "sy_conns s = []" "hi_addr (sy_handle s) = None"
    by (auto simp: origin_known_def)
  then show ?thesis
  proof cases
    case ready
    then show ?thesis unfolding happened_def ready_failed_def by blast
  next
    case bind
    have "listening_step (listening_step LiWait (sy_handle s)) (sy_handle s) = LiDone None"
      using bind(3) pub assms(2) by (simp add: published_def)
    with bind show ?thesis unfolding happened_def bind_failed_def by blast
  qed
qed

definition sv_unready :: "nat serve_env" where
  "sv_unready = sv_quiet\<lparr>se_ready := Ready (Inl ''overloaded'')\<rparr>"

theorem serve_error_origin_witness:
  "\<exists>s before env after u. sys_run toy_api toy_config (sc_listen @ [ActServe (sv_ready 1), ActServe sv_unready, ActServe sv_quiet])
       (sys_start toy_api) = Some s \<and> sy_serve s = SvReturned (Inl (io_other ''overloaded'')) \<and>
     sc_listen @ [ActServe (sv_ready 1), ActServe sv_unready, ActServe sv_quiet] = before @ ActServe env # after \<and>
     sys_run toy_api toy_config before (sys_start toy_api) = Some u \<and> se_ready env = Ready (Inl ''overloaded'')"
proof -
  let ?acts = "sc_listen @ [ActServe (sv_ready 1), ActServe sv_unready, ActServe sv_quiet]"
  obtain s where s: "sys_run toy_api toy_config ?acts (sys_start toy_api) = Some s"
      "sy_serve s = SvReturned (Inl (io_other ''overloaded''))" "sy_conns s = []" "hi_addr (sy_handle s) = Some 80"
    by (simp add: run_simps sv_unready_def)
  have "listening_step (listening_step LiWait (sy_handle s)) (sy_handle s) \<noteq> LiDone None"
    using s(4) by (auto split: if_splits)
  with serve_error_origin [OF s(1,2)] s show ?thesis by (auto simp: io_other_def)
qed

text \<open>
  Shutdown closes the listener: once shutdown is signalled while \<open>serve\<close> is accepting,
  four polls of \<open>serve\<close> that find nothing to accept, in any interleaving, end the accept loop
  and drop the listener; \<open>serve\<close> has then returned \<open>Ok\<close>, or it waits for the connections
  when a graceful shutdown is under way as well.
\<close>

theorem shutdown_closes_listener:
  assumes "sys_run api cfg acts s = Some t" and "is_notified (hi_shutdown (sy_handle s))"
    and "\<exists>l. sy_serve s = SvOuter l \<or> sy_serve s = SvLoop l"
    and "\<forall>env. ActServe env \<in> set acts \<longrightarrow> quiet env" and "4 \<le> count_if moves_serve acts"
  shows "\<not> listener_open (sy_serve t) \<and>
    (sy_serve t = SvReturned (Inr ()) \<or> (\<exists>w. sy_serve t = SvWaitEnd w))"
  by (rule run_shutdown_closes [OF assms])

theorem shutdown_closes_listener_witness:
  "\<exists>t. sys_run toy_api toy_config (replicate 4 (ActServe sv_quiet))
      ((sys_start toy_api)\<lparr>sy_serve := SvLoop (LpSpawn 5), sy_handle := toy_handle True False 0\<rparr>) = Some t \<and>
     \<not> listener_open (sy_serve t)"
proof -
  let ?s = "(sys_start toy_api)\<lparr>sy_serve := SvLoop (LpSpawn 5), sy_handle := toy_handle True False 0\<rparr>"
  obtain t where run: "sys_run toy_api toy_config (replicate 4 (ActServe sv_quiet)) ?s = Some t"
    by (simp add: replicate_numeral Let_def)
  have "4 \<le> count_if moves_serve (replicate 4 (ActServe sv_quiet))"
    "\<forall>env. ActServe env \<in> set (replicate 4 (ActServe sv_quiet)) \<longrightarrow> quiet env"
    by (simp_all add: replicate_numeral moves_serve_def quiet_def sv_quiet_def)
  with shutdown_closes_listener [OF run] run show ?thesis by simp
qed

text \<open>
  C26. The grace period bounds the drain: once \<open>serve\<close> sleeps on the deadline and the sleep has
  elapsed, three polls of \<open>serve\<close>, in any interleaving, make it return \<open>Ok\<close> even if no connection
  ever ends. Then shutdown is signalled to the connections, or the end of all connections was
  notified. In a calm run the latter means that no connection is in service. (In a run that is
  not calm it may have been notified too early, by the race of \<open>early_return_race\<close>.)
\<close>

theorem deadline_forces_return:
  assumes "sys_run api cfg acts s = Some t"
    and "sy_serve s = SvWaitEnd (WeSleep d) \<or> sy_serve s = SvWaitEnd (WeTimedEnd d)"
    and "\<forall>env. ActServe env \<in> set acts \<longrightarrow> se_sleep env" and "3 \<le> count_if moves_serve acts"
  shows "sy_serve t = SvReturned (Inr ()) \<and>
    (is_notified (hi_conn_end (sy_handle t)) \<or> is_notified (hi_shutdown (sy_handle t))) \<and>
    (calm_reachable api cfg t \<and> length (sy_conns t) < 2 ^ 64 \<longrightarrow>
       is_notified (hi_shutdown (sy_handle t)) \<or> (\<forall>c \<in> set (sy_conns t). \<not> conn_in_service c))"
proof -
  have "deadline_rank (sy_serve s) \<le> count_if moves_serve acts" using assms(2,4) by auto
  then have "on_deadline t \<and> deadline_rank (sy_serve t) = 0"
  proof (rule sys_run_rank [where J = on_deadline and rank = "\<lambda>u. deadline_rank (sy_serve u)", OF assms(1), rotated])
    show "on_deadline s" using assms(2) by (auto simp: on_deadline_def)
    fix a u v
    assume a: "a \<in> set acts" and u: "on_deadline u" and step: "sys_step api cfg a u = Some v"
    show "on_deadline v \<and> deadline_rank (sy_serve v) \<le>
        deadline_rank (sy_serve u) - (if moves_serve a then 1 else 0)"
    proof (cases "moves_serve a")
      case True
      then obtain env where "a = ActServe env" by (auto simp: moves_serve_def)
      with on_deadline_serve [of u api cfg env v] a u step assms(3) True show ?thesis by auto
    next
      case False
      with sys_step_not_serve [OF step False] on_deadline_others [OF u step False] show ?thesis by simp
    qed
  qed
  then have "sy_serve t = SvReturned (Inr ())"
    and "is_notified (hi_conn_end (sy_handle t)) \<or> is_notified (hi_shutdown (sy_handle t))"
    by (cases "sy_serve t" rule: deadline_rank.cases; simp add: on_deadline_def)+
  with calm_return_idle show ?thesis by blast
qed

theorem deadline_forces_return_witness:
  "\<exists>s t. calm_run toy_api toy_config sc_drain (sys_start toy_api) = Some s \<and>
     calm_run toy_api toy_config (replicate 3 (ActServe (sv_quiet\<lparr>se_sleep := True\<rparr>))) s = Some t \<and>
     sy_serve t = SvReturned (Inr ()) \<and> conn_in_service (sy_conns t ! 0) \<and> is_notified (hi_shutdown (sy_handle t))"
proof -
  let ?acts = "replicate 3 (ActServe (sv_quiet\<lparr>se_sleep := True\<rparr>))"
  obtain s t where run: "calm_run toy_api toy_config sc_drain (sys_start toy_api) = Some s"
      "calm_run toy_api toy_config ?acts s = Some t" "sys_run toy_api toy_config ?acts s = Some t"
    and s: "sy_serve s = SvWaitEnd (WeSleep 7)" "length (sy_conns t) = 1" "conn_in_service (sy_conns t ! 0)"
    by (simp add: sc_drain_def run_simps calm_def at_drop_def conn_in_service_def)
  have acts: "3 \<le> count_if moves_serve ?acts" "\<forall>env. ActServe env \<in> set ?acts \<longrightarrow> se_sleep env"
    by (simp_all add: replicate_numeral moves_serve_def)
  have "calm_reachable toy_api toy_config t"
    using calm_run_reachable [OF calm_run_reachable [OF reach_start run(1)] run(2)] by simp
  with deadline_forces_return [OF run(3) _ acts(2,1)] run s show ?thesis by auto
qed

text \<open>
  C3. A graceful shutdown stops the server from wherever it serves: after the signal, seven
  polls of \<open>serve\<close> that find no new connection (and a make service that is ready), then nine
  polls of every task with Hyper completing, then three of \<open>serve\<close>, in any interleaving with
  everything else, leave \<open>serve\<close> returned with \<open>Ok\<close>, every task ended and the counter at 0.
\<close>

theorem graceful_stops_serving:
  assumes "sys_reachable api cfg s" and "is_notified (hi_graceful (sy_handle s))"
    and "\<exists>l. sy_serve s = SvOuter l \<or> sy_serve s = SvLoop l"
    and "sys_run api cfg acts s = Some s'" and "sys_run api cfg acts' s' = Some u"
    and "sys_run api cfg acts'' u = Some t" and "length (sy_conns s') < 2 ^ 64"
    and "\<forall>env. ActServe env \<in> set acts \<longrightarrow> idle_listener env" and "7 \<le> count_if moves_serve acts"
    and "\<forall>i < length (sy_conns s'). 9 \<le> count_if (moves_conn i) acts'"
    and "\<forall>i env. ActConn i env \<in> set acts' \<longrightarrow> ce_serve env"
    and "3 \<le> count_if moves_serve acts''"
  shows "sy_serve t = SvReturned (Inr ()) \<and> (\<forall>c \<in> set (sy_conns u). conn_done c) \<and>
    connection_count (sy_handle u) = 0"
proof -
  have wait: "sy_serve s' = SvReturned (Inr ()) \<or> (\<exists>w. sy_serve s' = SvWaitEnd w)"
    by (rule run_graceful_closes [OF assms(4,2,3,8,9)])
  have u: "sy_serve u = SvReturned (Inr ()) \<or> (\<exists>w. sy_serve u = SvWaitEnd w)"
    "length (sy_conns u) = length (sy_conns s')"
    using no_spawn_while_waiting [OF assms(5) wait] by auto
  have t: "length (sy_conns t) = length (sy_conns s')"
    using no_spawn_while_waiting [OF assms(6) u(1)] u(2) by simp
  have reach: "sys_reachable api cfg s'" "sys_reachable api cfg u"
    using sys_run_reachable assms(1,4,5) by blast+
  have g: "is_notified (hi_graceful (sy_handle s'))"
    using sys_run_grow [OF assms(4)] assms(2) by (simp add: latches_grow_def)
  have ended: "\<forall>c \<in> set (sy_conns u). conn_done c"
    using run_graceful_ends [OF assms(5) reach(1) _ _ g] assms(7,10,11) u(2)
    by (auto simp: bounded_def in_set_conv_nth)
  with u(1) have "drained u" by (simp add: drained_def)
  from drained_returns [OF assms(6) reach(2) _ this assms(12)] assms(7) t
  have "sy_serve t = SvReturned (Inr ())" by (simp add: bounded_def)
  moreover have "connection_count (sy_handle u) = 0"
    using counted_zero_iff [of cfg u] sys_drain_inv [OF reach(2)] assms(7) u(2) ended done_owes_nothing
    by (auto simp: connection_count_def bounded_def)
  ultimately show ?thesis using ended by blast
qed

definition sv_idle :: "nat serve_env" where
  "sv_idle = sv_quiet\<lparr>se_ready := Ready (Inr ()), se_make := Ready (Inr ())\<rparr>"

theorem graceful_stops_serving_witness:
  "\<exists>s s' u t. sys_run toy_api toy_config (sc_listen @ sc_accept 1 @ sc_graceful None) (sys_start toy_api) = Some s \<and>
     sys_run toy_api toy_config (replicate 7 (ActServe sv_idle)) s = Some s' \<and>
     sys_run toy_api toy_config sc_finish s' = Some u \<and>
     sys_run toy_api toy_config (replicate 3 (ActServe sv_quiet)) u = Some t \<and>
     sy_serve t = SvReturned (Inr ()) \<and> connection_count (sy_handle u) = 0"
proof -
  obtain s s' u t where s: "sys_run toy_api toy_config (sc_listen @ sc_accept 1 @ sc_graceful None) (sys_start toy_api) = Some s"
      "is_notified (hi_graceful (sy_handle s))" "\<exists>l. sy_serve s = SvOuter l \<or> sy_serve s = SvLoop l"
    and run: "sys_run toy_api toy_config (replicate 7 (ActServe sv_idle)) s = Some s'"
      "sys_run toy_api toy_config sc_finish s' = Some u"
      "sys_run toy_api toy_config (replicate 3 (ActServe sv_quiet)) u = Some t"
    and len: "length (sy_conns s') = 1"
    by (simp add: sc_finish_def sv_idle_def run_simps)
  have "7 \<le> count_if moves_serve (replicate 7 (ActServe sv_idle))"
    "9 \<le> count_if (moves_conn 0) sc_finish" "3 \<le> count_if moves_serve (replicate 3 (ActServe sv_quiet))"
    "\<forall>env. ActServe env \<in> set (replicate 7 (ActServe sv_idle)) \<longrightarrow> idle_listener env"
    "\<forall>i env. ActConn i env \<in> set sc_finish \<longrightarrow> ce_serve env"
    by (auto simp: sc_finish_def replicate_numeral moves_conn_def moves_serve_def env_serves_def
        idle_listener_def sv_idle_def sv_quiet_def)
  with graceful_stops_serving [OF sys_start_reachable [OF s(1)] s(2,3) run] s(1) run len
  show ?thesis by (auto simp: less_Suc_eq)
qed

text \<open>
  C27. A listener that keeps failing causes no hot loop: in every run, from any state, the error
  handler is told of at most one error of the listener more than backoff sleeps have elapsed
  in it.
\<close>

theorem listener_error_rate:
  assumes "sys_run api cfg acts s = Some t"
  shows "listener_errors (sy_log t) \<le> listener_errors (sy_log s) + count_if wakes_backoff acts + 1"
  using sys_run_errors [OF assms] by (auto split: if_splits)

definition sv_broken :: "bool \<Rightarrow> nat serve_env" where
  "sv_broken elapsed = sv_quiet\<lparr>se_accept := Ready (Inl (IoError (OsError 24) ''EMFILE'')), se_backoff := elapsed\<rparr>"

definition sc_broken :: "nat action list" where
  "sc_broken = sc_listen @ replicate 7 (ActServe (sv_broken False)) @ [ActServe (sv_broken True)] @
     replicate 3 (ActServe (sv_broken False))"

theorem listener_error_rate_witness:
  "\<exists>t. sys_run toy_api toy_config sc_broken (sys_start toy_api) = Some t \<and>
     listener_errors (sy_log t) = 2 \<and> listener_errors (sy_log t) \<le> 2"
proof -
  obtain t where t: "sys_run toy_api toy_config sc_broken (sys_start toy_api) = Some t"
      "listener_errors (sy_log t) = 2"
    by (simp add: sc_broken_def run_simps sv_broken_def listener_errors_def)
  have "count_if wakes_backoff sc_broken = 1"
    by (simp add: sc_broken_def sc_listen_def sv_ready_def sv_quiet_def replicate_numeral wakes_backoff_def sv_broken_def)
  with listener_error_rate [OF t(1)] t show ?thesis by (simp add: sys_start_def listener_errors_def)
qed

end
