(* ===== verification/ExampleServers.thy ===== *)
theory ExampleServers
  imports Serving
begin

text \<open>
  \<open>src/examples/graceful_shutdown.rs\<close> and \<open>src/examples/shutdown.rs\<close>: a server and a spawned
  task that is the only user of its handle. The task is a machine, composed with the system of
  the theory \<open>ServeTask\<close>; the operations on the handle are the actions of that system. What
  the comments of the examples promise is proved of the composition.
\<close>

section \<open>The tasks\<close>

text \<open>
  The task of \<open>graceful_shutdown.rs\<close>: sleep, signal (write the duration, then notify), then
  print the connection count every second for ever.
\<close>

datatype graceful_task = GtSleep | GtDuration | GtNotify | GtLoop

definition graceful_deadline :: duration where
  "graceful_deadline = from_secs 30"

text \<open>The task of \<open>shutdown.rs\<close>.\<close>

datatype shutdown_task = StSleep | StShutdown | StDone

record ('a, 'n, 'task) example =
  ex_sys :: "('a, 'n) sys"
  ex_task :: 'task
  ex_printed :: "usize list"

text \<open>
  \<open>elapsed\<close>: whether the sleep the task is in (10 seconds and then one second each time round in
  the first task, 20 seconds in the second) is over when it is polled. A call on the handle is
  an action of the system.
\<close>

fun graceful_task_step ::
  "'n notify_api \<Rightarrow> conn_config \<Rightarrow> bool \<Rightarrow> ('a, 'n, graceful_task) example \<Rightarrow>
   ('a, 'n, graceful_task) example option"
where
  "graceful_task_step api cfg elapsed s =
     (case ex_task s of
        GtSleep \<Rightarrow> Some (if elapsed then s\<lparr>ex_task := GtDuration\<rparr> else s)
      | GtDuration \<Rightarrow>
          (case sys_step api cfg (ActGracefulDur (Some graceful_deadline)) (ex_sys s) of
             None \<Rightarrow> None | Some y \<Rightarrow> Some (s\<lparr>ex_sys := y, ex_task := GtNotify\<rparr>))
      | GtNotify \<Rightarrow>
          (case sys_step api cfg ActGracefulNotify (ex_sys s) of
             None \<Rightarrow> None | Some y \<Rightarrow> Some (s\<lparr>ex_sys := y, ex_task := GtLoop\<rparr>))
      | GtLoop \<Rightarrow>
          Some (if elapsed
                then s\<lparr>ex_printed := ex_printed s @ [connection_count (sy_handle (ex_sys s))]\<rparr> else s))"

fun shutdown_task_step ::
  "'n notify_api \<Rightarrow> conn_config \<Rightarrow> bool \<Rightarrow> ('a, 'n, shutdown_task) example \<Rightarrow>
   ('a, 'n, shutdown_task) example option"
where
  "shutdown_task_step api cfg elapsed s =
     (case ex_task s of
        StSleep \<Rightarrow> Some (if elapsed then s\<lparr>ex_task := StShutdown\<rparr> else s)
      | StShutdown \<Rightarrow>
          (case sys_step api cfg ActShutdown (ex_sys s) of
             None \<Rightarrow> None | Some y \<Rightarrow> Some (s\<lparr>ex_sys := y, ex_task := StDone\<rparr>))
      | StDone \<Rightarrow> Some s)"

text \<open>The composition: the runtime moves the server and its connections, or the task.\<close>

datatype 'a example_action = ExServer "'a action" | ExTask bool

fun user_call :: "'a action \<Rightarrow> bool" where
  "user_call (ActServe env) = False"
| "user_call (ActConn i env) = False"
| "user_call (ActAbort i) = False"
| "user_call a = True"

fun example_step ::
  "('n notify_api \<Rightarrow> conn_config \<Rightarrow> bool \<Rightarrow> ('a, 'n, 'task) example \<Rightarrow> ('a, 'n, 'task) example option) \<Rightarrow>
   'n notify_api \<Rightarrow> conn_config \<Rightarrow> 'a example_action \<Rightarrow> ('a, 'n, 'task) example \<Rightarrow>
   ('a, 'n, 'task) example option"
where
  "example_step task api cfg (ExServer a) s =
     (if user_call a then None
      else case sys_step api cfg a (ex_sys s) of None \<Rightarrow> None | Some y \<Rightarrow> Some (s\<lparr>ex_sys := y\<rparr>))"
| "example_step task api cfg (ExTask elapsed) s = task api cfg elapsed s"

definition example_start :: "'n notify_api \<Rightarrow> 'task \<Rightarrow> ('a, 'n, 'task) example" where
  "example_start api t = \<lparr>ex_sys = sys_start api, ex_task = t, ex_printed = []\<rparr>"

inductive example_moves ::
  "('n notify_api \<Rightarrow> conn_config \<Rightarrow> bool \<Rightarrow> ('a, 'n, 'task) example \<Rightarrow> ('a, 'n, 'task) example option) \<Rightarrow>
   'n notify_api \<Rightarrow> conn_config \<Rightarrow> ('a, 'n, 'task) example \<Rightarrow> ('a, 'n, 'task) example \<Rightarrow> bool"
  for task api cfg
where
  example_moves: "example_step task api cfg b s = Some t \<Longrightarrow> example_moves task api cfg s t"

inductive_simps example_moves_iff: "example_moves task api cfg s t"

fun example_run ::
  "('n notify_api \<Rightarrow> conn_config \<Rightarrow> bool \<Rightarrow> ('a, 'n, 'task) example \<Rightarrow> ('a, 'n, 'task) example option) \<Rightarrow>
   'n notify_api \<Rightarrow> conn_config \<Rightarrow> 'a example_action list \<Rightarrow> ('a, 'n, 'task) example \<Rightarrow>
   ('a, 'n, 'task) example option"
where
  "example_run task api cfg [] s = Some s"
| "example_run task api cfg (b # bs) s =
     (case example_step task api cfg b s of None \<Rightarrow> None | Some t \<Rightarrow> example_run task api cfg bs t)"

section \<open>The graceful example\<close>

text \<open>What the serving task does when nobody but the example's task uses the handle.\<close>

fun serve_done :: "'a serve_pc \<Rightarrow> bool" where
  "serve_done (SvLoopDone r) = (r = Inr ())"
| "serve_done (SvWaitEnd w) = True"
| "serve_done (SvReturned r) = (r = Inr ())"
| "serve_done pc = False"

definition patient :: "('a, 'n) handle_inner \<Rightarrow> 'a serve_pc \<Rightarrow> bool" where
  "patient h pc \<longleftrightarrow>
     (is_notified (hi_shutdown h) \<longrightarrow> pc = SvReturned (Inr ())) \<and>
     (serve_done pc \<longrightarrow> is_notified (hi_graceful h)) \<and>
     (\<forall>d. pc = SvWaitEnd (WeSleep d) \<or> pc = SvWaitEnd (WeTimedEnd d) \<longrightarrow> d = graceful_deadline) \<and>
     pc \<noteq> SvWaitEnd WeEnd \<and> pc \<noteq> SvWaitEnd WeDone"

definition task_signals :: "graceful_task \<Rightarrow> ('a, 'n) sys \<Rightarrow> bool" where
  "task_signals t y \<longleftrightarrow>
     is_notified (hi_graceful (sy_handle y)) = (t = GtLoop) \<and>
     (t \<in> {GtNotify, GtLoop} \<longrightarrow> hi_graceful_dur (sy_handle y) = Some graceful_deadline) \<and>
     sy_graceful_calls y = (if t = GtNotify then 1 else 0)"

definition graceful_inv :: "('a, 'n, graceful_task) example \<Rightarrow> bool" where
  "graceful_inv s \<longleftrightarrow> task_signals (ex_task s) (ex_sys s) \<and>
     patient (sy_handle (ex_sys s)) (sy_serve (ex_sys s))"

lemma patient_serve:
  assumes "patient h pc" and "is_notified (hi_graceful h) \<longrightarrow> hi_graceful_dur h = Some graceful_deadline"
  shows "patient (so_handle (serve_step api cfg env h pc)) (so_pc (serve_step api cfg env h pc))"
proof (cases pc)
  case (SvLoop l)
  with assms show ?thesis by (cases l) (auto simp: patient_def handle_simps split: serve_splits)
next
  case (SvWaitEnd w)
  with assms show ?thesis by (cases w) (auto simp: patient_def handle_simps split: option.splits)
qed (use assms in \<open>auto simp: patient_def handle_simps split: serve_splits sum.splits after_bind.splits\<close>)

lemma server_step_signals:
  assumes "sys_step api cfg a y = Some z" and "\<not> user_call a"
  shows "hi_graceful (sy_handle z) = hi_graceful (sy_handle y) \<and>
    hi_graceful_dur (sy_handle z) = hi_graceful_dur (sy_handle y) \<and>
    sy_graceful_calls z = sy_graceful_calls y"
proof (cases a)
  case (ActServe env)
  with assms serve_step_signals [of api cfg env "sy_handle y" "sy_serve y"] show ?thesis by (auto simp: Let_def)
next
  case (ActConn i env)
  with assms conn_step_signals [of api cfg env "sy_handle y" "sy_conns y ! i"] show ?thesis
    by (auto simp: case_prod_beta split: if_splits)
qed (use assms in \<open>auto split: if_splits\<close>)

lemma server_step_inv:
  assumes "task_signals t y" and "patient (sy_handle y) (sy_serve y)"
    and "sys_step api cfg a y = Some z" and "\<not> user_call a"
  shows "task_signals t z \<and> patient (sy_handle z) (sy_serve z)"
proof (intro conjI)
  show "task_signals t z"
    using assms(1) server_step_signals [OF assms(3,4)] by (simp add: task_signals_def)
  show "patient (sy_handle z) (sy_serve z)"
  proof (cases a)
    case (ActServe env)
    from assms(1) have "is_notified (hi_graceful (sy_handle y)) \<longrightarrow>
        hi_graceful_dur (sy_handle y) = Some graceful_deadline" by (auto simp: task_signals_def)
    from patient_serve [OF assms(2) this] ActServe assms(3) show ?thesis by (auto simp: Let_def)
  next
    case (ActConn i env)
    with assms conn_step_signals [of api cfg env "sy_handle y" "sy_conns y ! i"] show ?thesis
      by (auto simp: patient_def case_prod_beta split: if_splits)
  next
    case (ActAbort i)
    with assms show ?thesis by (auto split: if_splits)
  qed (use assms(4) in simp_all)
qed

lemma graceful_inv_step: "graceful_inv s \<Longrightarrow> example_moves graceful_task_step api cfg s t \<Longrightarrow> graceful_inv t"
proof -
  assume inv: "graceful_inv s" and "example_moves graceful_task_step api cfg s t"
  then obtain b where step: "example_step graceful_task_step api cfg b s = Some t"
    by (auto simp: example_moves_iff)
  show "graceful_inv t"
  proof (cases b)
    case (ExServer a)
    with step inv server_step_inv [of "ex_task s" "ex_sys s" api cfg a] show ?thesis
      by (auto simp: graceful_inv_def split: if_splits option.splits)
  next
    case (ExTask e)
    with step inv show ?thesis
      by (cases "ex_task s")
        (auto simp: graceful_inv_def task_signals_def patient_def handle_simps split: if_splits)
  qed
qed

lemma graceful_inv_start: "s = example_start api GtSleep \<Longrightarrow> graceful_inv s"
  by (simp add: graceful_inv_def task_signals_def patient_def example_start_def sys_start_def handle_simps)

interpretation graceful_example: invariant_system "\<lambda>s. s = example_start api GtSleep"
    "example_moves graceful_task_step api cfg" graceful_inv
  for api :: "'n notify_api" and cfg
  by unfold_locales (auto intro: graceful_inv_start graceful_inv_step)

section \<open>Runs after the signal\<close>

fun server_actions :: "'a example_action list \<Rightarrow> 'a action list" where
  "server_actions [] = []"
| "server_actions (ExServer a # bs) = a # server_actions bs"
| "server_actions (ExTask e # bs) = server_actions bs"

lemma server_actions_iff: "a \<in> set (server_actions bs) \<longleftrightarrow> ExServer a \<in> set bs"
  by (induction bs rule: server_actions.induct) auto

lemma example_run_reachable:
  "reach init (example_moves task api cfg) s \<Longrightarrow> example_run task api cfg bs s = Some t \<Longrightarrow>
   reach init (example_moves task api cfg) t"
proof (induction bs arbitrary: s)
  case (Cons b bs)
  from Cons.prems(2) obtain u where "example_step task api cfg b s = Some u" "example_run task api cfg bs u = Some t"
    by (auto split: option.splits)
  then show ?case using Cons.IH [OF reach_step [OF Cons.prems(1) example_moves]] by blast
qed simp

text \<open>Once its task has called the handle for the last time, a run of an example is one of the server.\<close>

lemma example_run_server:
  assumes "example_run task api cfg bs s = Some t" and "ex_task s = final"
    and "\<And>e s t. ex_task s = final \<Longrightarrow> task api cfg e s = Some t \<Longrightarrow> ex_sys t = ex_sys s \<and> ex_task t = final"
  shows "sys_run api cfg (server_actions bs) (ex_sys s) = Some (ex_sys t) \<and> ex_task t = final \<and>
    (\<forall>a \<in> set (server_actions bs). \<not> user_call a)"
  using assms(1,2)
proof (induction bs arbitrary: s)
  case (Cons b bs)
  from Cons.prems(1) obtain u where u: "example_step task api cfg b s = Some u" "example_run task api cfg bs u = Some t"
    by (auto split: option.splits)
  show ?case
  proof (cases b)
    case (ExServer a)
    with u Cons.prems(2) have "sys_step api cfg a (ex_sys s) = Some (ex_sys u)" "ex_task u = final" "\<not> user_call a"
      by (auto split: if_splits option.splits)
    with Cons.IH [OF u(2)] ExServer show ?thesis by simp
  next
    case (ExTask e)
    with u assms(3) [OF Cons.prems(2), of e u] have "ex_sys u = ex_sys s" "ex_task u = final" by auto
    with Cons.IH [OF u(2)] ExTask show ?thesis by simp
  qed
qed simp

lemma graceful_loop_server:
  "ex_task s = GtLoop \<Longrightarrow> graceful_task_step api cfg e s = Some t \<Longrightarrow> ex_sys t = ex_sys s \<and> ex_task t = GtLoop"
  by (auto split: if_splits)

text \<open>The deadline, from wherever \<open>serve\<close> waits.\<close>

fun expiry_rank :: "'a serve_pc \<Rightarrow> nat" where
  "expiry_rank (SvWaitEnd WeCount) = 4"
| "expiry_rank (SvWaitEnd WeDur) = 3"
| "expiry_rank (SvWaitEnd (WeTimedEnd d)) = 3"
| "expiry_rank (SvWaitEnd (WeSleep d)) = 2"
| "expiry_rank (SvWaitEnd w) = 1"
| "expiry_rank pc = 0"

definition expiring :: "('a, 'n) sys \<Rightarrow> bool" where
  "expiring y \<longleftrightarrow> task_signals GtLoop y \<and> patient (sy_handle y) (sy_serve y) \<and>
     (sy_serve y = SvReturned (Inr ()) \<or> (\<exists>w. sy_serve y = SvWaitEnd w))"

lemma expiring_step:
  assumes "expiring y" and "sys_step api cfg a y = Some z" and "\<not> user_call a"
    and "\<forall>env. a = ActServe env \<longrightarrow> se_sleep env"
  shows "expiring z \<and> expiry_rank (sy_serve z) \<le> expiry_rank (sy_serve y) - (if moves_serve a then 1 else 0)"
proof -
  have inv: "task_signals GtLoop z \<and> patient (sy_handle z) (sy_serve z)"
    using assms(1) server_step_inv [OF _ _ assms(2,3)] by (auto simp: expiring_def)
  show ?thesis
  proof (cases "moves_serve a")
    case False
    with sys_step_not_serve [OF assms(2) False] assms(1) inv show ?thesis by (simp add: expiring_def)
  next
    case True
    then obtain env where env: "a = ActServe env" "se_sleep env" using assms(4) by (auto simp: moves_serve_def)
    have dur: "hi_graceful_dur (sy_handle y) = Some graceful_deadline"
      using assms(1) by (simp add: expiring_def task_signals_def)
    from assms(1) consider "sy_serve y = SvReturned (Inr ())" | w where "sy_serve y = SvWaitEnd w" "w \<noteq> WeEnd" "w \<noteq> WeDone"
      by (auto simp: expiring_def patient_def)
    then show ?thesis
    proof cases
      case 1
      with assms(2) env inv show ?thesis by (auto simp: expiring_def)
    next
      case (2 w)
      with assms(2) env dur True inv show ?thesis
        by (cases w) (auto simp: expiring_def Let_def case_prod_beta split: if_splits)
    qed
  qed
qed

lemma run_expires:
  assumes "sys_run api cfg acts y = Some z" and "expiring y" and "\<forall>a \<in> set acts. \<not> user_call a"
    and "\<forall>env. ActServe env \<in> set acts \<longrightarrow> se_sleep env" and "4 \<le> count_if moves_serve acts"
  shows "sy_serve z = SvReturned (Inr ())"
proof -
  have "expiry_rank pc \<le> 4" for pc :: "'a serve_pc" by (cases pc rule: expiry_rank.cases) simp_all
  then have "expiry_rank (sy_serve y) \<le> count_if moves_serve acts" using assms(5) order_trans by blast
  then have "expiring z \<and> expiry_rank (sy_serve z) = 0"
    by (rule sys_run_rank [where J = expiring, OF assms(1,2)]) (use assms(3,4) expiring_step in blast)
  then show ?thesis by (cases "sy_serve z" rule: expiry_rank.cases) (auto simp: expiring_def)
qed

section \<open>The shutdown example\<close>

definition shutdown_inv :: "('a, 'n, shutdown_task) example \<Rightarrow> bool" where
  "shutdown_inv s \<longleftrightarrow> \<not> is_notified (hi_graceful (sy_handle (ex_sys s))) \<and>
     sy_graceful_calls (ex_sys s) = 0 \<and>
     (ex_task s = StDone \<longrightarrow> is_notified (hi_shutdown (sy_handle (ex_sys s))))"

lemma shutdown_inv_step: "shutdown_inv s \<Longrightarrow> example_moves shutdown_task_step api cfg s t \<Longrightarrow> shutdown_inv t"
proof -
  assume inv: "shutdown_inv s" and "example_moves shutdown_task_step api cfg s t"
  then obtain b where step: "example_step shutdown_task_step api cfg b s = Some t"
    by (auto simp: example_moves_iff)
  show "shutdown_inv t"
  proof (cases b)
    case (ExServer a)
    with step have a: "sys_step api cfg a (ex_sys s) = Some (ex_sys t)" "\<not> user_call a" "ex_task t = ex_task s"
      by (auto split: if_splits option.splits)
    from server_step_signals [OF a(1,2)] inv a(3) sys_step_grow [OF a(1)] show ?thesis
      by (simp add: shutdown_inv_def latches_grow_def)
  next
    case (ExTask e)
    with step inv show ?thesis
      by (cases "ex_task s") (auto simp: shutdown_inv_def handle_simps split: if_splits)
  qed
qed

interpretation shutdown_example: invariant_system "\<lambda>s. s = example_start api StSleep"
    "example_moves shutdown_task_step api cfg" shutdown_inv
  for api :: "'n notify_api" and cfg
proof
  show "shutdown_inv s" if "s = example_start api StSleep" for s :: "('a, 'n, shutdown_task) example"
    using that by (simp add: shutdown_inv_def example_start_def sys_start_def handle_simps)
qed (rule shutdown_inv_step)

interpretation shutdown_system: simulation "\<lambda>s. s = sys_start api" "sys_moves api cfg"
    "\<lambda>s. s = example_start api StSleep" "example_moves shutdown_task_step api cfg" ex_sys
  for api :: "'n notify_api" and cfg
proof
  show "ex_sys s = sys_start api" if "s = example_start api StSleep" for s :: "('a, 'n, shutdown_task) example"
    using that by (simp add: example_start_def)
  show "sys_moves api cfg (ex_sys s) (ex_sys t) \<or> ex_sys t = ex_sys s"
    if "example_moves shutdown_task_step api cfg s t" for s t :: "('a, 'n, shutdown_task) example"
  proof -
    from that obtain b where "example_step shutdown_task_step api cfg b s = Some t"
      by (auto simp: example_moves_iff)
    then show ?thesis
      by (cases b; cases "ex_task s") (auto simp: sys_moves_iff split: if_splits option.splits intro: exI [of _ ActShutdown])
  qed
qed

lemma shutdown_done_server:
  "ex_task s = StDone \<Longrightarrow> shutdown_task_step api cfg e s = Some t \<Longrightarrow> ex_sys t = ex_sys s \<and> ex_task t = StDone"
  by simp

section \<open>Properties\<close>

text \<open>
  The server of the graceful example is patient: in every reachable state, while its task
  has not signalled, \<open>serve\<close> has not returned \<open>Ok\<close> and nobody is told to stop; the deadline
  that \<open>serve\<close> sleeps on is 30 seconds; and the connections are told to shut down only by
  \<open>serve\<close> itself, when it returns.
\<close>

theorem graceful_example_patient:
  assumes "reach (\<lambda>s. s = example_start api GtSleep) (example_moves graceful_task_step api cfg) s"
  shows "(ex_task s \<noteq> GtLoop \<longrightarrow> sy_serve (ex_sys s) \<noteq> SvReturned (Inr ()) \<and>
      \<not> is_notified (hi_graceful (sy_handle (ex_sys s))) \<and> \<not> is_notified (hi_shutdown (sy_handle (ex_sys s)))) \<and>
    (\<forall>d. sy_serve (ex_sys s) = SvWaitEnd (WeSleep d) \<longrightarrow> d = from_secs 30) \<and>
    (is_notified (hi_shutdown (sy_handle (ex_sys s))) \<longrightarrow> sy_serve (ex_sys s) = SvReturned (Inr ()))"
proof -
  have "graceful_inv s" using assms by (rule graceful_example.reach_inv)
  then show ?thesis
    by (auto simp: graceful_inv_def task_signals_def patient_def graceful_deadline_def)
qed

text \<open>A connection is served, then the task signals.\<close>

definition ec_serve :: "nat example_action list" where
  "ec_serve = map ExServer (sc_listen @ sc_accept 1 @ replicate 3 (ActConn 0 env_accepts))"

definition graceful_signalled where
  "graceful_signalled = the (example_run graceful_task_step toy_api toy_config (ec_serve @ replicate 3 (ExTask True))
     (example_start toy_api GtSleep))"

lemma graceful_signalled_run:
  "example_run graceful_task_step toy_api toy_config (ec_serve @ replicate 3 (ExTask True))
     (example_start toy_api GtSleep) = Some graceful_signalled"
  by (simp add: graceful_signalled_def ec_serve_def example_start_def run_simps)

lemma graceful_signalled_simps:
  "ex_task graceful_signalled = GtLoop"
  "\<exists>l. sy_serve (ex_sys graceful_signalled) = SvOuter l \<or> sy_serve (ex_sys graceful_signalled) = SvLoop l"
  "conn_in_service (sy_conns (ex_sys graceful_signalled) ! 0)"
  "reach (\<lambda>s. s = example_start toy_api GtSleep) (example_moves graceful_task_step toy_api toy_config) graceful_signalled"
  by (simp_all add: example_run_reachable [OF reach_start graceful_signalled_run])
    (simp_all add: graceful_signalled_def ec_serve_def example_start_def run_simps conn_in_service_def)

theorem graceful_example_patient_witness:
  "conn_in_service (sy_conns (ex_sys graceful_signalled) ! 0) \<and>
   \<not> is_notified (hi_shutdown (sy_handle (ex_sys graceful_signalled)))"
  using graceful_example_patient [OF graceful_signalled_simps(4)] graceful_signalled_simps(2,3) by auto

text \<open>
  The server of the graceful example stops, as its comments say, whether or not connections
  stay alive: once its task has signalled, seven polls of \<open>serve\<close> that find no connection and
  then four with the deadline elapsed, in any interleaving with the connections and the task,
  leave \<open>serve\<close> returned with \<open>Ok\<close>.
\<close>

theorem graceful_example_stops:
  assumes "reach (\<lambda>s. s = example_start api GtSleep) (example_moves graceful_task_step api cfg) s"
    and "ex_task s = GtLoop" and "\<exists>l. sy_serve (ex_sys s) = SvOuter l \<or> sy_serve (ex_sys s) = SvLoop l"
    and "example_run graceful_task_step api cfg bs s = Some u"
    and "example_run graceful_task_step api cfg bs' u = Some t"
    and "\<forall>env. ExServer (ActServe env) \<in> set bs \<longrightarrow> idle_listener env"
    and "\<forall>env. ExServer (ActServe env) \<in> set bs' \<longrightarrow> se_sleep env"
    and "7 \<le> count_if moves_serve (server_actions bs)" and "4 \<le> count_if moves_serve (server_actions bs')"
  shows "sy_serve (ex_sys t) = SvReturned (Inr ())"
proof -
  have inv: "graceful_inv s" "graceful_inv u"
    using graceful_example.reach_inv assms(1) example_run_reachable [OF assms(1,4)] by blast+
  then have g: "is_notified (hi_graceful (sy_handle (ex_sys s)))"
    using assms(2) by (simp add: graceful_inv_def task_signals_def)
  have bs: "sys_run api cfg (server_actions bs) (ex_sys s) = Some (ex_sys u)" "ex_task u = GtLoop"
    using example_run_server [OF assms(4,2)] graceful_loop_server by blast+
  have bs': "sys_run api cfg (server_actions bs') (ex_sys u) = Some (ex_sys t)"
    "\<forall>a \<in> set (server_actions bs'). \<not> user_call a"
    using example_run_server [OF assms(5) bs(2)] graceful_loop_server by blast+
  have "sy_serve (ex_sys u) = SvReturned (Inr ()) \<or> (\<exists>w. sy_serve (ex_sys u) = SvWaitEnd w)"
    using run_graceful_closes [OF bs(1) g assms(3) _ assms(8)] assms(6)
    by (auto simp: server_actions_iff)
  with inv(2) bs(2) have "expiring (ex_sys u)" by (simp add: expiring_def graceful_inv_def)
  with run_expires [OF bs'(1)] bs'(2) assms(7,9) show ?thesis
    by (auto simp: server_actions_iff)
qed

definition ec_expire :: "nat example_action list" where
  "ec_expire = replicate 4 (ExServer (ActServe (sv_quiet\<lparr>se_sleep := True\<rparr>)))"

theorem graceful_example_stops_witness:
  "\<exists>u t. example_run graceful_task_step toy_api toy_config (replicate 7 (ExServer (ActServe sv_idle))) graceful_signalled = Some u \<and>
     example_run graceful_task_step toy_api toy_config ec_expire u = Some t \<and>
     conn_in_service (sy_conns (ex_sys t) ! 0) \<and> sy_serve (ex_sys t) = SvReturned (Inr ())"
proof -
  let ?idle = "replicate 7 (ExServer (ActServe sv_idle))"
  obtain u t where run: "example_run graceful_task_step toy_api toy_config ?idle graceful_signalled = Some u"
      "example_run graceful_task_step toy_api toy_config ec_expire u = Some t"
    and service: "conn_in_service (sy_conns (ex_sys t) ! 0)"
    by (simp add: graceful_signalled_def ec_serve_def ec_expire_def example_start_def run_simps sv_idle_def conn_in_service_def)
  have "7 \<le> count_if moves_serve (server_actions ?idle)" "4 \<le> count_if moves_serve (server_actions ec_expire)"
    "\<forall>env. ExServer (ActServe env) \<in> set ?idle \<longrightarrow> idle_listener env"
    "\<forall>env. ExServer (ActServe env) \<in> set ec_expire \<longrightarrow> se_sleep env"
    by (auto simp: replicate_numeral moves_serve_def ec_expire_def idle_listener_def sv_idle_def sv_quiet_def)
  with graceful_example_stops [OF graceful_signalled_simps(4,1,2) run] run service show ?thesis by blast
qed

text \<open>
  The server of the shutdown example stops: once its task has called \<open>shutdown\<close>, four polls
  of \<open>serve\<close> that find no connection leave it returned with \<open>Ok\<close>, and then eight polls of
  each connection task, with everything else pending, end all of them.
\<close>

theorem shutdown_example_stops:
  assumes "reach (\<lambda>s. s = example_start api StSleep) (example_moves shutdown_task_step api cfg) s"
    and "ex_task s = StDone" and "\<exists>l. sy_serve (ex_sys s) = SvOuter l \<or> sy_serve (ex_sys s) = SvLoop l"
    and "example_run shutdown_task_step api cfg bs s = Some u"
    and "example_run shutdown_task_step api cfg bs' u = Some t"
    and "\<forall>env. ExServer (ActServe env) \<in> set bs \<longrightarrow> quiet env"
    and "4 \<le> count_if moves_serve (server_actions bs)"
    and "length (sy_conns (ex_sys u)) < 2 ^ 64"
    and "\<forall>i < length (sy_conns (ex_sys u)). 8 \<le> count_if (moves_conn i) (server_actions bs')"
  shows "sy_serve (ex_sys u) = SvReturned (Inr ()) \<and> (\<forall>c \<in> set (sy_conns (ex_sys t)). conn_done c)"
proof -
  have inv: "shutdown_inv s" "shutdown_inv u"
    using shutdown_example.reach_inv assms(1) example_run_reachable [OF assms(1,4)] by blast+
  have reach: "sys_reachable api cfg (ex_sys u)"
    using shutdown_system.reach_abs example_run_reachable [OF assms(1,4)] by blast
  have bs: "sys_run api cfg (server_actions bs) (ex_sys s) = Some (ex_sys u)" "ex_task u = StDone"
    using example_run_server [OF assms(4,2)] shutdown_done_server by blast+
  have bs': "sys_run api cfg (server_actions bs') (ex_sys u) = Some (ex_sys t)"
    using example_run_server [OF assms(5) bs(2)] shutdown_done_server by blast
  have sd: "is_notified (hi_shutdown (sy_handle (ex_sys s)))" "is_notified (hi_shutdown (sy_handle (ex_sys u)))"
    using inv assms(2) bs(2) by (simp_all add: shutdown_inv_def)
  have "sy_serve (ex_sys u) = SvReturned (Inr ()) \<or> (\<exists>w. sy_serve (ex_sys u) = SvWaitEnd w)"
    using run_shutdown_closes [OF bs(1) sd(1) assms(3) _ assms(7)] assms(6)
    by (auto simp: server_actions_iff)
  moreover have "\<not> is_notified (hi_graceful (sy_handle (ex_sys u)))"
    using inv(2) by (simp add: shutdown_inv_def)
  ultimately have ret: "sy_serve (ex_sys u) = SvReturned (Inr ())"
    using sys_drain_inv [OF reach] by (auto simp: draining_def)
  then have len: "length (sy_conns (ex_sys t)) = length (sy_conns (ex_sys u))"
    using no_spawn_while_waiting [OF bs'] by blast
  have "\<forall>c \<in> set (sy_conns (ex_sys t)). conn_done c"
    using run_shutdown_ends [OF bs' reach _ _ sd(2)] assms(8,9) len
    by (auto simp: in_set_conv_nth bounded_def)
  with ret show ?thesis by blast
qed

definition shutdown_signalled where
  "shutdown_signalled = the (example_run shutdown_task_step toy_api toy_config (ec_serve @ replicate 2 (ExTask True))
     (example_start toy_api StSleep))"

lemma shutdown_signalled_run:
  "example_run shutdown_task_step toy_api toy_config (ec_serve @ replicate 2 (ExTask True))
     (example_start toy_api StSleep) = Some shutdown_signalled"
  by (simp add: shutdown_signalled_def ec_serve_def example_start_def run_simps)

lemma shutdown_signalled_simps:
  "ex_task shutdown_signalled = StDone"
  "\<exists>l. sy_serve (ex_sys shutdown_signalled) = SvOuter l \<or> sy_serve (ex_sys shutdown_signalled) = SvLoop l"
  "reach (\<lambda>s. s = example_start toy_api StSleep) (example_moves shutdown_task_step toy_api toy_config) shutdown_signalled"
  by (simp_all add: example_run_reachable [OF reach_start shutdown_signalled_run])
    (simp_all add: shutdown_signalled_def ec_serve_def example_start_def run_simps)

theorem shutdown_example_stops_witness:
  "\<exists>u t. example_run shutdown_task_step toy_api toy_config (replicate 4 (ExServer (ActServe sv_quiet))) shutdown_signalled = Some u \<and>
     example_run shutdown_task_step toy_api toy_config (replicate 8 (ExServer (ActConn 0 env_pending))) u = Some t \<and>
     length (sy_conns (ex_sys t)) = 1 \<and>
     sy_serve (ex_sys u) = SvReturned (Inr ()) \<and> (\<forall>c \<in> set (sy_conns (ex_sys t)). conn_done c)"
proof -
  let ?quiet = "replicate 4 (ExServer (ActServe sv_quiet))"
  let ?polls = "replicate 8 (ExServer (ActConn 0 env_pending)) :: nat example_action list"
  obtain u t where run: "example_run shutdown_task_step toy_api toy_config ?quiet shutdown_signalled = Some u"
      "example_run shutdown_task_step toy_api toy_config ?polls u = Some t"
    and len: "length (sy_conns (ex_sys u)) = 1" "length (sy_conns (ex_sys t)) = 1"
    by (simp add: shutdown_signalled_def ec_serve_def example_start_def run_simps)
  have "4 \<le> count_if moves_serve (server_actions ?quiet)" "8 \<le> count_if (moves_conn 0) (server_actions ?polls)"
    "\<forall>env. ExServer (ActServe env) \<in> set ?quiet \<longrightarrow> quiet env"
    by (auto simp: replicate_numeral moves_serve_def moves_conn_def quiet_def sv_quiet_def)
  with shutdown_example_stops [OF shutdown_signalled_simps(3,1,2) run] run len show ?thesis by simp
qed

end
