(* ===== verification/TlsSystem.thy ===== *)
theory TlsSystem
  imports Serving Handshake
begin

text \<open>
  The server with a TLS acceptor: the system of the theory \<open>ServeTask\<close> in which the future of
  the acceptor that a connection task polls (\<open>acceptor.accept(tcp_stream, service)\<close> in
  \<open>src/src/server.rs\<close>) is no longer left to the environment but is the future of
  \<open>RustlsAcceptor\<close> or \<open>OpenSSLAcceptor\<close>, together with the store of the reloadable
  configurations, which the user may reload at any moment.

  The composed system refines the system (\<open>tls_system\<close>), so that every theorem about the
  reachable states of the server holds with TLS; what is proved here is what only the
  composition shows.
\<close>

section \<open>The composition\<close>

text \<open>
  What an acceptor brings: the future of a connection as it is when the task is spawned, what
  the call \<open>acceptor.accept(tcp_stream, service)\<close> itself does, how the future is polled, how the
  store is seen by the call and the polls, and the reloads.
\<close>

record ('fe, 'f, 'out, 'h, 'op) tls_server =
  tv_start :: 'f
  tv_call :: "'fe \<Rightarrow> 'f \<Rightarrow> 'f"
  tv_poll :: "'fe \<Rightarrow> 'f \<Rightarrow> 'out io_result poll panicking \<times> 'f"
  tv_env :: "'h \<Rightarrow> 'fe \<Rightarrow> 'fe"
  tv_reload :: "'op \<Rightarrow> 'h \<Rightarrow> 'h"

text \<open>
  The acceptor's side of a connection task: the future, the stream and service it gave, and,
  as history variables, what the acceptor was called with and its future was polled with.
\<close>

record ('f, 'fe, 'out) accepting =
  ac_called :: "'fe option"
  ac_future :: 'f
  ac_accepted :: "'out option"
  ac_polls :: "'fe list"

definition accepting_new :: "('fe, 'f, 'out, 'h, 'op) tls_server \<Rightarrow> ('f, 'fe, 'out) accepting" where
  "accepting_new sv = \<lparr>ac_called = None, ac_future = tv_start sv, ac_accepted = None, ac_polls = []\<rparr>"

text \<open>
  When the task is polled first, \<open>select!\<close> evaluates the expressions of all its branches before
  it polls any of them: the acceptor is called even if a latch is already notified.
\<close>

definition accept_call ::
  "('fe, 'f, 'out, 'h, 'op) tls_server \<Rightarrow> 'h \<Rightarrow> 'fe \<Rightarrow> ('f, 'fe, 'out) accepting \<Rightarrow> ('f, 'fe, 'out) accepting" where
  "accept_call sv store fenv a =
     (case ac_called a of
        Some env \<Rightarrow> a
      | None \<Rightarrow>
          (let env = tv_env sv store fenv
           in a\<lparr>ac_called := Some env, ac_future := tv_call sv env (ac_future a)\<rparr>))"

definition accept_poll ::
  "('fe, 'f, 'out, 'h, 'op) tls_server \<Rightarrow> 'h \<Rightarrow> 'fe \<Rightarrow> ('f, 'fe, 'out) accepting \<Rightarrow>
   'out io_result poll panicking \<times> ('f, 'fe, 'out) accepting" where
  "accept_poll sv store fenv a =
     (let (r, fut) = tv_poll sv (tv_env sv store fenv) (ac_future a)
      in (r, a\<lparr>ac_future := fut,
              ac_accepted := (case r of Returns (Ready (Inr out)) \<Rightarrow> Some out | _ \<Rightarrow> None),
              ac_polls := ac_polls a @ [tv_env sv store fenv]\<rparr>))"

text \<open>What the task's \<open>select!\<close> sees of the poll.\<close>

fun poll_outcome :: "'out io_result poll \<Rightarrow> unit io_result poll" where
  "poll_outcome Pending = Pending"
| "poll_outcome (Ready r) = Ready (res_map (\<lambda>_. ()) r)"

text \<open>One step of a connection task; a panic of the future unwinds the task.\<close>

definition tls_conn_step ::
  "'n notify_api \<Rightarrow> conn_config \<Rightarrow> ('fe, 'f, 'out, 'h, 'op) tls_server \<Rightarrow> 'h \<Rightarrow> 'fe \<Rightarrow> conn_env \<Rightarrow>
   ('a, 'n) handle_inner \<Rightarrow> 'a conn \<Rightarrow> ('f, 'fe, 'out) accepting \<Rightarrow>
   ('a, 'n) handle_inner \<times> 'a conn \<times> ('f, 'fe, 'out) accepting"
where
  "tls_conn_step api cfg sv store fenv env h c a =
     (case cn_pc c of
        AccShutdown \<Rightarrow>
          (let (h', c') = conn_step api cfg env h c in (h', c', accept_call sv store fenv a))
      | AccAccept \<Rightarrow>
          (let (r, a') = accept_poll sv store fenv a
           in case r of
                Panics msg \<Rightarrow> (h, conn_abort c, a')
              | Returns p \<Rightarrow>
                  (let (h', c') = conn_step api cfg (env\<lparr>ce_accept := poll_outcome p\<rparr>) h c
                   in (h', c', a')))
      | _ \<Rightarrow> (let (h', c') = conn_step api cfg env h c in (h', c', a)))"

record ('a, 'n, 'f, 'fe, 'out, 'h) tls_sys =
  ts_sys :: "('a, 'n) sys"
  ts_accepts :: "('f, 'fe, 'out) accepting list"
  ts_store :: 'h

datatype ('a, 'fe, 'op) tls_action =
    TaSys "'a action"
  | TaConn nat 'fe conn_env
  | TaReload 'op

fun polls_conn :: "'a action \<Rightarrow> bool" where
  "polls_conn (ActConn i env) = True"
| "polls_conn _ = False"

fun tls_sys_step ::
  "'n notify_api \<Rightarrow> conn_config \<Rightarrow> ('fe, 'f, 'out, 'h, 'op) tls_server \<Rightarrow> ('a, 'fe, 'op) tls_action \<Rightarrow>
   ('a, 'n, 'f, 'fe, 'out, 'h) tls_sys \<Rightarrow> ('a, 'n, 'f, 'fe, 'out, 'h) tls_sys option"
where
  "tls_sys_step api cfg sv (TaSys b) s =
     (if polls_conn b then None
      else case sys_step api cfg b (ts_sys s) of
             None \<Rightarrow> None
           | Some t \<Rightarrow> Some (s\<lparr>ts_sys := t, ts_accepts := ts_accepts s @
               replicate (length (sy_conns t) - length (sy_conns (ts_sys s))) (accepting_new sv)\<rparr>))"
| "tls_sys_step api cfg sv (TaConn i fenv env) s =
     (let y = ts_sys s
      in if i < length (sy_conns y)
         then let (h, c, a) = tls_conn_step api cfg sv (ts_store s) fenv env (sy_handle y)
                    (sy_conns y ! i) (ts_accepts s ! i)
              in Some (s\<lparr>ts_sys := y\<lparr>sy_handle := h, sy_conns := (sy_conns y)[i := c]\<rparr>,
                         ts_accepts := (ts_accepts s)[i := a]\<rparr>)
         else None)"
| "tls_sys_step api cfg sv (TaReload x) s = Some (s\<lparr>ts_store := tv_reload sv x (ts_store s)\<rparr>)"

definition tls_start ::
  "'n notify_api \<Rightarrow> 'h \<Rightarrow> ('a, 'n, 'f, 'fe, 'out, 'h) tls_sys" where
  "tls_start api store = \<lparr>ts_sys = sys_start api, ts_accepts = [], ts_store = store\<rparr>"

inductive tls_moves ::
  "'n notify_api \<Rightarrow> conn_config \<Rightarrow> ('fe, 'f, 'out, 'h, 'op) tls_server \<Rightarrow>
   ('a, 'n, 'f, 'fe, 'out, 'h) tls_sys \<Rightarrow> ('a, 'n, 'f, 'fe, 'out, 'h) tls_sys \<Rightarrow> bool" for api cfg sv
where
  tls_moves: "tls_sys_step api cfg sv b s = Some t \<Longrightarrow> tls_moves api cfg sv s t"

inductive_simps tls_moves_iff: "tls_moves api cfg sv s t"

abbreviation tls_reachable ::
  "'n notify_api \<Rightarrow> conn_config \<Rightarrow> ('fe, 'f, 'out, 'h, 'op) tls_server \<Rightarrow> 'h \<Rightarrow>
   ('a, 'n, 'f, 'fe, 'out, 'h) tls_sys \<Rightarrow> bool" where
  "tls_reachable api cfg sv store \<equiv> reach (\<lambda>s. s = tls_start api store) (tls_moves api cfg sv)"

fun tls_run ::
  "'n notify_api \<Rightarrow> conn_config \<Rightarrow> ('fe, 'f, 'out, 'h, 'op) tls_server \<Rightarrow> ('a, 'fe, 'op) tls_action list \<Rightarrow>
   ('a, 'n, 'f, 'fe, 'out, 'h) tls_sys \<Rightarrow> ('a, 'n, 'f, 'fe, 'out, 'h) tls_sys option"
where
  "tls_run api cfg sv [] s = Some s"
| "tls_run api cfg sv (b # bs) s =
     (case tls_sys_step api cfg sv b s of None \<Rightarrow> None | Some t \<Rightarrow> tls_run api cfg sv bs t)"

section \<open>The composed system refines the system\<close>

text \<open>
  The action of the system that a step of the composition is: a poll of a task is a poll with
  the result of the acceptor's future, or the unwinding of the task; a reload is none.
\<close>

fun tls_label ::
  "('fe, 'f, 'out, 'h, 'op) tls_server \<Rightarrow> ('a, 'n, 'f, 'fe, 'out, 'h) tls_sys \<Rightarrow>
   ('a, 'fe, 'op) tls_action \<Rightarrow> 'a action option"
where
  "tls_label sv s (TaSys b) = Some b"
| "tls_label sv s (TaConn i fenv env) =
     (if cn_pc (sy_conns (ts_sys s) ! i) = AccAccept
      then (case fst (accept_poll sv (ts_store s) fenv (ts_accepts s ! i)) of
              Panics msg \<Rightarrow> Some (ActAbort i)
            | Returns p \<Rightarrow> Some (ActConn i (env\<lparr>ce_accept := poll_outcome p\<rparr>)))
      else Some (ActConn i env))"
| "tls_label sv s (TaReload x) = None"

lemma tls_conn_step_other:
  "cn_pc c \<noteq> AccAccept \<Longrightarrow> tls_conn_step api cfg sv store fenv env h c a =
    (fst (conn_step api cfg env h c), snd (conn_step api cfg env h c),
     if cn_pc c = AccShutdown then accept_call sv store fenv a else a)"
  by (cases "cn_pc c") (simp_all add: tls_conn_step_def case_prod_beta)

lemma tls_conn_step_accept:
  "cn_pc c = AccAccept \<Longrightarrow> tls_conn_step api cfg sv store fenv env h c a =
    (case fst (accept_poll sv store fenv a) of
       Panics msg \<Rightarrow> (h, conn_abort c, snd (accept_poll sv store fenv a))
     | Returns p \<Rightarrow>
         (fst (conn_step api cfg (env\<lparr>ce_accept := poll_outcome p\<rparr>) h c),
          snd (conn_step api cfg (env\<lparr>ce_accept := poll_outcome p\<rparr>) h c),
          snd (accept_poll sv store fenv a)))"
  by (simp add: tls_conn_step_def case_prod_beta split: panicking.split)

lemma tls_step_label:
  "tls_sys_step api cfg sv b s = Some t \<Longrightarrow>
    (case tls_label sv s b of
       Some x \<Rightarrow> sys_step api cfg x (ts_sys s) = Some (ts_sys t)
     | None \<Rightarrow> ts_sys t = ts_sys s)"
proof (cases b)
  case (TaConn i fenv env)
  moreover assume "tls_sys_step api cfg sv b s = Some t"
  ultimately show ?thesis
    by (cases "cn_pc (sy_conns (ts_sys s) ! i) = AccAccept")
      (auto simp: tls_conn_step_other tls_conn_step_accept Let_def case_prod_beta
        split: if_splits panicking.splits)
qed (auto split: option.splits if_splits)

interpretation tls_system: simulation "\<lambda>s. s = sys_start api" "sys_moves api cfg"
    "\<lambda>s. s = tls_start api store" "tls_moves api cfg sv" ts_sys
  for api :: "'n notify_api" and cfg and sv :: "('fe, 'f, 'out, 'h, 'op) tls_server" and store
proof
  show "ts_sys t = sys_start api" if "t = tls_start api store" for t :: "('a, 'n, 'f, 'fe, 'out, 'h) tls_sys"
    using that by (simp add: tls_start_def)
  show "sys_moves api cfg (ts_sys t) (ts_sys u) \<or> ts_sys u = ts_sys t" if "tls_moves api cfg sv t u"
    for t u :: "('a, 'n, 'f, 'fe, 'out, 'h) tls_sys"
  proof -
    from that obtain b where "tls_sys_step api cfg sv b t = Some u" by (auto simp: tls_moves_iff)
    from tls_step_label [OF this] show ?thesis by (auto simp: sys_moves_iff split: option.splits)
  qed
qed

section \<open>What a task does with the result of its acceptor\<close>

lemma drive_snoc:
  "drive poll envs st = (Returns Pending, st') \<Longrightarrow> drive poll (envs @ [env]) st = poll env st'"
proof (induction envs arbitrary: st)
  case Nil
  obtain r u where "poll env st' = (r, u)" by fastforce
  with Nil show ?case by (auto split: panicking.split poll.split)
next
  case (Cons e envs)
  obtain r u where "poll e st = (r, u)" by fastforce
  with Cons show ?case by (auto split: panicking.splits poll.splits)
qed

text \<open>The outcome of a future that has given \<open>r\<close>, in a task of phase \<open>ph\<close>.\<close>

definition accept_log :: "conn_config \<Rightarrow> 'a \<Rightarrow> 'out io_result poll panicking \<Rightarrow> 'a handler_log" where
  "accept_log cfg remote r =
     (case r of Returns (Ready (Inl e)) \<Rightarrow> call_handler (cc_error_handler cfg) (Some remote) e [] | _ \<Rightarrow> [])"

fun accept_output :: "'out io_result poll panicking \<Rightarrow> 'out option" where
  "accept_output (Returns (Ready (Inr out))) = Some out"
| "accept_output (Panics msg) = None"
| "accept_output (Returns Pending) = None"
| "accept_output (Returns (Ready (Inl e))) = None"

text \<open>The future that the polls drive: what the call made of it.\<close>

definition accept_started :: "('fe, 'f, 'out, 'h, 'op) tls_server \<Rightarrow> ('f, 'fe, 'out) accepting \<Rightarrow> 'f" where
  "accept_started sv a = (case ac_called a of None \<Rightarrow> tv_start sv | Some env \<Rightarrow> tv_call sv env (tv_start sv))"

text \<open>An acceptor whose call does nothing but make the future.\<close>

definition lazy_call :: "('fe, 'f, 'out, 'h, 'op) tls_server \<Rightarrow> bool" where
  "lazy_call sv \<longleftrightarrow> (\<forall>env fut. tv_call sv env fut = fut)"

lemma lazy_started: "lazy_call sv \<Longrightarrow> accept_started sv a = tv_start sv"
  by (simp add: lazy_call_def accept_started_def split: option.split)

lemma lazy_future: "lazy_call sv \<Longrightarrow> ac_future (accept_call sv store fenv a) = ac_future a"
  by (simp add: lazy_call_def accept_call_def Let_def split: option.split)

lemma accept_call_keeps [simp]:
  "ac_accepted (accept_call sv store fenv a) = ac_accepted a" "ac_polls (accept_call sv store fenv a) = ac_polls a"
  "ac_called (accept_call sv store fenv a) \<noteq> None" "ac_called (accept_call sv store fenv a) = None \<longleftrightarrow> False"
  by (simp_all add: accept_call_def Let_def split: option.split)

definition accept_inv ::
  "conn_config \<Rightarrow> ('fe, 'f, 'out, 'h, 'op) tls_server \<Rightarrow> 'a conn \<Rightarrow> ('f, 'fe, 'out) accepting \<Rightarrow> bool"
where
  "accept_inv cfg sv c a \<longleftrightarrow>
     (let r = drive (tv_poll sv) (ac_polls a) (accept_started sv a)
      in (ac_called a = None \<longrightarrow> ac_polls a = []) \<and>
         (ac_polls a = [] \<longrightarrow> ac_future a = accept_started sv a) \<and>
         (conn_phase c = PhAccept \<and> cn_pc c \<noteq> AccShutdown \<longrightarrow> ac_called a \<noteq> None) \<and>
         (conn_phase c = PhAccept \<longrightarrow> r = (Returns Pending, ac_future a)) \<and>
         cn_log c = accept_log cfg (cn_remote c) (fst r) \<and>
         ac_accepted a = accept_output (fst r) \<and>
         (cn_serve c \<noteq> None \<longleftrightarrow> ac_accepted a \<noteq> None) \<and>
         (ac_polls a \<noteq> [] \<longrightarrow>
           fst (drive (tv_poll sv) (butlast (ac_polls a)) (accept_started sv a)) = Returns Pending))"

lemma accept_inv_new: "accept_inv cfg sv (conn_spawn remote) (accepting_new sv)"
  by (simp add: accept_inv_def conn_spawn_def accepting_new_def accept_started_def accept_log_def)

lemma accept_inv_keep:
  assumes "accept_inv cfg sv c a"
    and "conn_phase d = PhAccept \<longrightarrow> conn_phase c = PhAccept \<and> (cn_pc c = AccShutdown \<longrightarrow> cn_pc d = AccShutdown)"
    and "cn_log d = cn_log c" and "cn_serve d = cn_serve c" and "cn_remote d = cn_remote c"
  shows "accept_inv cfg sv d a"
  using assms by (auto simp: accept_inv_def Let_def)

lemma accept_inv_called:
  assumes "accept_inv cfg sv c a" and "conn_phase c = PhAccept"
    and "cn_log d = cn_log c" and "cn_serve d = cn_serve c" and "cn_remote d = cn_remote c"
  shows "accept_inv cfg sv d (accept_call sv store fenv a)"
  using assms
  by (cases "ac_called a") (auto simp: accept_inv_def accept_call_def accept_started_def Let_def)

lemma conn_step_keeps:
  assumes "cn_pc c \<noteq> AccAccept"
  shows "conn_phase (snd (conn_step api cfg env h c)) = PhAccept \<longrightarrow> conn_phase c = PhAccept"
    and "cn_log (snd (conn_step api cfg env h c)) = cn_log c"
    and "cn_serve (snd (conn_step api cfg env h c)) = cn_serve c"
  using assms
  by (cases "cn_pc c";
      simp add: conn_step_def conn_simps conn_phase_def case_prod_beta split: poll.split sum.split)+

lemma conn_abort_keeps [simp]:
  "conn_phase (conn_abort c) = PhDrop" "cn_log (conn_abort c) = cn_log c"
  "cn_serve (conn_abort c) = cn_serve c" "cn_remote (conn_abort c) = cn_remote c"
  by (cases "cn_pc c"; simp add: conn_abort_def conn_return_def conn_phase_def)+

lemma accept_inv_abort: "accept_inv cfg sv c a \<Longrightarrow> accept_inv cfg sv (conn_abort c) a"
  by (erule accept_inv_keep) simp_all

lemma accept_inv_step:
  assumes "accept_inv cfg sv c a" and "conn_wf cfg c"
    and "tls_conn_step api cfg sv store fenv env h c a = (h', c', a')"
  shows "accept_inv cfg sv c' a'"
proof (cases "cn_pc c = AccAccept")
  case False
  with assms(3) have c': "c' = snd (conn_step api cfg env h c)"
    and a': "a' = (if cn_pc c = AccShutdown then accept_call sv store fenv a else a)"
    by (auto simp: tls_conn_step_other)
  note keeps = conn_step_keeps [OF False, of api cfg env h]
  show ?thesis
  proof (cases "cn_pc c = AccShutdown")
    case True
    then have "conn_phase c = PhAccept" by (simp add: conn_phase_def)
    from accept_inv_called [OF assms(1) this keeps(2,3) conn_step_remote] True show ?thesis by (simp add: a' c')
  next
    case other: False
    with accept_inv_keep [OF assms(1) _ keeps(2,3) conn_step_remote] keeps(1) show ?thesis by (simp add: a' c')
  qed
next
  case True
  then have ph: "conn_phase c = PhAccept" by (simp add: conn_phase_def)
  then have wait: "drive (tv_poll sv) (ac_polls a) (accept_started sv a) = (Returns Pending, ac_future a)"
    and quiet: "cn_log c = []" "cn_serve c = None" and called: "ac_called a \<noteq> None"
    using assms(1,2) True by (auto simp: accept_inv_def accept_log_def conn_wf_def Let_def)
  obtain r fut where poll: "tv_poll sv (tv_env sv store fenv) (ac_future a) = (r, fut)" by fastforce
  with wait have last: "drive (tv_poll sv) (ac_polls a @ [tv_env sv store fenv]) (accept_started sv a) = (r, fut)"
    by (simp add: drive_snoc)
  from wait have before: "fst (drive (tv_poll sv) (ac_polls a) (accept_started sv a)) = Returns Pending" by simp
  have a': "a' = a\<lparr>ac_future := fut, ac_accepted := accept_output r, ac_polls := ac_polls a @ [tv_env sv store fenv]\<rparr>"
    using assms(3) poll by (cases r rule: accept_output.cases)
      (auto simp: tls_conn_step_accept [OF True] accept_poll_def split: panicking.splits)
  then have same: "accept_started sv a' = accept_started sv a" by (simp add: accept_started_def)
  show ?thesis
  proof (cases r rule: accept_output.cases)
    case (1 out)
    with assms(3) poll last before a' same called quiet True show ?thesis
      by (auto simp: tls_conn_step_accept accept_poll_def accept_inv_def accept_log_def conn_step_def
          conn_accepted_def conn_phase_def Let_def split: option.splits)
  next
    case (2 msg)
    with assms(3) poll last before a' same called quiet True show ?thesis
      by (auto simp: tls_conn_step_accept accept_poll_def accept_inv_def accept_log_def)
  next
    case 3
    with assms(3) poll last before a' same called quiet True show ?thesis
      by (auto simp: tls_conn_step_accept accept_poll_def accept_inv_def accept_log_def conn_step_def conn_goto_def)
  next
    case (4 e)
    with assms(3) poll last before a' same called quiet True show ?thesis
      by (auto simp: tls_conn_step_accept accept_poll_def accept_inv_def accept_log_def conn_step_def
          conn_accept_failed_def conn_return_def conn_phase_def call_handler_def)
  qed
qed

definition accepts_inv ::
  "conn_config \<Rightarrow> ('fe, 'f, 'out, 'h, 'op) tls_server \<Rightarrow> ('a, 'n, 'f, 'fe, 'out, 'h) tls_sys \<Rightarrow> bool" where
  "accepts_inv cfg sv s \<longleftrightarrow> list_all2 (accept_inv cfg sv) (sy_conns (ts_sys s)) (ts_accepts s)"

lemma accepts_inv_sys:
  assumes "accepts_inv cfg sv s" and "sys_step api cfg b (ts_sys s) = Some t" and "\<not> polls_conn b"
  shows "list_all2 (accept_inv cfg sv) (sy_conns t)
    (ts_accepts s @ replicate (length (sy_conns t) - length (sy_conns (ts_sys s))) (accepting_new sv))"
proof (cases b)
  case (ActServe env)
  let ?new = "so_spawn (serve_step api cfg env (sy_handle (ts_sys s)) (sy_serve (ts_sys s)))"
  have t: "sy_conns t = sy_conns (ts_sys s) @ ?new" using assms(2) ActServe by (auto simp: Let_def)
  moreover have "list_all2 (accept_inv cfg sv) ?new (replicate (length ?new) (accepting_new sv))"
    using spawned_new accept_inv_new by (fastforce simp: list_all2_conv_all_nth dest: nth_mem)
  ultimately show ?thesis using assms(1) by (auto simp: accepts_inv_def intro: list_all2_appendI)
next
  case (ActAbort i)
  with assms show ?thesis
    by (auto simp: accepts_inv_def list_all2_conv_all_nth nth_list_update split: if_splits intro!: accept_inv_abort)
next
  case (ActConn i env)
  with assms(3) show ?thesis by simp
qed (use assms in \<open>auto simp: accepts_inv_def split: nat.splits\<close>)

lemma accepts_inv_step:
  assumes "counted cfg (ts_sys s)" and "accepts_inv cfg sv s" and "tls_moves api cfg sv s t"
  shows "accepts_inv cfg sv t"
proof -
  from assms(3) obtain b where step: "tls_sys_step api cfg sv b s = Some t" by (auto simp: tls_moves_iff)
  show ?thesis
  proof (cases b)
    case (TaSys x)
    with step accepts_inv_sys [OF assms(2)] show ?thesis
      by (auto simp: accepts_inv_def split: if_splits option.splits)
  next
    case (TaConn i fenv env)
    let ?y = "ts_sys s"
    obtain h c a where conn: "tls_conn_step api cfg sv (ts_store s) fenv env (sy_handle ?y)
        (sy_conns ?y ! i) (ts_accepts s ! i) = (h, c, a)" by (metis prod_cases3)
    with step TaConn have i: "i < length (sy_conns ?y)"
      and t: "sy_conns (ts_sys t) = (sy_conns ?y)[i := c]" "ts_accepts t = (ts_accepts s)[i := a]"
      by (auto simp: Let_def split: if_splits)
    have "accept_inv cfg sv (sy_conns ?y ! i) (ts_accepts s ! i)" "conn_wf cfg (sy_conns ?y ! i)"
      using assms(1,2) i by (auto simp: accepts_inv_def counted_def list_all2_conv_all_nth)
    from accept_inv_step [OF this conn] assms(2) t show ?thesis
      by (simp add: accepts_inv_def list_all2_update_cong)
  next
    case (TaReload x)
    with step assms(2) show ?thesis by (auto simp: accepts_inv_def)
  qed
qed

lemma tls_counted_step: "counted cfg (ts_sys s) \<Longrightarrow> tls_moves api cfg sv s t \<Longrightarrow> counted cfg (ts_sys t)"
  using tls_system.sim_step [of api cfg sv s t] counted_step by fastforce

interpretation tls_accepts: relative_invariant "\<lambda>s. s = tls_start api store" "tls_moves api cfg sv"
    "\<lambda>s. counted cfg (ts_sys s)" "accepts_inv cfg sv"
  for api :: "'n notify_api" and cfg and sv :: "('fe, 'f, 'out, 'h, 'op) tls_server" and store
proof
  show "counted cfg (ts_sys s)" if "s = tls_start api store" for s :: "('a, 'n, 'f, 'fe, 'out, 'h) tls_sys"
    using that counted_start [OF refl] by (simp add: tls_start_def)
  show "accepts_inv cfg sv s" if "s = tls_start api store" for s :: "('a, 'n, 'f, 'fe, 'out, 'h) tls_sys"
    using that by (simp add: tls_start_def sys_start_def accepts_inv_def)
qed (blast intro: tls_counted_step accepts_inv_step)+

lemma tls_accept_inv:
  assumes "tls_reachable api cfg sv store s" and "i < length (sy_conns (ts_sys s))"
  shows "accept_inv cfg sv (sy_conns (ts_sys s) ! i) (ts_accepts s ! i) \<and> conn_wf cfg (sy_conns (ts_sys s) ! i)"
  using tls_accepts.both.reach_inv [OF assms(1)] assms(2)
  by (auto simp: accepts_inv_def counted_def list_all2_conv_all_nth)

text \<open>What the invariant says when the future has given \<open>r\<close> so far.\<close>

lemma tls_outcome:
  assumes "tls_reachable api cfg sv store s" and "i < length (sy_conns (ts_sys s))"
    and "fst (drive (tv_poll sv) (ac_polls (ts_accepts s ! i)) (accept_started sv (ts_accepts s ! i))) = r"
  shows "conn_phase (sy_conns (ts_sys s) ! i) = PhAccept \<Longrightarrow> r = Returns Pending"
    and "cn_log (sy_conns (ts_sys s) ! i) = accept_log cfg (cn_remote (sy_conns (ts_sys s) ! i)) r"
    and "ac_accepted (ts_accepts s ! i) = accept_output r"
    and "cn_serve (sy_conns (ts_sys s) ! i) \<noteq> None \<longleftrightarrow> accept_output r \<noteq> None"
    and "ac_polls (ts_accepts s ! i) \<noteq> [] \<Longrightarrow>
      fst (drive (tv_poll sv) (butlast (ac_polls (ts_accepts s ! i))) (accept_started sv (ts_accepts s ! i))) = Returns Pending"
    and "conn_phase (sy_conns (ts_sys s) ! i) \<noteq> PhAccept \<Longrightarrow> cn_serve (sy_conns (ts_sys s) ! i) = None \<Longrightarrow>
      conn_phase (sy_conns (ts_sys s) ! i) = PhDrop \<and> \<not> cn_stream_open (sy_conns (ts_sys s) ! i)"
proof -
  let ?c = "sy_conns (ts_sys s) ! i"
  have inv: "accept_inv cfg sv ?c (ts_accepts s ! i)" and wf: "conn_wf cfg ?c"
    using tls_accept_inv [OF assms(1,2)] by auto
  show "conn_phase ?c = PhAccept \<Longrightarrow> r = Returns Pending"
    "cn_log ?c = accept_log cfg (cn_remote ?c) r" "ac_accepted (ts_accepts s ! i) = accept_output r"
    "cn_serve ?c \<noteq> None \<longleftrightarrow> accept_output r \<noteq> None"
    "ac_polls (ts_accepts s ! i) \<noteq> [] \<Longrightarrow>
      fst (drive (tv_poll sv) (butlast (ac_polls (ts_accepts s ! i))) (accept_started sv (ts_accepts s ! i))) = Returns Pending"
    using inv assms(3) unfolding accept_inv_def Let_def by (auto simp del: not_None_eq)
  show "conn_phase ?c \<noteq> PhAccept \<Longrightarrow> cn_serve ?c = None \<Longrightarrow> conn_phase ?c = PhDrop \<and> \<not> cn_stream_open ?c"
    using wf by (cases "conn_phase ?c") (auto simp: conn_wf_def)
qed

section \<open>Runs\<close>

lemma tls_run_append:
  "tls_run api cfg sv (bs @ bs') s =
    (case tls_run api cfg sv bs s of None \<Rightarrow> None | Some t \<Rightarrow> tls_run api cfg sv bs' t)"
  by (induction bs arbitrary: s) (auto split: option.split)

lemma tls_run_reachable:
  "tls_reachable api cfg sv store s \<Longrightarrow> tls_run api cfg sv bs s = Some t \<Longrightarrow>
   tls_reachable api cfg sv store t"
proof (induction bs arbitrary: s)
  case (Cons b bs)
  from Cons.prems(2) obtain u where "tls_sys_step api cfg sv b s = Some u" and "tls_run api cfg sv bs u = Some t"
    by (auto split: option.splits)
  then show ?case using Cons.IH [OF reach_step [OF Cons.prems(1) tls_moves]] by blast
qed simp

lemma tls_start_reachable:
  "tls_run api cfg sv bs (tls_start api store) = Some t \<Longrightarrow> tls_reachable api cfg sv store t"
  by (rule tls_run_reachable [OF reach_start]) simp_all

fun tls_reloads :: "('a, 'fe, 'op) tls_action list \<Rightarrow> 'op list" where
  "tls_reloads [] = []"
| "tls_reloads (TaReload x # bs) = x # tls_reloads bs"
| "tls_reloads (b # bs) = tls_reloads bs"

lemma tls_reloads_append [simp]: "tls_reloads (bs @ bs') = tls_reloads bs @ tls_reloads bs'"
  by (induction bs rule: tls_reloads.induct) simp_all

lemma tls_run_store:
  "tls_run api cfg sv bs s = Some t \<Longrightarrow> ts_store t = fold (tv_reload sv) (tls_reloads bs) (ts_store s)"
proof (induction bs arbitrary: s)
  case (Cons b bs)
  from Cons.prems obtain u where u: "tls_sys_step api cfg sv b s = Some u" "tls_run api cfg sv bs u = Some t"
    by (auto split: option.splits)
  then have "ts_store u = fold (tv_reload sv) (tls_reloads [b]) (ts_store s)"
    by (cases b) (auto simp: Let_def split: option.splits if_splits prod.splits)
  with Cons.IH [OF u(2)] show ?case by (cases b) simp_all
qed simp

text \<open>Every poll of the acceptor's future saw the store as the reloads before it had left it.\<close>

lemma tls_step_polls:
  assumes "tls_sys_step api cfg sv b s = Some t" and "i < length (ts_accepts t)"
    and "length (sy_conns (ts_sys s)) = length (ts_accepts s)"
  shows "ac_polls (ts_accepts t ! i) = [] \<or>
    i < length (ts_accepts s) \<and>
    (ac_polls (ts_accepts t ! i) = ac_polls (ts_accepts s ! i) \<or>
     (\<exists>fenv env. b = TaConn i fenv env \<and>
       ac_polls (ts_accepts t ! i) = ac_polls (ts_accepts s ! i) @ [tv_env sv (ts_store s) fenv]))"
proof (cases b)
  case (TaConn j fenv env)
  let ?c = "sy_conns (ts_sys s) ! j" and ?a = "ts_accepts s ! j"
  obtain h c a where conn: "tls_conn_step api cfg sv (ts_store s) fenv env (sy_handle (ts_sys s)) ?c ?a = (h, c, a)"
    by (metis prod_cases3)
  with assms TaConn have t: "ts_accepts t = (ts_accepts s)[j := a]" "j < length (ts_accepts s)"
    by (auto simp: Let_def split: if_splits)
  have "ac_polls a = ac_polls ?a \<or> ac_polls a = ac_polls ?a @ [tv_env sv (ts_store s) fenv]"
    using conn by (cases "cn_pc ?c = AccAccept")
      (auto simp: tls_conn_step_accept tls_conn_step_other accept_poll_def case_prod_beta split: panicking.splits)
  with t assms(2) TaConn show ?thesis by (auto simp: nth_list_update)
qed (use assms in \<open>auto simp: nth_append accepting_new_def split: if_splits option.splits\<close>)

lemma tls_run_polls:
  assumes "tls_run api cfg sv bs (tls_start api store) = Some s"
    and "i < length (ts_accepts s)" and "p \<in> set (ac_polls (ts_accepts s ! i))"
  shows "\<exists>before fenv env after. bs = before @ TaConn i fenv env # after \<and>
    p = tv_env sv (fold (tv_reload sv) (tls_reloads before) store) fenv"
  using assms
proof (induction bs arbitrary: s rule: rev_induct)
  case Nil
  then show ?case by (auto simp: tls_start_def)
next
  case (snoc b bs)
  from snoc.prems(1) obtain u where u: "tls_run api cfg sv bs (tls_start api store) = Some u"
      "tls_sys_step api cfg sv b u = Some s"
    by (auto simp: tls_run_append split: option.splits)
  have "length (sy_conns (ts_sys u)) = length (ts_accepts u)"
    using tls_accepts.reach_inv2 [OF tls_start_reachable [OF u(1)]]
    by (auto simp: accepts_inv_def dest: list_all2_lengthD)
  from tls_step_polls [OF u(2) snoc.prems(2) this] snoc.prems(3)
  consider "i < length (ts_accepts u)" "p \<in> set (ac_polls (ts_accepts u ! i))"
    | fenv env where "b = TaConn i fenv env" "p = tv_env sv (ts_store u) fenv"
    by auto
  then show ?case
  proof cases
    case 1
    from snoc.IH [OF u(1) this] obtain before fenv env after where
      "bs = before @ TaConn i fenv env # after"
      "p = tv_env sv (fold (tv_reload sv) (tls_reloads before) store) fenv" by blast
    then show ?thesis by force
  next
    case 2
    with tls_run_store [OF u(1)] show ?thesis by (auto simp: tls_start_def)
  qed
qed

section \<open>Liveness of the composition\<close>

definition tls_moves_conn :: "nat \<Rightarrow> ('a, 'fe, 'op) tls_action \<Rightarrow> bool" where
  "tls_moves_conn i b \<longleftrightarrow> (\<exists>fenv env. b = TaConn i fenv env)"

lemma moves_conn_simps [simp]:
  "moves_conn i (ActConn j env) = (j = i)" "\<not> polls_conn x \<Longrightarrow> \<not> moves_conn i x"
  "tls_moves_conn i (TaConn j fenv env) = (j = i)" "\<not> tls_moves_conn i (TaSys x)"
  "\<not> tls_moves_conn i (TaReload y)"
  by (auto simp: moves_conn_def tls_moves_conn_def)

definition never_panics :: "('fe, 'f, 'out, 'h, 'op) tls_server \<Rightarrow> bool" where
  "never_panics sv \<longleftrightarrow> (\<forall>envs a msg. fst (drive (tv_poll sv) envs (accept_started sv a)) \<noteq> Panics msg)"

lemma tls_label_moves:
  assumes "tls_reachable api cfg sv store s" and "never_panics sv"
    and "tls_sys_step api cfg sv (TaConn i fenv env) s = Some t"
  shows "\<exists>p. tls_label sv s (TaConn i fenv env) = Some (ActConn i (env\<lparr>ce_accept := p\<rparr>))"
proof (cases "cn_pc (sy_conns (ts_sys s) ! i) = AccAccept")
  case False
  have "env = env\<lparr>ce_accept := ce_accept env\<rparr>" by simp
  with False show ?thesis by (metis tls_label.simps(2))
next
  case True
  let ?a = "ts_accepts s ! i"
  from assms(3) have "i < length (sy_conns (ts_sys s))" by (auto simp: Let_def split: if_splits)
  with tls_accept_inv [OF assms(1)] True
  have "drive (tv_poll sv) (ac_polls ?a) (accept_started sv ?a) = (Returns Pending, ac_future ?a)"
    by (simp add: accept_inv_def conn_phase_def Let_def)
  from drive_snoc [OF this] assms(2)
  have "fst (tv_poll sv (tv_env sv (ts_store s) fenv) (ac_future ?a)) \<noteq> Panics msg" for msg
    unfolding never_panics_def by metis
  with True show ?thesis by (auto simp: accept_poll_def case_prod_beta split: panicking.split)
qed

text \<open>A run of the composition is a run of the system with as many polls of every task.\<close>

lemma tls_run_projects:
  assumes "tls_run api cfg sv bs s = Some t" and "tls_reachable api cfg sv store s" and "never_panics sv"
  shows "\<exists>acts. sys_run api cfg acts (ts_sys s) = Some (ts_sys t) \<and>
    (\<forall>i. count_if (moves_conn i) acts = count_if (tls_moves_conn i) bs) \<and>
    (\<forall>i env. ActConn i env \<in> set acts \<longrightarrow> (\<exists>fenv e. TaConn i fenv e \<in> set bs \<and> ce_serve env = ce_serve e))"
  using assms(1,2)
proof (induction bs arbitrary: s)
  case Nil
  then show ?case by (intro exI [of _ "[]"]) simp
next
  case (Cons b bs)
  from Cons.prems(1) obtain u where step: "tls_sys_step api cfg sv b s = Some u"
    and run: "tls_run api cfg sv bs u = Some t" by (auto split: option.splits)
  from Cons.IH [OF run reach_step [OF Cons.prems(2) tls_moves [OF step]]]
  obtain acts where acts: "sys_run api cfg acts (ts_sys u) = Some (ts_sys t)"
      "\<forall>i. count_if (moves_conn i) acts = count_if (tls_moves_conn i) bs"
      "\<forall>i env. ActConn i env \<in> set acts \<longrightarrow> (\<exists>fenv e. TaConn i fenv e \<in> set bs \<and> ce_serve env = ce_serve e)"
    by blast
  note label = tls_step_label [OF step]
  show ?case
  proof (cases b)
    case (TaReload x)
    with label acts show ?thesis by (intro exI [of _ acts]) auto
  next
    case (TaSys x)
    with step have "\<not> polls_conn x" by (auto split: if_splits)
    with TaSys label acts show ?thesis
      by (intro exI [of _ "x # acts"]) auto
  next
    case (TaConn i fenv env)
    with tls_label_moves [OF Cons.prems(2) assms(3)] step
    obtain p where "tls_label sv s b = Some (ActConn i (env\<lparr>ce_accept := p\<rparr>))" by blast
    with label have "sys_step api cfg (ActConn i (env\<lparr>ce_accept := p\<rparr>)) (ts_sys s) = Some (ts_sys u)" by simp
    with TaConn acts show ?thesis
      by (intro exI [of _ "ActConn i (env\<lparr>ce_accept := p\<rparr>) # acts"]) (auto simp del: sys_step.simps, metis)
  qed
qed

end
