(* ===== verification/HandshakingServer.thy ===== *)
theory HandshakingServer
  imports TlsSystem
begin

text \<open>
  What every server shares whose acceptor first polls an inner acceptor and then shakes hands
  (the theory \<open>Handshake\<close>): the locale \<open>handshaking_server\<close> is the interface between such an
  acceptor and the composed system of the theory \<open>TlsSystem\<close>. Its lemmas say, for all
  interleavings, what becomes of a connection, which store a connection that is served was
  accepted with, and that no handshake blocks a shutdown. \<open>RustlsAcceptor\<close> and
  \<open>OpenSSLAcceptor\<close> provide it in the theory \<open>TlsServing\<close>.
\<close>

section \<open>Results of the two stages\<close>

lemma first_ready_Ready:
  "first_ready f envs = Ready r \<Longrightarrow> \<exists>env \<in> set envs. f env = Ready r"
  by (induction envs) (auto split: poll.splits)

lemma two_stage_accepted:
  "two_stage_result inner load shake envs = Ready (Inr out) \<Longrightarrow>
   \<exists>env \<in> set envs. \<exists>stream service. inner env = Ready (Inr (stream, service)) \<and>
     (\<exists>env' \<in> set envs. shake (load env) stream service env' = Ready (Inr out))"
proof (induction envs)
  case (Cons env envs)
  then show ?case
    by (auto split: poll.splits sum.splits prod.splits dest!: first_ready_Ready simp del: first_ready.simps)
qed simp

section \<open>The contract\<close>

text \<open>\<open>ok\<close> stands for the documented behaviour of the TLS library.\<close>

locale handshaking_server =
  fixes ok :: bool and sv :: "('fe, 'f, 'out, 'h, 'op) tls_server"
    and inner :: "'fe \<Rightarrow> ('i \<times> 's) io_result poll" and load :: "'fe \<Rightarrow> 'cfg"
    and shake :: "'cfg \<Rightarrow> 'i \<Rightarrow> 's \<Rightarrow> 'fe \<Rightarrow> 'out io_result poll"
  assumes lazy: "lazy_call sv"
    and drives: "ok \<Longrightarrow> fst (drive (tv_poll sv) envs (tv_start sv)) =
      Returns (two_stage_result inner load shake envs)"
begin

lemma drives_started:
  "ok \<Longrightarrow> fst (drive (tv_poll sv) envs (accept_started sv a)) = Returns (two_stage_result inner load shake envs)"
  by (simp add: drives lazy_started [OF lazy])

lemma without_panics: "ok \<Longrightarrow> never_panics sv"
  by (simp add: never_panics_def drives_started)

text \<open>A connection that is served, and the polls that its acceptor has seen.\<close>

lemma accepted_polls:
  assumes "ok" and "tls_reachable api cfg sv store s" and "i < length (sy_conns (ts_sys s))"
    and "ac_accepted (ts_accepts s ! i) = Some out"
  shows "\<exists>p \<in> set (ac_polls (ts_accepts s ! i)). \<exists>q \<in> set (ac_polls (ts_accepts s ! i)). \<exists>stream service.
    inner p = Ready (Inr (stream, service)) \<and> shake (load p) stream service q = Ready (Inr out)"
proof -
  let ?r = "two_stage_result inner load shake (ac_polls (ts_accepts s ! i))"
  have "accept_output (Returns ?r) = Some out"
    using tls_outcome(3) [OF assms(2,3)] assms(4) by (simp add: drives_started [OF assms(1)])
  then have "?r = Ready (Inr out)" by (cases "Returns ?r" rule: accept_output.cases) auto
  from two_stage_accepted [OF this] show ?thesis by blast
qed

text \<open>
  The configuration it was accepted with is the one in the store as the reloads before the
  poll left it in which the inner acceptor became ready.
\<close>

lemma accepted_store:
  assumes "ok" and "tls_run api cfg sv bs (tls_start api store) = Some s"
    and "i < length (sy_conns (ts_sys s))" and "ac_accepted (ts_accepts s ! i) = Some out"
  shows "\<exists>before fenv env after q stream service. bs = before @ TaConn i fenv env # after \<and>
    q \<in> set (ac_polls (ts_accepts s ! i)) \<and>
    inner (tv_env sv (fold (tv_reload sv) (tls_reloads before) store) fenv) = Ready (Inr (stream, service)) \<and>
    shake (load (tv_env sv (fold (tv_reload sv) (tls_reloads before) store) fenv)) stream service q = Ready (Inr out)"
proof -
  have "i < length (ts_accepts s)"
    using tls_accepts.reach_inv2 [OF tls_start_reachable [OF assms(2)]] assms(3)
    by (auto simp: accepts_inv_def dest: list_all2_lengthD)
  with accepted_polls [OF assms(1) tls_start_reachable [OF assms(2)] assms(3,4)] tls_run_polls [OF assms(2)]
  show ?thesis by metis
qed

text \<open>What has become of a connection.\<close>

lemma outcome:
  assumes "ok" and "tls_reachable api cfg sv store s" and "i < length (sy_conns (ts_sys s))"
  shows "let c = sy_conns (ts_sys s) ! i; a = ts_accepts s ! i;
      result = two_stage_result inner load shake (ac_polls a)
    in (conn_phase c = PhAccept \<longrightarrow> result = Pending) \<and>
       cn_log c = (case result of
           Ready (Inl e) \<Rightarrow> call_handler (cc_error_handler cfg) (Some (cn_remote c)) e []
         | _ \<Rightarrow> []) \<and>
       ac_accepted a = (case result of Ready (Inr out) \<Rightarrow> Some out | _ \<Rightarrow> None) \<and>
       (cn_serve c \<noteq> None \<longleftrightarrow> ac_accepted a \<noteq> None) \<and>
       (cn_serve c = None \<and> conn_phase c \<noteq> PhAccept \<longrightarrow> conn_phase c = PhDrop \<and> \<not> cn_stream_open c)"
proof -
  define result where "result = two_stage_result inner load shake (ac_polls (ts_accepts s ! i))"
  have "fst (drive (tv_poll sv) (ac_polls (ts_accepts s ! i)) (accept_started sv (ts_accepts s ! i))) = Returns result"
    by (simp add: drives_started [OF assms(1)] result_def)
  note outcome = tls_outcome [OF assms(2,3) this]
  have "accept_output (Returns result) = (case result of Ready (Inr out) \<Rightarrow> Some out | _ \<Rightarrow> None)"
    by (cases "Returns result" rule: accept_output.cases) auto
  with outcome show ?thesis unfolding Let_def result_def [symmetric] by (simp add: accept_log_def)
qed

text \<open>Once shutdown is signalled, eight polls end every task, whatever the handshakes do.\<close>

lemma shutdown_ends:
  assumes "ok" and "tls_reachable api cfg sv store s"
    and "is_notified (hi_shutdown (sy_handle (ts_sys s)))"
    and "tls_run api cfg sv bs s = Some t"
    and "length (sy_conns (ts_sys t)) = length (sy_conns (ts_sys s))"
    and "length (sy_conns (ts_sys t)) < 2 ^ 64"
    and "\<forall>i < length (sy_conns (ts_sys t)). 8 \<le> count_if (tls_moves_conn i) bs"
  shows "(\<forall>c \<in> set (sy_conns (ts_sys t)). conn_done c \<and> \<not> cn_stream_open c) \<and>
    connection_count (sy_handle (ts_sys t)) = 0"
proof -
  note reach = tls_system.reach_abs [OF assms(2)]
    tls_system.reach_abs [OF tls_run_reachable [OF assms(2,4)]]
  have bounded: "bounded (ts_sys t)" using assms(6) by (simp add: bounded_def)
  from tls_run_projects [OF assms(4,2) without_panics [OF assms(1)]] obtain acts where
      acts: "sys_run api cfg acts (ts_sys s) = Some (ts_sys t)"
      "\<forall>i. count_if (moves_conn i) acts = count_if (tls_moves_conn i) bs" by blast
  have ended: "\<forall>c \<in> set (sy_conns (ts_sys t)). conn_done c"
    using run_shutdown_ends [OF acts(1) reach(1) bounded _ assms(3)] assms(5,7) acts(2)
    by (auto simp: in_set_conv_nth)
  have inv: "counted cfg (ts_sys t)" using sys_drain_inv [OF reach(2)] by blast
  with ended have "\<forall>c \<in> set (sy_conns (ts_sys t)). \<not> cn_stream_open c"
    by (auto simp: counted_def conn_wf_def conn_done_def conn_phase_def)
  moreover have "connection_count (sy_handle (ts_sys t)) = 0"
    using counted_zero_iff [OF inv bounded] ended done_owes_nothing by (auto simp: connection_count_def)
  ultimately show ?thesis using ended by blast
qed

end

end
