(* ===== verification/OpensslConfig.thy ===== *)
theory OpensslConfig
  imports RustlsConfig
begin

text \<open>
  \<open>src/src/tls_openssl/mod.rs\<close>: \<open>OpenSSLConfig\<close>, the acceptors it builds, and the choice of
  the ALPN protocol. The operations of the crate \<open>openssl\<close> are the fields of
  \<open>openssl_api\<close>; errors are of its own type.
\<close>

section \<open>Building an acceptor\<close>

datatype alpn_error = AlertFatal | NoAck

type_synonym alpn_callback = "bytes \<Rightarrow> alpn_error + bytes"

datatype filetype = PemFile | Asn1File

record ('e, 'x, 'k, 'b, 'acc, 'p) openssl_api =
  os_x509_from_der :: "bytes \<Rightarrow> 'e + 'x"
  os_x509_from_pem :: "bytes \<Rightarrow> 'e + 'x"
  os_key_from_der :: "bytes \<Rightarrow> 'e + 'k"
  os_key_from_pem :: "bytes \<Rightarrow> 'e + 'k"
  os_mozilla_modern_v5 :: "'e + 'b"
  os_set_certificate :: "'x \<Rightarrow> 'b \<Rightarrow> 'e + 'b"
  os_set_private_key :: "'k \<Rightarrow> 'b \<Rightarrow> 'e + 'b"
  os_set_certificate_file :: "'p \<Rightarrow> filetype \<Rightarrow> 'b \<Rightarrow> 'e + 'b"
  os_set_certificate_chain_file :: "'p \<Rightarrow> 'b \<Rightarrow> 'e + 'b"
  os_set_private_key_file :: "'p \<Rightarrow> filetype \<Rightarrow> 'b \<Rightarrow> 'e + 'b"
  os_check_private_key :: "'b \<Rightarrow> 'e + unit"
  os_set_alpn_select_callback :: "alpn_callback \<Rightarrow> 'b \<Rightarrow> 'b"
  os_build :: "'b \<Rightarrow> 'acc"
  os_select_next_proto :: "bytes \<Rightarrow> bytes \<Rightarrow> bytes option"

text \<open>\<open>b"\x02h2\x08http/1.1"\<close>\<close>

definition alpn_wire :: bytes where
  "alpn_wire = 0x02 # byte_string ''h2'' @ 0x08 # byte_string ''http/1.1''"

definition alpn_select :: "('e, 'x, 'k, 'b, 'acc, 'p) openssl_api \<Rightarrow> alpn_callback" where
  "alpn_select os client = ok_or NoAck (os_select_next_proto os alpn_wire client)"

definition openssl_config_from_der ::
  "('e, 'x, 'k, 'b, 'acc, 'p) openssl_api \<Rightarrow> bytes \<Rightarrow> bytes \<Rightarrow> 'e + 'acc" where
  "openssl_config_from_der os cert key =
     res_bind (os_x509_from_der os cert) (\<lambda>cert.
     res_bind (os_key_from_der os key) (\<lambda>key.
     res_bind (os_mozilla_modern_v5 os) (\<lambda>tls_builder.
     res_bind (os_set_certificate os cert tls_builder) (\<lambda>tls_builder.
     res_bind (os_set_private_key os key tls_builder) (\<lambda>tls_builder.
     res_bind (os_check_private_key os tls_builder) (\<lambda>_.
     Inr (os_build os (os_set_alpn_select_callback os (alpn_select os) tls_builder))))))))"

definition openssl_config_from_pem ::
  "('e, 'x, 'k, 'b, 'acc, 'p) openssl_api \<Rightarrow> bytes \<Rightarrow> bytes \<Rightarrow> 'e + 'acc" where
  "openssl_config_from_pem os cert key =
     res_bind (os_x509_from_pem os cert) (\<lambda>cert.
     res_bind (os_key_from_pem os key) (\<lambda>key.
     res_bind (os_mozilla_modern_v5 os) (\<lambda>tls_builder.
     res_bind (os_set_certificate os cert tls_builder) (\<lambda>tls_builder.
     res_bind (os_set_private_key os key tls_builder) (\<lambda>tls_builder.
     res_bind (os_check_private_key os tls_builder) (\<lambda>_.
     Inr (os_build os (os_set_alpn_select_callback os (alpn_select os) tls_builder))))))))"

definition openssl_config_from_pem_file ::
  "('e, 'x, 'k, 'b, 'acc, 'p) openssl_api \<Rightarrow> 'p \<Rightarrow> 'p \<Rightarrow> 'e + 'acc" where
  "openssl_config_from_pem_file os cert key =
     res_bind (os_mozilla_modern_v5 os) (\<lambda>tls_builder.
     res_bind (os_set_certificate_file os cert PemFile tls_builder) (\<lambda>tls_builder.
     res_bind (os_set_private_key_file os key PemFile tls_builder) (\<lambda>tls_builder.
     res_bind (os_check_private_key os tls_builder) (\<lambda>_.
     Inr (os_build os (os_set_alpn_select_callback os (alpn_select os) tls_builder))))))"

definition openssl_config_from_pem_chain_file ::
  "('e, 'x, 'k, 'b, 'acc, 'p) openssl_api \<Rightarrow> 'p \<Rightarrow> 'p \<Rightarrow> 'e + 'acc" where
  "openssl_config_from_pem_chain_file os chain key =
     res_bind (os_mozilla_modern_v5 os) (\<lambda>tls_builder.
     res_bind (os_set_certificate_chain_file os chain tls_builder) (\<lambda>tls_builder.
     res_bind (os_set_private_key_file os key PemFile tls_builder) (\<lambda>tls_builder.
     res_bind (os_check_private_key os tls_builder) (\<lambda>_.
     Inr (os_build os (os_set_alpn_select_callback os (alpn_select os) tls_builder))))))"

text \<open>\<open>TryFrom<SslAcceptorBuilder>\<close>\<close>

definition openssl_config_try_from ::
  "('e, 'x, 'k, 'b, 'acc, 'p) openssl_api \<Rightarrow> 'b \<Rightarrow> 'e + 'acc" where
  "openssl_config_try_from os tls_builder =
     res_bind (os_check_private_key os tls_builder) (\<lambda>_.
     Inr (os_build os (os_set_alpn_select_callback os (alpn_select os) tls_builder)))"

section \<open>\<open>OpenSSLConfig\<close>\<close>

record openssl_config = oc_acceptor :: nat

definition openssl_create ::
  "('acc, 'h) swap_api \<Rightarrow> 'e + 'acc \<Rightarrow> 'h \<Rightarrow> ('e + openssl_config) \<times> 'h" where
  "openssl_create sw r h =
     (let (r, h) = swap_create sw r h in (res_map (\<lambda>acceptor. \<lparr>oc_acceptor = acceptor\<rparr>) r, h))"

definition openssl_reload ::
  "('acc, 'h) swap_api \<Rightarrow> openssl_config \<Rightarrow> 'e + 'acc \<Rightarrow> 'h \<Rightarrow> ('e + unit) \<times> 'h" where
  "openssl_reload sw self r h = swap_reload sw (oc_acceptor self) r h"

definition openssl_from_acceptor :: "('acc, 'h) swap_api \<Rightarrow> 'acc \<Rightarrow> 'h \<Rightarrow> openssl_config \<times> 'h" where
  "openssl_from_acceptor sw acceptor h =
     (let (acceptor, h) = sw_new sw acceptor h in (\<lparr>oc_acceptor = acceptor\<rparr>, h))"

definition openssl_from_der where
  "openssl_from_der os sw cert key = openssl_create sw (openssl_config_from_der os cert key)"

definition openssl_from_pem where
  "openssl_from_pem os sw cert key = openssl_create sw (openssl_config_from_pem os cert key)"

definition openssl_from_pem_file where
  "openssl_from_pem_file os sw cert key = openssl_create sw (openssl_config_from_pem_file os cert key)"

definition openssl_from_pem_chain_file where
  "openssl_from_pem_chain_file os sw chain key =
     openssl_create sw (openssl_config_from_pem_chain_file os chain key)"

definition openssl_try_from where
  "openssl_try_from os sw tls_builder = openssl_create sw (openssl_config_try_from os tls_builder)"

definition openssl_get_inner :: "('acc, 'h) swap_api \<Rightarrow> openssl_config \<Rightarrow> 'h \<Rightarrow> 'acc" where
  "openssl_get_inner sw self h = sw_load_full sw (oc_acceptor self) h"

definition openssl_reload_from_acceptor ::
  "('acc, 'h) swap_api \<Rightarrow> openssl_config \<Rightarrow> 'acc \<Rightarrow> 'h \<Rightarrow> 'h" where
  "openssl_reload_from_acceptor sw self acceptor h = sw_store sw (oc_acceptor self) acceptor h"

definition openssl_reload_from_der where
  "openssl_reload_from_der os sw self cert key = openssl_reload sw self (openssl_config_from_der os cert key)"

definition openssl_reload_from_pem where
  "openssl_reload_from_pem os sw self cert key = openssl_reload sw self (openssl_config_from_pem os cert key)"

definition openssl_reload_from_pem_file where
  "openssl_reload_from_pem_file os sw self cert key =
     openssl_reload sw self (openssl_config_from_pem_file os cert key)"

definition openssl_reload_from_pem_chain_file where
  "openssl_reload_from_pem_chain_file os sw self chain key =
     openssl_reload sw self (openssl_config_from_pem_chain_file os chain key)"

lemma oc_acceptor_inj: "oc_acceptor i = oc_acceptor j \<longleftrightarrow> i = (j :: openssl_config)"
  by (cases i; cases j) simp

interpretation openssl_cells: reloadable "swap_documented sw live" "\<lambda>h c. live h (oc_acceptor c)"
    "openssl_get_inner sw" "openssl_create sw" "openssl_reload sw"
  for sw :: "('c, 'h) swap_api" and live
proof
  fix r :: "'e + 'c" and h h' e c and i j :: openssl_config and x :: "'e + openssl_config" and y :: "'e + unit"
  assume ok: "swap_documented sw live"
  show "live h' (oc_acceptor i) \<and> r = Inr (openssl_get_inner sw i h')" if "openssl_create sw r h = (Inr i, h')"
  proof -
    from that have "swap_create sw r h = (Inr (oc_acceptor i), h')"
      by (auto simp: openssl_create_def split: prod.splits)
    from swap_cells.create_gets [OF ok this] show ?thesis by (simp add: openssl_get_inner_def)
  qed
  show "live h' (oc_acceptor j) \<and> openssl_get_inner sw j h' = openssl_get_inner sw j h"
    if "openssl_create sw r h = (x, h')" "live h (oc_acceptor j)"
  proof -
    from that(1) obtain z where "swap_create sw r h = (z, h')"
      by (auto simp: openssl_create_def split: prod.splits)
    from swap_cells.create_frame [OF ok this that(2)] show ?thesis by (simp add: openssl_get_inner_def)
  qed
  show "y = Inr () \<and> openssl_get_inner sw i h' = c"
    if "live h (oc_acceptor i)" "openssl_reload sw i (Inr c) h = (y, h')"
    using swap_cells.reload_gets [OF ok that(1)] that(2) by (simp add: openssl_reload_def openssl_get_inner_def)
  show "live h' (oc_acceptor j) \<and> (j \<noteq> i \<longrightarrow> openssl_get_inner sw j h' = openssl_get_inner sw j h)"
    if "live h (oc_acceptor i)" "openssl_reload sw i (Inr c) h = (y, h')" "live h (oc_acceptor j)"
    using swap_cells.reload_frame [OF ok that(1) that(2) [unfolded openssl_reload_def] that(3)]
    by (auto simp: openssl_get_inner_def oc_acceptor_inj)
next
  show "openssl_create sw r h = (Inl e, h') \<longleftrightarrow> r = Inl e \<and> h' = h" for r :: "'e + 'c" and h e h'
    by (auto simp: openssl_create_def swap_create_def split: prod.splits sum.splits)
  show "openssl_reload sw i (Inl e) h = (Inl e, h)" for i h and e :: 'e
    by (simp add: openssl_reload_def swap_cells.reload_fails)
qed

section \<open>The ALPN wire format\<close>

text \<open>A protocol list is the concatenation of length-prefixed names.\<close>

definition alpn_encode :: "bytes list \<Rightarrow> bytes" where
  "alpn_encode ps = concat (map (\<lambda>p. of_nat (length p) # p) ps)"

function alpn_decode :: "bytes \<Rightarrow> bytes list option" where
  "alpn_decode [] = Some []"
| "alpn_decode (n # bs) =
     (if n = 0 \<or> length bs < unat n then None
      else map_option (Cons (take (unat n) bs)) (alpn_decode (drop (unat n) bs)))"
  by pat_completeness auto
termination
  by (relation "measure length") auto

lemma alpn_decode_encode:
  "\<forall>p \<in> set ps. p \<noteq> [] \<and> length p < 256 \<Longrightarrow> alpn_decode (alpn_encode ps) = Some ps"
proof (induction ps)
  case (Cons p ps)
  then have len: "unat (of_nat (length p) :: 8 word) = length p"
    by (simp add: unat_of_nat take_bit_nat_eq_self_iff)
  then have "(of_nat (length p) :: 8 word) \<noteq> 0" using Cons.prems by (metis length_0_conv list.set_intros(1) unat_0)
  moreover have "alpn_encode (p # ps) = of_nat (length p) # p @ alpn_encode ps"
    by (simp add: alpn_encode_def)
  ultimately show ?case using Cons len by simp
qed (simp add: alpn_encode_def)

section \<open>Reloading through clones\<close>

datatype ('acc, 'p) openssl_op =
    OsReloadAcceptor openssl_config 'acc
  | OsReloadDer openssl_config bytes bytes
  | OsReloadPem openssl_config bytes bytes
  | OsReloadPemFile openssl_config 'p 'p
  | OsReloadPemChainFile openssl_config 'p 'p

fun openssl_op_step ::
  "('e, 'x, 'k, 'b, 'acc, 'p) openssl_api \<Rightarrow> ('acc, 'h) swap_api \<Rightarrow> ('acc, 'p) openssl_op \<Rightarrow> 'h \<Rightarrow> 'h"
where
  "openssl_op_step os sw (OsReloadAcceptor c acc) h = openssl_reload_from_acceptor sw c acc h"
| "openssl_op_step os sw (OsReloadDer c cert key) h = snd (openssl_reload_from_der os sw c cert key h)"
| "openssl_op_step os sw (OsReloadPem c cert key) h = snd (openssl_reload_from_pem os sw c cert key h)"
| "openssl_op_step os sw (OsReloadPemFile c cert key) h = snd (openssl_reload_from_pem_file os sw c cert key h)"
| "openssl_op_step os sw (OsReloadPemChainFile c chain key) h =
     snd (openssl_reload_from_pem_chain_file os sw c chain key h)"

fun openssl_op_target :: "('acc, 'p) openssl_op \<Rightarrow> openssl_config" where
  "openssl_op_target (OsReloadAcceptor c acc) = c"
| "openssl_op_target (OsReloadDer c cert key) = c"
| "openssl_op_target (OsReloadPem c cert key) = c"
| "openssl_op_target (OsReloadPemFile c cert key) = c"
| "openssl_op_target (OsReloadPemChainFile c chain key) = c"

fun openssl_op_acceptor ::
  "('e, 'x, 'k, 'b, 'acc, 'p) openssl_api \<Rightarrow> ('acc, 'p) openssl_op \<Rightarrow> 'e + 'acc"
where
  "openssl_op_acceptor os (OsReloadAcceptor c acc) = Inr acc"
| "openssl_op_acceptor os (OsReloadDer c cert key) = openssl_config_from_der os cert key"
| "openssl_op_acceptor os (OsReloadPem c cert key) = openssl_config_from_pem os cert key"
| "openssl_op_acceptor os (OsReloadPemFile c cert key) = openssl_config_from_pem_file os cert key"
| "openssl_op_acceptor os (OsReloadPemChainFile c chain key) = openssl_config_from_pem_chain_file os chain key"

lemma openssl_op_attempt:
  "openssl_op_step os sw x h = openssl_cells.attempt sw (openssl_op_target x, openssl_op_acceptor os x) h"
  by (cases x)
    (auto simp: openssl_cells.attempt_def openssl_reload_from_acceptor_def openssl_reload_from_der_def
      openssl_reload_from_pem_def openssl_reload_from_pem_file_def openssl_reload_from_pem_chain_file_def
      openssl_reload_def swap_reload_def)

lemma openssl_ops_attempts:
  "fold (openssl_op_step os sw) xs h =
   fold (openssl_cells.attempt sw) (map (\<lambda>x. (openssl_op_target x, openssl_op_acceptor os x)) xs) h"
  by (induction xs arbitrary: h) (simp_all add: openssl_op_attempt)

lemma openssl_latest:
  "openssl_cells.latest c (d, r) = (\<lambda>acc. case r of Inl e \<Rightarrow> acc | Inr new \<Rightarrow> if d = c then new else acc)"
  by (rule ext) (simp add: openssl_cells.latest_def split: sum.split)

section \<open>A concrete library\<close>

text \<open>A builder is what was set on it; a private key fits if it is the certificate reversed.\<close>

type_synonym toy_ssl_builder = "bytes \<times> bytes \<times> alpn_callback option"

definition toy_openssl :: "(string, bytes, bytes, toy_ssl_builder, toy_ssl_builder, bytes) openssl_api" where
  "toy_openssl = \<lparr>os_x509_from_der = Inr, os_x509_from_pem = Inr, os_key_from_der = Inr, os_key_from_pem = Inr,
     os_mozilla_modern_v5 = Inr ([], [], None),
     os_set_certificate = (\<lambda>c (_, k, a). Inr (c, k, a)), os_set_private_key = (\<lambda>k (c, _, a). Inr (c, k, a)),
     os_set_certificate_file = (\<lambda>p _ (_, k, a). Inr (p, k, a)),
     os_set_certificate_chain_file = (\<lambda>p (_, k, a). Inr (p, k, a)),
     os_set_private_key_file = (\<lambda>p _ (c, _, a). Inr (c, p, a)),
     os_check_private_key = (\<lambda>(c, k, _). if k = rev c then Inr () else Inl ''key values mismatch''),
     os_set_alpn_select_callback = (\<lambda>f (c, k, _). (c, k, Some f)), os_build = (\<lambda>b. b),
     os_select_next_proto = (\<lambda>server client.
       case (alpn_decode server, alpn_decode client) of
         (Some ps, Some cs) \<Rightarrow> find (\<lambda>p. p \<in> set cs) ps | _ \<Rightarrow> None)\<rparr>"

section \<open>Properties\<close>

text \<open>
  The last successful reload wins for OpenSSL as well: after any sequence of reloads of
  any kind through any clones, a configuration holds the acceptor of its last reload that
  succeeded, or the one it held before.
\<close>

theorem openssl_last_reload_wins:
  assumes "swap_documented sw live"
    and "\<forall>x \<in> set xs. live h (oc_acceptor (openssl_op_target x))" and "live h (oc_acceptor c)"
  shows "openssl_get_inner sw c (fold (openssl_op_step os sw) xs h) =
    fold (\<lambda>x acc. case openssl_op_acceptor os x of
        Inl e \<Rightarrow> acc
      | Inr new \<Rightarrow> if openssl_op_target x = c then new else acc) xs (openssl_get_inner sw c h)"
proof -
  let ?ys = "map (\<lambda>x. (openssl_op_target x, openssl_op_acceptor os x)) xs"
  have "openssl_get_inner sw c (fold (openssl_cells.attempt sw) ?ys h) =
      fold (openssl_cells.latest c) ?ys (openssl_get_inner sw c h)"
    using openssl_cells.attempts_get [OF assms(1), of ?ys h c] assms(2,3) by auto
  then show ?thesis
    by (simp add: openssl_ops_attempts fold_map comp_def openssl_latest)
qed

theorem openssl_last_reload_wins_witness:
  "openssl_get_inner toy_swap \<lparr>oc_acceptor = 0\<rparr>
     (fold (openssl_op_step toy_openssl toy_swap)
       [OsReloadPem \<lparr>oc_acceptor = 0\<rparr> [1, 2] [2, 1], OsReloadPem \<lparr>oc_acceptor = 0\<rparr> [1, 2] [3, 4]]
       [([], [], None)]) =
   ([1, 2], [2, 1], Some (alpn_select toy_openssl))"
proof -
  let ?xs = "[OsReloadPem \<lparr>oc_acceptor = 0\<rparr> [1, 2] [2, 1], OsReloadPem \<lparr>oc_acceptor = 0\<rparr> [1, 2] [3, 4]]
    :: (toy_ssl_builder, bytes) openssl_op list"
  have live: "\<forall>x \<in> set ?xs. oc_acceptor (openssl_op_target x) < length [([], [], None) :: toy_ssl_builder]"
    "oc_acceptor \<lparr>oc_acceptor = 0\<rparr> < length [([], [], None) :: toy_ssl_builder]"
    by simp_all
  show ?thesis
    unfolding openssl_last_reload_wins [OF toy_swap_documented live]
    by (simp add: openssl_config_from_pem_def toy_openssl_def)
qed

text \<open>
  No acceptor is built around a key that does not fit, or without ALPN: if one of the
  constructors succeeds, the acceptor of the new configuration was built from a builder whose
  private key was checked and whose ALPN callback is \<open>alpn_select\<close>.
\<close>

theorem openssl_created_checked:
  assumes "swap_documented sw live"
    and "create \<in> {openssl_from_der os sw cert key, openssl_from_pem os sw cert key,
      openssl_from_pem_file os sw cp kp, openssl_from_pem_chain_file os sw cp kp, openssl_try_from os sw b}"
    and "create h = (Inr c, h')"
  shows "\<exists>b. os_check_private_key os b = Inr () \<and>
    openssl_get_inner sw c h' = os_build os (os_set_alpn_select_callback os (alpn_select os) b)"
proof -
  from assms(2,3) obtain r where r: "openssl_create sw r h = (Inr c, h')"
    and mem: "r \<in> {openssl_config_from_der os cert key, openssl_config_from_pem os cert key,
      openssl_config_from_pem_file os cp kp, openssl_config_from_pem_chain_file os cp kp,
      openssl_config_try_from os b}"
    by (auto simp: openssl_from_der_def openssl_from_pem_def openssl_from_pem_file_def
        openssl_from_pem_chain_file_def openssl_try_from_def)
  from openssl_cells.create_gets [OF assms(1) r] have "r = Inr (openssl_get_inner sw c h')" by blast
  with mem show ?thesis
    unfolding openssl_config_from_der_def openssl_config_from_pem_def openssl_config_from_pem_file_def
      openssl_config_from_pem_chain_file_def openssl_config_try_from_def
    by (elim insertE emptyE) (simp_all, metis+)
qed

theorem openssl_created_checked_witness:
  "\<exists>b. os_check_private_key toy_openssl b = Inr () \<and>
    openssl_get_inner toy_swap \<lparr>oc_acceptor = 0\<rparr> [([1, 2], [2, 1], Some (alpn_select toy_openssl))] =
      os_build toy_openssl (os_set_alpn_select_callback toy_openssl (alpn_select toy_openssl) b)"
proof -
  have run: "openssl_from_pem toy_openssl toy_swap [1, 2] [2, 1] [] =
      (Inr \<lparr>oc_acceptor = 0\<rparr>, [([1, 2], [2, 1], Some (alpn_select toy_openssl))])"
    by (simp add: openssl_from_pem_def openssl_create_def swap_create_def toy_swap_def
        openssl_config_from_pem_def toy_openssl_def)
  show ?thesis
    by (rule openssl_created_checked
        [where create = "openssl_from_pem toy_openssl toy_swap [1, 2] [2, 1]" and cert = "[1, 2]"
          and key = "[2, 1]" and cp = "[]" and kp = "[]" and b = "([], [], None)",
         OF toy_swap_documented _ run]) simp
qed

text \<open>
  ALPN prefers HTTP/2: when OpenSSL picks the first protocol of the server's list that
  the client's well-formed list contains, \<open>alpn_select\<close> answers \<open>h2\<close> to a client that
  offers it, else \<open>http/1.1\<close> to one that offers that, and otherwise sends no acknowledgement.
\<close>

theorem alpn_select_prefers_http2:
  assumes "\<forall>server client ps cs. alpn_decode server = Some ps \<longrightarrow> alpn_decode client = Some cs \<longrightarrow>
      os_select_next_proto os server client = find (\<lambda>p. p \<in> set cs) ps"
    and "alpn_decode client = Some cs"
  shows "alpn_select os client =
    (if byte_string ''h2'' \<in> set cs then Inr (byte_string ''h2'')
     else if byte_string ''http/1.1'' \<in> set cs then Inr (byte_string ''http/1.1'')
     else Inl NoAck)"
proof -
  have "alpn_decode (alpn_encode alpn_protocols) = Some alpn_protocols"
    by (rule alpn_decode_encode) (simp add: alpn_protocols_def byte_string_def)
  moreover have "alpn_wire = alpn_encode alpn_protocols"
    by (simp add: alpn_wire_def alpn_encode_def alpn_protocols_def byte_string_def)
  ultimately show ?thesis
    using assms by (simp add: alpn_select_def alpn_protocols_def)
qed

theorem alpn_select_prefers_http2_witness:
  "alpn_select toy_openssl (alpn_encode [byte_string ''http/1.1'', byte_string ''h2'']) =
     Inr (byte_string ''h2'')"
proof -
  have law: "\<forall>server client ps cs. alpn_decode server = Some ps \<longrightarrow> alpn_decode client = Some cs \<longrightarrow>
      os_select_next_proto toy_openssl server client = find (\<lambda>p. p \<in> set cs) ps"
    by (simp add: toy_openssl_def)
  have client: "alpn_decode (alpn_encode [byte_string ''http/1.1'', byte_string ''h2'']) =
      Some [byte_string ''http/1.1'', byte_string ''h2'']"
    by (rule alpn_decode_encode) (simp add: byte_string_def)
  show ?thesis by (subst alpn_select_prefers_http2 [OF law client]) simp
qed



end
