(* ===== verification/OpensslAcceptor.thy ===== *)
theory OpensslAcceptor
  imports OpensslConfig Handshake
begin

text \<open>
  \<open>OpenSSLAcceptor\<close> (\<open>src/src/tls_openssl/mod.rs\<close>) and its future with \<open>TlsAccept\<close>
  (\<open>src/src/tls_openssl/future.rs\<close>). What the code calls of \<open>openssl\<close>, \<open>tokio-openssl\<close> and
  \<open>tokio::time::timeout\<close> is \<open>ssl_api\<close>; what polling the inner acceptor and the stream gives
  is the environment of a poll.
\<close>

section \<open>The acceptor\<close>

record 'acc openssl_acceptor =
  oa_inner :: 'acc
  oa_config :: openssl_config
  oa_handshake_timeout :: duration

definition openssl_acceptor_new :: "openssl_config \<Rightarrow> unit openssl_acceptor" where
  "openssl_acceptor_new config =
     \<lparr>oa_inner = (), oa_config = config, oa_handshake_timeout = from_secs 10\<rparr>"

definition openssl_handshake_timeout :: "duration \<Rightarrow> 'acc openssl_acceptor \<Rightarrow> 'acc openssl_acceptor" where
  "openssl_handshake_timeout val self = self\<lparr>oa_handshake_timeout := val\<rparr>"

definition openssl_acceptor_acceptor :: "'acc2 \<Rightarrow> 'acc openssl_acceptor \<Rightarrow> 'acc2 openssl_acceptor" where
  "openssl_acceptor_acceptor acceptor self =
     \<lparr>oa_inner = acceptor, oa_config = oa_config self, oa_handshake_timeout = oa_handshake_timeout self\<rparr>"

definition bind_openssl where
  "bind_openssl api bd addr config hp =
     (let acceptor = openssl_acceptor_new config;
          (server, hp) = server_bind api bd addr hp
      in (server_acceptor server acceptor, hp))"

section \<open>The future\<close>

text \<open>\<open>ss_timeout elapsed\<close>: polling \<open>timeout\<close>, from the result of polling the future in it.\<close>

record ('acc, 'ssl, 'i, 'st, 'c, 'e) ssl_api =
  ss_new :: "'acc \<Rightarrow> 'e + 'ssl"
  ss_stream :: "'ssl \<Rightarrow> 'i \<Rightarrow> 'e + 'st"
  ss_timeout :: "duration \<Rightarrow> bool \<Rightarrow> 'st io_result poll \<Rightarrow> (string + 'st io_result) poll"
  ss_peer_cert_chain :: "'st \<Rightarrow> 'c list option"
  ss_peer_certificate :: "'st \<Rightarrow> 'c option"
  ss_to_der :: "'c \<Rightarrow> 'e + bytes"
  ss_servername :: "'st \<Rightarrow> string option"
  ss_alpn_protocol :: "'st \<Rightarrow> bytes option"

record ('i, 's, 'st, 'h) openssl_env =
  oe_inner :: "('i \<times> 's) io_result poll"
  oe_store :: 'h
  oe_poll_accept :: "'st \<Rightarrow> (string + unit) poll"
  oe_elapsed :: bool

text \<open>\<open>TlsAccept\<close>: the state is its \<open>tls_stream\<close>.\<close>

definition tls_accept_poll ::
  "('i, 's, 'st, 'h) openssl_env \<Rightarrow> 'st option \<Rightarrow> 'st io_result poll panicking \<times> 'st option" where
  "tls_accept_poll env tls_stream =
     (case tls_stream of
        None \<Rightarrow> (Panics ''tlsaccept polled after ready'', tls_stream)
      | Some stream \<Rightarrow>
          (case oe_poll_accept env stream of
             Ready (Inr _) \<Rightarrow> (Returns (Ready (Inr stream)), None)
           | Ready (Inl e) \<Rightarrow> (Returns (Ready (Inl (io_other e))), tls_stream)
           | Pending \<Rightarrow> (Returns Pending, tls_stream)))"

datatype ('st, 's) openssl_accept_future =
    OfInnerAccepting duration
  | OfTlsAccepting "'st option" duration "'s option"

record ('st, 's) openssl_future =
  of_inner :: "('st, 's) openssl_accept_future"
  of_config :: "openssl_config option"

definition openssl_future_new :: "openssl_config \<Rightarrow> duration \<Rightarrow> ('st, 's) openssl_future" where
  "openssl_future_new config handshake_timeout =
     (let inner = OfInnerAccepting handshake_timeout; config = Some config
      in \<lparr>of_inner = inner, of_config = config\<rparr>)"

definition openssl_accept :: "'acc openssl_acceptor \<Rightarrow> ('st, 's) openssl_future" where
  "openssl_accept self = (let config = oa_config self in openssl_future_new config (oa_handshake_timeout self))"

definition openssl_tls_info :: "('acc, 'ssl, 'i, 'st, 'c, 'e) ssl_api \<Rightarrow> 'st \<Rightarrow> tls_info" where
  "openssl_tls_info ss stream =
     (let peer_certificates =
        (case ss_peer_cert_chain ss stream of
           Some chain \<Rightarrow> List.map_filter (\<lambda>cert. res_ok (ss_to_der ss cert)) chain
         | None \<Rightarrow>
             (case Option.bind (ss_peer_certificate ss stream) (\<lambda>cert. res_ok (ss_to_der ss cert)) of
                Some der \<Rightarrow> [der] | None \<Rightarrow> []))
      in tls_info_new (ss_servername ss stream) (ss_alpn_protocol ss stream) peer_certificates)"

function openssl_poll ::
  "('acc, 'h) swap_api \<Rightarrow> ('acc, 'ssl, 'i, 'st, 'c, 'e) ssl_api \<Rightarrow> ('i, 's, 'st, 'h) openssl_env \<Rightarrow>
   ('st, 's) openssl_future \<Rightarrow>
   ('st \<times> 's tls_service) io_result poll panicking \<times> ('st, 's) openssl_future"
where
  "openssl_poll sw ss env this =
     (case of_inner this of
        OfInnerAccepting handshake_timeout \<Rightarrow>
          (case oe_inner env of
             Ready (Inr (stream, service)) \<Rightarrow>
               (case of_config this of
                  None \<Rightarrow> (Panics ''config is not set. this is a bug in axum-server, please report'', this)
                | Some server_config \<Rightarrow>
                    (case ss_new ss (openssl_get_inner sw server_config (oe_store env)) of
                       Inl e \<Rightarrow> (Panics ''called Result::unwrap() on an Err value'', this\<lparr>of_config := None\<rparr>)
                     | Inr ssl \<Rightarrow>
                         (case ss_stream ss ssl stream of
                            Inl e \<Rightarrow> (Panics ''called Result::unwrap() on an Err value'', this\<lparr>of_config := None\<rparr>)
                          | Inr tls_stream \<Rightarrow>
                              openssl_poll sw ss env
                                (this\<lparr>of_config := None,
                                      of_inner := OfTlsAccepting (Some tls_stream) handshake_timeout
                                        (Some service)\<rparr>))))
           | Ready (Inl e) \<Rightarrow> (Returns (Ready (Inl e)), this)
           | Pending \<Rightarrow> (Returns Pending, this))
      | OfTlsAccepting future handshake_timeout service \<Rightarrow>
          (case tls_accept_poll env future of
             (Panics msg, future) \<Rightarrow>
               (Panics msg, this\<lparr>of_inner := OfTlsAccepting future handshake_timeout service\<rparr>)
           | (Returns polled, future) \<Rightarrow>
               (case ss_timeout ss handshake_timeout (oe_elapsed env) polled of
                  Ready (Inr (Inr stream)) \<Rightarrow>
                    (case service of
                       None \<Rightarrow> (Panics ''future polled after ready'', this)
                     | Some service \<Rightarrow>
                         (let info = openssl_tls_info ss stream
                          in (Returns (Ready (Inr (stream, tls_service_new service info))),
                              this\<lparr>of_inner := OfTlsAccepting future handshake_timeout None\<rparr>)))
                | Ready (Inr (Inl e)) \<Rightarrow>
                    (Returns (Ready (Inl e)), this\<lparr>of_inner := OfTlsAccepting future handshake_timeout service\<rparr>)
                | Ready (Inl timeout) \<Rightarrow>
                    (Returns (Ready (Inl (IoError TimedOut timeout))),
                     this\<lparr>of_inner := OfTlsAccepting future handshake_timeout service\<rparr>)
                | Pending \<Rightarrow>
                    (Returns Pending, this\<lparr>of_inner := OfTlsAccepting future handshake_timeout service\<rparr>))))"
  by pat_completeness auto
termination
  by (relation "measure (\<lambda>(_, _, _, this). case of_inner this of OfInnerAccepting _ \<Rightarrow> 1 | OfTlsAccepting _ _ _ \<Rightarrow> 0)")
    auto

declare openssl_poll.simps [simp del]

text \<open>
  What the code relies on: creating the \<open>Ssl\<close> and its stream succeeds (the code unwraps both),
  and \<open>timeout\<close> gives the result of its future when that is ready and otherwise only waits or
  elapses.
\<close>

definition ssl_documented :: "('acc, 'ssl, 'i, 'st, 'c, 'e) ssl_api \<Rightarrow> bool" where
  "ssl_documented ss \<longleftrightarrow>
     (\<forall>acc i. \<exists>ssl st. ss_new ss acc = Inr ssl \<and> ss_stream ss ssl i = Inr st) \<and>
     (\<forall>d b r. ss_timeout ss d b (Ready r) = Ready (Inr r)) \<and>
     (\<forall>d b. ss_timeout ss d b Pending = Pending \<or> (\<exists>msg. ss_timeout ss d b Pending = Ready (Inl msg)))"

definition ssl_stream_of :: "('acc, 'ssl, 'i, 'st, 'c, 'e) ssl_api \<Rightarrow> 'acc \<Rightarrow> 'i \<Rightarrow> 'st" where
  "ssl_stream_of ss acc i = the (Option.bind (res_ok (ss_new ss acc)) (\<lambda>ssl. res_ok (ss_stream ss ssl i)))"

text \<open>The handshake stage.\<close>

definition openssl_shake ::
  "('acc, 'ssl, 'i, 'st, 'c, 'e) ssl_api \<Rightarrow> duration \<Rightarrow> 'acc \<Rightarrow> 'i \<Rightarrow> 's \<Rightarrow>
   ('i, 's, 'st, 'h) openssl_env \<Rightarrow> ('st \<times> 's tls_service) io_result poll" where
  "openssl_shake ss timeout acc i service env =
     (let stream = ssl_stream_of ss acc i in
      case oe_poll_accept env stream of
        Ready (Inr _) \<Rightarrow> Ready (Inr (stream, tls_service_new service (openssl_tls_info ss stream)))
      | Ready (Inl e) \<Rightarrow> Ready (Inl (io_other e))
      | Pending \<Rightarrow>
          (case ss_timeout ss timeout (oe_elapsed env) Pending of
             Ready (Inl msg) \<Rightarrow> Ready (Inl (IoError TimedOut msg))
           | _ \<Rightarrow> Pending))"

lemma ssl_stream_of:
  assumes "ssl_documented ss"
  obtains ssl where "ss_new ss acc = Inr ssl" and "ss_stream ss ssl i = Inr (ssl_stream_of ss acc i)"
proof -
  from assms obtain ssl st where "ss_new ss acc = Inr ssl" "ss_stream ss ssl i = Inr st"
    unfolding ssl_documented_def by blast
  then show ?thesis using that by (simp add: ssl_stream_of_def)
qed

interpretation openssl_handshake: two_stage "ssl_documented ss" "openssl_poll sw ss"
    "openssl_future_new config timeout"
    "\<lambda>acc i service. \<lparr>of_inner = OfTlsAccepting (Some (ssl_stream_of ss acc i)) timeout (Some service), of_config = None\<rparr>"
    oe_inner "\<lambda>env. openssl_get_inner sw config (oe_store env)" "openssl_shake ss timeout"
  for sw :: "('acc, 'h) swap_api" and ss :: "('acc, 'ssl, 'i, 'st, 'c, 'e) ssl_api" and config timeout
proof
  fix env :: "('i, 's, 'st, 'h) openssl_env" and e i s c r
  assume ok: "ssl_documented ss"
  let ?start = "openssl_future_new config timeout :: ('st, 's) openssl_future"
  let ?shaking = "\<lambda>acc i service. \<lparr>of_inner = OfTlsAccepting (Some (ssl_stream_of ss acc i)) timeout (Some service),
    of_config = None\<rparr> :: ('st, 's) openssl_future"
  from ok have ready: "\<And>d b r. ss_timeout ss d b (Ready r) = Ready (Inr r)"
    and pending: "\<And>d b. ss_timeout ss d b Pending = Pending \<or> (\<exists>msg. ss_timeout ss d b Pending = Ready (Inl msg))"
    by (auto simp: ssl_documented_def)
  show "openssl_poll sw ss env ?start = (Returns Pending, ?start)" if "oe_inner env = Pending"
    using that by (subst openssl_poll.simps) (simp add: openssl_future_new_def)
  show "fst (openssl_poll sw ss env ?start) = Returns (Ready (Inl e))" if "oe_inner env = Ready (Inl e)"
    using that by (subst openssl_poll.simps) (simp add: openssl_future_new_def)
  show "openssl_poll sw ss env ?start =
      openssl_poll sw ss env (?shaking (openssl_get_inner sw config (oe_store env)) i s)"
    if "oe_inner env = Ready (Inr (i, s))"
  proof -
    obtain ssl where "ss_new ss (openssl_get_inner sw config (oe_store env)) = Inr ssl"
      "ss_stream ss ssl i = Inr (ssl_stream_of ss (openssl_get_inner sw config (oe_store env)) i)"
      by (rule ssl_stream_of [OF ok])
    with that show ?thesis by (subst openssl_poll.simps) (simp add: openssl_future_new_def)
  qed
  show "openssl_poll sw ss env (?shaking c i s) = (Returns Pending, ?shaking c i s)"
    if "openssl_shake ss timeout c i s env = Pending"
    using that pending [of timeout "oe_elapsed env"] ready
    by (subst openssl_poll.simps)
      (auto simp: openssl_shake_def tls_accept_poll_def Let_def split: poll.splits sum.splits)
  show "fst (openssl_poll sw ss env (?shaking c i s)) = Returns (Ready r)"
    if "openssl_shake ss timeout c i s env = Ready r"
    using that pending [of timeout "oe_elapsed env"] ready
    by (subst openssl_poll.simps)
      (auto simp: openssl_shake_def tls_accept_poll_def Let_def split: poll.splits sum.splits)
qed

section \<open>Well-formed futures\<close>

text \<open>
  The options in the future are there for \<open>take()\<close>: the configuration is set until the
  handshake starts, the service until the future is ready.
\<close>

fun openssl_ready :: "('st, 's) openssl_accept_future \<Rightarrow> bool" where
  "openssl_ready (OfInnerAccepting timeout) = False"
| "openssl_ready (OfTlsAccepting future timeout service) = (service = None)"

definition openssl_future_wf :: "('st, 's) openssl_future \<Rightarrow> bool" where
  "openssl_future_wf fut \<longleftrightarrow>
     (case of_inner fut of
        OfInnerAccepting _ \<Rightarrow> of_config fut \<noteq> None
      | OfTlsAccepting future _ service \<Rightarrow> of_config fut = None \<and> (future = None \<longleftrightarrow> service = None))"

lemma openssl_handshake_wf:
  assumes "ssl_documented ss" and "openssl_future_wf fut" and "openssl_poll sw ss env fut = (r, fut')"
    and "of_inner fut = OfTlsAccepting future timeout service"
  shows "((\<forall>msg. r \<noteq> Panics msg) \<longrightarrow> openssl_future_wf fut') \<and>
    (\<forall>msg. r = Panics msg \<longrightarrow> openssl_ready (of_inner fut)) \<and>
    (\<forall>out. r = Returns (Ready (Inr out)) \<longrightarrow> openssl_ready (of_inner fut'))"
proof -
  have ready: "ss_timeout ss d b (Ready x) = Ready (Inr x)" for d b x
    using assms(1) by (simp add: ssl_documented_def)
  have pending: "ss_timeout ss d b Pending = Pending \<or> (\<exists>m. ss_timeout ss d b Pending = Ready (Inl m))" for d b
    using assms(1) by (simp add: ssl_documented_def)
  show ?thesis
  proof (cases future)
    case None
    with assms(2-4) show ?thesis
      by (subst (asm) openssl_poll.simps) (auto simp: openssl_future_wf_def tls_accept_poll_def)
  next
    case (Some stream)
    then obtain s where s: "service = Some s" using assms(2,4) by (auto simp: openssl_future_wf_def)
    show ?thesis
    proof (cases "oe_poll_accept env stream")
      case Pending
      with pending [of timeout "oe_elapsed env"] Some s assms(2-4) show ?thesis
        by (subst (asm) openssl_poll.simps) (auto simp: openssl_future_wf_def tls_accept_poll_def)
    next
      case (Ready x)
      with Some s assms(2-4) show ?thesis
        by (subst (asm) openssl_poll.simps)
          (auto simp: openssl_future_wf_def tls_accept_poll_def ready Let_def split: sum.splits)
    qed
  qed
qed

lemma openssl_poll_wf:
  assumes "ssl_documented ss" and "openssl_future_wf fut" and "openssl_poll sw ss env fut = (r, fut')"
  shows "((\<forall>msg. r \<noteq> Panics msg) \<longrightarrow> openssl_future_wf fut') \<and>
    (\<forall>msg. r = Panics msg \<longrightarrow> openssl_ready (of_inner fut)) \<and>
    (\<forall>out. r = Returns (Ready (Inr out)) \<longrightarrow> openssl_ready (of_inner fut'))"
proof (cases "of_inner fut")
  case (OfTlsAccepting future timeout service)
  from openssl_handshake_wf [OF assms this] show ?thesis .
next
  case (OfInnerAccepting timeout)
  show ?thesis
  proof (cases "\<exists>stream service. oe_inner env = Ready (Inr (stream, service))")
    case False
    with assms(2,3) OfInnerAccepting show ?thesis
      by (subst (asm) openssl_poll.simps)
        (auto simp: openssl_future_wf_def split: poll.splits sum.splits)
  next
    case True
    then obtain stream service config where c: "oe_inner env = Ready (Inr (stream, service))"
        "of_config fut = Some config"
      using assms(2) OfInnerAccepting by (auto simp: openssl_future_wf_def)
    obtain ssl where "ss_new ss (openssl_get_inner sw config (oe_store env)) = Inr ssl"
      "ss_stream ss ssl stream = Inr (ssl_stream_of ss (openssl_get_inner sw config (oe_store env)) stream)"
      by (rule ssl_stream_of [OF assms(1)])
    with assms(3) OfInnerAccepting c have "openssl_poll sw ss env (fut\<lparr>of_config := None,
        of_inner := OfTlsAccepting (Some (ssl_stream_of ss (openssl_get_inner sw config (oe_store env)) stream))
          timeout (Some service)\<rparr>) = (r, fut')" (is "openssl_poll sw ss env ?next = _")
      by (subst (asm) openssl_poll.simps) simp
    from openssl_handshake_wf [OF assms(1) _ this] show ?thesis by (auto simp: openssl_future_wf_def)
  qed
qed

section \<open>Properties\<close>

text \<open>
  What accepting with \<open>OpenSSLAcceptor\<close> gives, for every sequence of polls: when OpenSSL
  can create its objects it never panics; it waits for the inner acceptor and passes on its
  error; it then shakes hands with the acceptor configured at that moment, which gives an
  error of kind \<open>Other\<close>, one of kind \<open>TimedOut\<close>, or the stream with a service that carries
  what OpenSSL says of the connection.
\<close>

theorem openssl_accept_result:
  assumes "ssl_documented ss"
  shows "fst (drive (openssl_poll sw ss) envs (openssl_accept acceptor)) =
     Returns (two_stage_result oe_inner
       (\<lambda>env. openssl_get_inner sw (oa_config acceptor) (oe_store env))
       (openssl_shake ss (oa_handshake_timeout acceptor)) envs)"
  by (simp add: openssl_accept_def openssl_handshake.drive_start [OF assms])

text \<open>A stream is the acceptor it was made with and the transport; its certificates are numbers.\<close>

definition toy_ssl :: "nat list \<Rightarrow> (toy_ssl_builder, toy_ssl_builder, nat, toy_ssl_builder \<times> nat, nat, string) ssl_api" where
  "toy_ssl chain = \<lparr>ss_new = Inr, ss_stream = (\<lambda>ssl i. Inr (ssl, i)),
     ss_timeout = (\<lambda>d elapsed p. case p of Ready r \<Rightarrow> Ready (Inr r)
       | Pending \<Rightarrow> if elapsed then Ready (Inl ''deadline has elapsed'') else Pending),
     ss_peer_cert_chain = (\<lambda>_. Some chain), ss_peer_certificate = (\<lambda>_. Some 5),
     ss_to_der = (\<lambda>c. Inr [of_nat c]), ss_servername = (\<lambda>_. None), ss_alpn_protocol = (\<lambda>_. None)\<rparr>"

definition toy_ssl_env :: "bool \<Rightarrow> (nat, nat, toy_ssl_builder \<times> nat, toy_ssl_builder list) openssl_env" where
  "toy_ssl_env elapsed = \<lparr>oe_inner = Ready (Inr (1, 2)), oe_store = [([], [], None)],
     oe_poll_accept = (\<lambda>_. Pending), oe_elapsed = elapsed\<rparr>"

lemma toy_ssl_documented: "ssl_documented (toy_ssl chain)"
  by (simp add: ssl_documented_def toy_ssl_def)

theorem openssl_accept_result_witness:
  "fst (drive (openssl_poll toy_swap (toy_ssl [])) [toy_ssl_env False, toy_ssl_env True]
      (openssl_accept (openssl_acceptor_new \<lparr>oc_acceptor = 0\<rparr>))) =
    Returns (Ready (Inl (IoError TimedOut ''deadline has elapsed'')))"
  using openssl_accept_result [OF toy_ssl_documented, of toy_swap "[]" "[toy_ssl_env False, toy_ssl_env True]"
      "openssl_acceptor_new \<lparr>oc_acceptor = 0\<rparr>"]
  by (simp add: toy_ssl_env_def openssl_shake_def toy_ssl_def Let_def)

text \<open>
  If OpenSSL cannot create one of its objects for a stream that the inner acceptor delivered,
  the poll panics instead of returning an error: the task of the connection unwinds and the
  error handler is not told. \<open>openssl_setup\<close>: both of them.
\<close>

definition openssl_setup :: "('acc, 'ssl, 'i, 'st, 'c, 'e) ssl_api \<Rightarrow> 'acc \<Rightarrow> 'i \<Rightarrow> 'e + 'st" where
  "openssl_setup ss acc stream = (case ss_new ss acc of Inl e \<Rightarrow> Inl e | Inr ssl \<Rightarrow> ss_stream ss ssl stream)"

lemma openssl_setup_failure_panics:
  assumes "oe_inner env = Ready (Inr (stream, service))"
    and "openssl_setup ss (openssl_get_inner sw (oa_config acceptor) (oe_store env)) stream = Inl e"
    and "\<forall>x \<in> set before. oe_inner x = Pending"
  shows "fst (drive (openssl_poll sw ss) (before @ env # after) (openssl_accept acceptor)) =
    Panics ''called Result::unwrap() on an Err value''"
proof -
  have start: "fst (openssl_poll sw ss env (openssl_accept acceptor)) =
      Panics ''called Result::unwrap() on an Err value''"
    using assms(1,2)
    by (subst openssl_poll.simps)
      (auto simp: openssl_accept_def openssl_future_new_def openssl_setup_def split: sum.splits)
  have wait: "openssl_poll sw ss x (openssl_accept acceptor) = (Returns Pending, openssl_accept acceptor)"
    if "x \<in> set before" for x
    using assms(3) that by (subst openssl_poll.simps) (simp add: openssl_accept_def openssl_future_new_def)
  from wait show ?thesis
  proof (induction before)
    case Nil
    obtain r st where "openssl_poll sw ss env (openssl_accept acceptor) = (r, st)" by fastforce
    with start show ?case by simp
  qed simp
qed

end
