(* ===== verification/TlsServing.thy ===== *)
theory TlsServing
  imports HandshakingServer RustlsAcceptor OpensslAcceptor
begin

text \<open>
  The composed system of the theory \<open>TlsSystem\<close> with the two TLS acceptors of the code
  (\<open>src/src/tls_rustls\<close>, \<open>src/src/tls_openssl\<close>): which configuration a connection is served
  with after reloads, what becomes of a connection whose handshake fails, times out, panics
  or never completes.
\<close>

section \<open>The two acceptors\<close>

text \<open>
  The call \<open>accept\<close> of both calls the inner acceptor and keeps its future, with the cell of the
  configuration; the configuration is loaded when that future is ready.
\<close>

definition rustls_server where
  "rustls_server ru sw conn acceptor =
     \<lparr>tv_start = rustls_accept acceptor, tv_call = (\<lambda>_ fut. fut), tv_poll = rustls_poll sw conn,
      tv_env = (\<lambda>h env. env\<lparr>re_store := h\<rparr>), tv_reload = rustls_op_step ru sw\<rparr>"

definition openssl_server where
  "openssl_server os sw ss acceptor =
     \<lparr>tv_start = openssl_accept acceptor, tv_call = (\<lambda>_ fut. fut), tv_poll = openssl_poll sw ss,
      tv_env = (\<lambda>h env. env\<lparr>oe_store := h\<rparr>), tv_reload = openssl_op_step os sw\<rparr>"

lemma rustls_server_simps [simp]:
  "tv_start (rustls_server ru sw conn acceptor) = rustls_accept acceptor"
  "tv_poll (rustls_server ru sw conn acceptor) = rustls_poll sw conn"
  "tv_env (rustls_server ru sw conn acceptor) h env = env\<lparr>re_store := h\<rparr>"
  "tv_reload (rustls_server ru sw conn acceptor) = rustls_op_step ru sw"
  "tv_call (rustls_server ru sw conn acceptor) env fut = fut"
  by (simp_all add: rustls_server_def)

lemma openssl_server_simps [simp]:
  "tv_start (openssl_server os sw ss acceptor) = openssl_accept acceptor"
  "tv_poll (openssl_server os sw ss acceptor) = openssl_poll sw ss"
  "tv_env (openssl_server os sw ss acceptor) h env = env\<lparr>oe_store := h\<rparr>"
  "tv_reload (openssl_server os sw ss acceptor) = openssl_op_step os sw"
  "tv_call (openssl_server os sw ss acceptor) env fut = fut"
  by (simp_all add: openssl_server_def)

lemma tls_servers_lazy [simp]:
  "lazy_call (rustls_server ru sw conn acceptor)" "lazy_call (openssl_server os sw ss acceptor')"
  by (simp_all add: lazy_call_def)

lemma rustls_drive:
  "fst (drive (rustls_poll sw conn) envs (rustls_accept acceptor)) =
     Returns (two_stage_result re_inner (\<lambda>env. rustls_get_inner sw (ra_config acceptor) (re_store env))
       (rustls_shake conn (ra_handshake_timeout acceptor)) envs)"
  by (simp add: rustls_accept_def rustls_handshake.drive_start)

lemma openssl_drive:
  "ssl_documented ss \<Longrightarrow> fst (drive (openssl_poll sw ss) envs (openssl_accept acceptor)) =
     Returns (two_stage_result oe_inner (\<lambda>env. openssl_get_inner sw (oa_config acceptor) (oe_store env))
       (openssl_shake ss (oa_handshake_timeout acceptor)) envs)"
  by (simp add: openssl_accept_def openssl_handshake.drive_start)

interpretation rustls_serving: handshaking_server True "rustls_server ru sw conn acceptor" re_inner
    "\<lambda>env. rustls_get_inner sw (ra_config acceptor) (re_store env)"
    "rustls_shake conn (ra_handshake_timeout acceptor)"
  for ru and sw :: "('cfg, 'h) swap_api" and conn and acceptor
  by unfold_locales (simp_all add: rustls_drive)

interpretation openssl_serving: handshaking_server "ssl_documented ss" "openssl_server os sw ss acceptor" oe_inner
    "\<lambda>env. openssl_get_inner sw (oa_config acceptor) (oe_store env)"
    "openssl_shake ss (oa_handshake_timeout acceptor)"
  for os and sw :: "('acc, 'h) swap_api" and ss and acceptor
  by unfold_locales (simp_all add: openssl_drive)

text \<open>The configuration after some reloads: that of the last one of this cell that succeeded.\<close>

definition rustls_latest_config where
  "rustls_latest_config ru config xs cfg =
     fold (\<lambda>x cfg. case rustls_op_config ru x of
         Inl e \<Rightarrow> cfg
       | Inr new \<Rightarrow> if rustls_op_target x = config then new else cfg) xs cfg"

lemma rustls_latest_get:
  assumes "swap_documented sw live" and "live h (rc_inner config)"
    and "\<forall>x \<in> set xs. live h (rc_inner (rustls_op_target x))"
  shows "rustls_get_inner sw config (fold (rustls_op_step ru sw) xs h) =
    rustls_latest_config ru config xs (rustls_get_inner sw config h)"
  using rustls_cells.attempts_get [OF assms(1), of "map (\<lambda>x. (rustls_op_target x, rustls_op_config ru x)) xs" h config]
    assms(2,3)
  by (auto simp: rustls_ops_attempts rustls_latest_config_def fold_map comp_def rustls_latest)

text \<open>
  A connection that is served: one poll found its inner acceptor ready, one completed the
  handshake with the configuration that the first had loaded.
\<close>

lemma rustls_shake_accepted:
  "rustls_shake conn timeout cfg stream service env = Ready (Inr (tls, w)) \<longleftrightarrow>
    re_handshake env cfg stream timeout = Ready (Inr (Inr tls)) \<and> w = tls_service_new service (rustls_tls_info conn tls)"
  by (auto simp: rustls_shake_def split: poll.splits sum.splits)

lemma rustls_accepted_polls:
  assumes "tls_reachable api cfg (rustls_server ru sw conn acceptor) store s"
    and "i < length (sy_conns (ts_sys s))" and "ac_accepted (ts_accepts s ! i) = Some (tls, service)"
  shows "\<exists>p \<in> set (ac_polls (ts_accepts s ! i)). \<exists>q \<in> set (ac_polls (ts_accepts s ! i)). \<exists>stream inner.
    re_inner p = Ready (Inr (stream, inner)) \<and>
    re_handshake q (rustls_get_inner sw (ra_config acceptor) (re_store p)) stream (ra_handshake_timeout acceptor) =
      Ready (Inr (Inr tls)) \<and>
    service = tls_service_new inner (rustls_tls_info conn tls)"
  using rustls_serving.accepted_polls [OF TrueI assms] unfolding rustls_shake_accepted by blast

text \<open>
  C5. Reloading a running server: whatever the interleaving of reloads, connections, signals
  and everything else, a connection that the server serves over rustls completed its
  handshake with the configuration of the last reload that had succeeded when its inner
  acceptor became ready, and its service carries what rustls says of that connection. In
  particular no connection whose acceptor is polled first after a reload is served with an
  older configuration.
\<close>

theorem rustls_serves_reloaded:
  assumes "swap_documented sw live" and "live store (rc_inner (ra_config acceptor))"
    and "\<forall>x \<in> set (tls_reloads bs). live store (rc_inner (rustls_op_target x))"
    and "tls_run api cfg (rustls_server ru sw conn acceptor) bs (tls_start api store) = Some s"
    and "i < length (sy_conns (ts_sys s))"
    and "ac_accepted (ts_accepts s ! i) = Some (tls, service)"
  shows "\<exists>before fenv env after stream inner poll. bs = before @ TaConn i fenv env # after \<and>
    re_inner fenv = Ready (Inr (stream, inner)) \<and>
    poll \<in> set (ac_polls (ts_accepts s ! i)) \<and>
    re_handshake poll
      (rustls_latest_config ru (ra_config acceptor) (tls_reloads before)
        (rustls_get_inner sw (ra_config acceptor) store))
      stream (ra_handshake_timeout acceptor) = Ready (Inr (Inr tls)) \<and>
    service = tls_service_new inner (rustls_tls_info conn tls)"
proof -
  from rustls_serving.accepted_store [OF TrueI assms(4-6)] obtain before fenv env after q stream inner where
      b: "bs = before @ TaConn i fenv env # after" "q \<in> set (ac_polls (ts_accepts s ! i))"
        "re_inner fenv = Ready (Inr (stream, inner))"
    and shake: "re_handshake q (rustls_get_inner sw (ra_config acceptor)
        (fold (rustls_op_step ru sw) (tls_reloads before) store)) stream (ra_handshake_timeout acceptor) = Ready (Inr (Inr tls))"
      "service = tls_service_new inner (rustls_tls_info conn tls)"
    by (auto simp: rustls_shake_accepted)
  with assms(3) have "\<forall>x \<in> set (tls_reloads before). live store (rc_inner (rustls_op_target x))" by auto
  from b shake(1) [unfolded rustls_latest_get [OF assms(1,2) this]] shake(2) show ?thesis by blast
qed

text \<open>
  A schedule: a connection is accepted, the configuration is reloaded, the task polls the
  acceptor, whose handshake completes at once.
\<close>

type_synonym toy_tls_action =
  "(nat, (toy_cfg, nat, nat, toy_cfg, toy_cfg list) rustls_env, (toy_cfg, nat) rustls_op) tls_action"

definition toy_rustls_server ::
  "((toy_cfg, nat, nat, toy_cfg, toy_cfg list) rustls_env, (toy_cfg, nat, nat) rustls_future,
    toy_cfg \<times> nat tls_service, toy_cfg list, (toy_cfg, nat) rustls_op) tls_server" where
  "toy_rustls_server = rustls_server toy_rustls toy_swap toy_conn (rustls_acceptor_new \<lparr>rc_inner = 0\<rparr>)"

definition tc_connect :: "(nat, 'fe, 'op) tls_action list" where
  "tc_connect = map TaSys (sc_listen @ sc_accept 1)"

definition tc_reload :: "toy_tls_action list" where
  "tc_reload = tc_connect @ [TaReload (ReloadPem \<lparr>rc_inner = 0\<rparr> [1] [2])] @
     replicate 3 (TaConn 0 (toy_tls_env []) env_accepts)"

text \<open>The polls of the two stages, for evaluation.\<close>

lemma rustls_poll_stages:
  "rustls_poll sw conn env \<lparr>rf_inner = RfInner timeout, rf_config = Some config\<rparr> =
    (case re_inner env of
       Ready (Inr (stream, service)) \<Rightarrow>
         rustls_poll sw conn env \<lparr>rf_inner = RfAccept (rustls_get_inner sw config (re_store env)) stream timeout (Some service),
           rf_config = None\<rparr>
     | Ready (Inl e) \<Rightarrow> (Returns (Ready (Inl e)), \<lparr>rf_inner = RfInner timeout, rf_config = Some config\<rparr>)
     | Pending \<Rightarrow> (Returns Pending, \<lparr>rf_inner = RfInner timeout, rf_config = Some config\<rparr>))"
  "rustls_poll sw conn env \<lparr>rf_inner = RfAccept cfg stream timeout (Some service), rf_config = c\<rparr> =
    (case re_handshake env cfg stream timeout of
       Ready (Inr (Inr tls)) \<Rightarrow>
         (Returns (Ready (Inr (tls, tls_service_new service (rustls_tls_info conn tls)))),
          \<lparr>rf_inner = RfAccept cfg stream timeout None, rf_config = c\<rparr>)
     | Ready (Inr (Inl e)) \<Rightarrow>
         (Returns (Ready (Inl e)), \<lparr>rf_inner = RfAccept cfg stream timeout (Some service), rf_config = c\<rparr>)
     | Ready (Inl msg) \<Rightarrow>
         (Returns (Ready (Inl (IoError TimedOut msg))),
          \<lparr>rf_inner = RfAccept cfg stream timeout (Some service), rf_config = c\<rparr>)
     | Pending \<Rightarrow> (Returns Pending, \<lparr>rf_inner = RfAccept cfg stream timeout (Some service), rf_config = c\<rparr>))"
  by (subst rustls_poll.simps; auto simp: Let_def split: poll.split sum.split)+

lemma toy_reload_pem:
  "snd (rustls_reload_from_pem toy_rustls toy_swap \<lparr>rc_inner = 0\<rparr> [1] [2] [([], [])]) =
     [([[2], [1]], alpn_protocols)]"
  by (simp add: rustls_reload_from_pem_def rustls_reload_def swap_reload_def config_from_pem_def
      certificates_from_pem_def private_key_from_pem_def toy_rustls_def config_from_cert_and_key_def
      set_alpn_def toy_swap_def)

lemmas tc_simps =
  run_simps tc_connect_def tls_start_def accepting_new_def accept_call_def accept_poll_def tls_conn_step_def toy_tls_env_def
  rustls_accept_def rustls_acceptor_new_def rustls_future_new_def rustls_poll_stages toy_reload_pem
  rustls_get_inner_def

theorem rustls_serves_reloaded_witness:
  "\<exists>s tls service. tls_run toy_api toy_config toy_rustls_server tc_reload (tls_start toy_api [([], [])]) = Some s \<and>
     ac_accepted (ts_accepts s ! 0) = Some (tls, service) \<and> tls = ([[2], [1]], alpn_protocols) \<and>
     (\<exists>poll \<in> set (ac_polls (ts_accepts s ! 0)). \<exists>before fenv env after stream inner.
        tc_reload = before @ TaConn 0 fenv env # after \<and> re_inner fenv = Ready (Inr (stream, inner)) \<and>
        re_handshake poll
          (rustls_latest_config toy_rustls \<lparr>rc_inner = 0\<rparr> (tls_reloads before) ([], []))
          stream (from_secs 10) = Ready (Inr (Inr tls)))"
proof -
  let ?acc = "rustls_acceptor_new \<lparr>rc_inner = 0\<rparr>" and ?store = "[([], [])] :: toy_cfg list"
  let ?sv = "rustls_server toy_rustls toy_swap toy_conn ?acc"
  let ?r = "tls_run toy_api toy_config ?sv tc_reload (tls_start toy_api ?store)"
  obtain s tls service where run: "?r = Some s" and len: "0 < length (sy_conns (ts_sys s))"
    and acc: "ac_accepted (ts_accepts s ! 0) = Some (tls, service)" "tls = ([[2], [1]], alpn_protocols)"
    by (simp add: tc_reload_def tc_simps) (simp add: toy_swap_def)
  have "rc_inner (ra_config ?acc) < length ?store"
    and "\<forall>x \<in> set (tls_reloads tc_reload). rc_inner (rustls_op_target x) < length ?store"
    by (simp_all add: tc_reload_def tc_connect_def sc_listen_def sc_accept_def rustls_acceptor_new_def replicate_numeral)
  from rustls_serves_reloaded [OF toy_swap_documented this run len acc(1)]
  obtain before fenv env after stream inner poll where w: "tc_reload = before @ TaConn 0 fenv env # after"
      "re_inner fenv = Ready (Inr (stream, inner))" "poll \<in> set (ac_polls (ts_accepts s ! 0))"
      "re_handshake poll
        (rustls_latest_config toy_rustls \<lparr>rc_inner = 0\<rparr> (tls_reloads before) ([], []))
        stream (from_secs 10) = Ready (Inr (Inr tls))"
    by (auto simp: rustls_acceptor_new_def rustls_get_inner_def toy_swap_def)
  with acc run show ?thesis unfolding toy_rustls_server_def by blast
qed

text \<open>
  C7. What becomes of a connection over rustls, in every reachable state of the running
  server: while its acceptor is at work nothing is reported; once it has failed, in the inner
  acceptor, in the handshake or by the timeout, exactly that error has been reported, with the
  remote address, and the connection was not served; and a connection is served exactly with
  the stream and service its acceptor gave.
\<close>

theorem rustls_connection_outcome:
  assumes "tls_reachable api cfg (rustls_server ru sw conn acceptor) store s"
    and "i < length (sy_conns (ts_sys s))"
  shows "let c = sy_conns (ts_sys s) ! i; a = ts_accepts s ! i;
      result = two_stage_result re_inner (\<lambda>env. rustls_get_inner sw (ra_config acceptor) (re_store env))
        (rustls_shake conn (ra_handshake_timeout acceptor)) (ac_polls a)
    in (conn_phase c = PhAccept \<longrightarrow> result = Pending) \<and>
       cn_log c = (case result of
           Ready (Inl e) \<Rightarrow> call_handler (cc_error_handler cfg) (Some (cn_remote c)) e []
         | _ \<Rightarrow> []) \<and>
       ac_accepted a = (case result of Ready (Inr out) \<Rightarrow> Some out | _ \<Rightarrow> None) \<and>
       (cn_serve c \<noteq> None \<longleftrightarrow> ac_accepted a \<noteq> None) \<and>
       (cn_serve c = None \<and> conn_phase c \<noteq> PhAccept \<longrightarrow> conn_phase c = PhDrop \<and> \<not> cn_stream_open c)"
  by (rule rustls_serving.outcome [OF TrueI assms])

definition toy_stalled :: "(toy_cfg, nat, nat, toy_cfg, toy_cfg list) rustls_env" where
  "toy_stalled = (toy_tls_env [])\<lparr>re_handshake := (\<lambda>_ _ _. Pending)\<rparr>"

definition toy_timeout :: "(toy_cfg, nat, nat, toy_cfg, toy_cfg list) rustls_env" where
  "toy_timeout = (toy_tls_env [])\<lparr>re_handshake := (\<lambda>_ _ _. Ready (Inl ''deadline has elapsed''))\<rparr>"

text \<open>The handshake stalls and then times out.\<close>

definition tc_stall :: "toy_tls_action list" where
  "tc_stall = tc_connect @ replicate 3 (TaConn 0 toy_stalled env_accepts)"

definition tc_timeout :: "toy_tls_action list" where
  "tc_timeout = tc_stall @ replicate 3 (TaConn 0 toy_timeout env_accepts)"

theorem rustls_connection_outcome_witness:
  "\<exists>s. tls_run toy_api toy_config toy_rustls_server tc_timeout (tls_start toy_api [([], [])]) = Some s \<and>
     cn_log (sy_conns (ts_sys s) ! 0) = [(Some 1, IoError TimedOut ''deadline has elapsed'')] \<and>
     cn_serve (sy_conns (ts_sys s) ! 0) = None \<and> \<not> cn_stream_open (sy_conns (ts_sys s) ! 0)"
proof -
  let ?sv = "rustls_server toy_rustls toy_swap toy_conn (rustls_acceptor_new \<lparr>rc_inner = 0\<rparr>)"
  let ?r = "tls_run toy_api toy_config ?sv tc_timeout (tls_start toy_api [([], [])])"
  obtain s where run: "?r = Some s" and len: "0 < length (sy_conns (ts_sys s))"
    and remote: "cn_remote (sy_conns (ts_sys s) ! 0) = 1" "conn_phase (sy_conns (ts_sys s) ! 0) \<noteq> PhAccept"
    and polls: "ac_polls (ts_accepts s ! 0) =
      [toy_stalled\<lparr>re_store := [([], [])]\<rparr>, toy_timeout\<lparr>re_store := [([], [])]\<rparr>]"
    by (simp add: tc_timeout_def tc_stall_def tc_simps toy_stalled_def toy_timeout_def conn_phase_def)
  from rustls_connection_outcome [OF tls_start_reachable [OF run] len] remote run show ?thesis
    by (auto simp: Let_def polls toy_stalled_def toy_timeout_def toy_tls_env_def rustls_shake_def
        rustls_acceptor_new_def toy_config_def call_handler_def toy_rustls_server_def)
qed

text \<open>
  C37. If OpenSSL cannot create either of its objects for the stream of a connection, the \<open>Ssl\<close> or
  the \<open>SslStream\<close>, the task dies silently: in every reachable state after that poll the
  connection is closed and was never served, and the error handler has not been told, although
  one may be set.
\<close>

theorem openssl_setup_failure_silent:
  assumes "tls_reachable api cfg (openssl_server os sw ss acceptor) store s"
    and "i < length (sy_conns (ts_sys s))"
    and "ac_polls (ts_accepts s ! i) = before @ env # after"
    and "\<forall>x \<in> set before. oe_inner x = Pending" and "oe_inner env = Ready (Inr (stream, service))"
    and "openssl_setup ss (openssl_get_inner sw (oa_config acceptor) (oe_store env)) stream = Inl e"
  shows "let c = sy_conns (ts_sys s) ! i
    in conn_phase c = PhDrop \<and> \<not> cn_stream_open c \<and> cn_serve c = None \<and> cn_log c = []"
proof -
  have "fst (drive (openssl_poll sw ss) (ac_polls (ts_accepts s ! i)) (openssl_accept acceptor)) =
      Panics ''called Result::unwrap() on an Err value''"
    unfolding assms(3) by (rule openssl_setup_failure_panics [OF assms(5,6,4)])
  then have "fst (drive (tv_poll (openssl_server os sw ss acceptor)) (ac_polls (ts_accepts s ! i))
      (accept_started (openssl_server os sw ss acceptor) (ts_accepts s ! i))) =
      Panics ''called Result::unwrap() on an Err value''"
    by (simp add: lazy_started)
  note outcome = tls_outcome [OF assms(1,2) this]
  then show ?thesis unfolding Let_def by (auto simp: accept_log_def)
qed

text \<open>No \<open>Ssl\<close>, and no stream for an \<open>Ssl\<close>.\<close>

definition toy_no_ssl where
  "toy_no_ssl = (toy_ssl [])\<lparr>ss_new := (\<lambda>_. Inl ''no memory'')\<rparr>"

definition toy_no_stream where
  "toy_no_stream = (toy_ssl [])\<lparr>ss_stream := (\<lambda>_ _. Inl ''no memory'')\<rparr>"

theorem openssl_setup_failure_silent_witness:
  "list_all (\<lambda>ss. \<exists>s. tls_run toy_api toy_config
       (openssl_server toy_openssl toy_swap ss (openssl_acceptor_new \<lparr>oc_acceptor = 0\<rparr>))
       (tc_connect @ replicate 3 (TaConn 0 (toy_ssl_env False) env_accepts)) (tls_start toy_api [([], [], None)]) = Some s \<and>
     cc_error_handler toy_config \<and> cn_log (sy_conns (ts_sys s) ! 0) = [] \<and>
     \<not> cn_stream_open (sy_conns (ts_sys s) ! 0)) [toy_no_ssl, toy_no_stream]"
  unfolding list_all_iff
proof
  fix ss assume ss: "ss \<in> set [toy_no_ssl, toy_no_stream]"
  let ?acc = "openssl_acceptor_new \<lparr>oc_acceptor = 0\<rparr>"
  let ?sv = "openssl_server toy_openssl toy_swap ss ?acc"
  let ?r = "tls_run toy_api toy_config ?sv (tc_connect @ replicate 3 (TaConn 0 (toy_ssl_env False) env_accepts))
    (tls_start toy_api [([], [], None)])"
  have "\<exists>s. ?r = Some s \<and> 0 < length (sy_conns (ts_sys s)) \<and> ac_polls (ts_accepts s ! 0) = [] @ toy_ssl_env False # []"
    using ss by (auto simp: tc_simps openssl_accept_def openssl_acceptor_new_def openssl_future_new_def openssl_poll.simps
        toy_ssl_env_def toy_ssl_def toy_no_ssl_def toy_no_stream_def conn_abort_def)
  then obtain s where run: "?r = Some s" and len: "0 < length (sy_conns (ts_sys s))"
    and polls: "ac_polls (ts_accepts s ! 0) = [] @ toy_ssl_env False # []" by blast
  have "oe_inner (toy_ssl_env False) = Ready (Inr (1, 2))"
    "openssl_setup ss (openssl_get_inner toy_swap (oa_config ?acc) (oe_store (toy_ssl_env False))) 1 = Inl ''no memory''"
    using ss by (auto simp: toy_ssl_env_def toy_no_ssl_def toy_no_stream_def toy_ssl_def openssl_setup_def)
  from openssl_setup_failure_silent [OF tls_start_reachable [OF run] len polls _ this] run
  show "\<exists>s. ?r = Some s \<and> cc_error_handler toy_config \<and> cn_log (sy_conns (ts_sys s) ! 0) = [] \<and>
      \<not> cn_stream_open (sy_conns (ts_sys s) ! 0)"
    by (simp add: Let_def toy_config_def)
qed

text \<open>
  C11. A stalled handshake blocks no shutdown: once shutdown is signalled, in every interleaving
  in which \<open>serve\<close> accepts no new connection and even if no handshake and no inner acceptor of any connection ever makes progress, eight
  polls of each task end all of them, close their streams and bring the counter to 0.
\<close>

theorem rustls_shutdown_not_blocked:
  assumes "tls_reachable api cfg (rustls_server ru sw conn acceptor
      :: (_, _, _, _, ('cfg, 'p) rustls_op) tls_server) store s"
    and "is_notified (hi_shutdown (sy_handle (ts_sys s)))"
    and "tls_run api cfg (rustls_server ru sw conn acceptor) (bs :: (_, _, ('cfg, 'p) rustls_op) tls_action list) s = Some t"
    and "length (sy_conns (ts_sys t)) = length (sy_conns (ts_sys s))"
    and "length (sy_conns (ts_sys t)) < 2 ^ 64"
    and "\<forall>i < length (sy_conns (ts_sys t)). 8 \<le> count_if (tls_moves_conn i) bs"
  shows "(\<forall>c \<in> set (sy_conns (ts_sys t)). conn_done c \<and> \<not> cn_stream_open c) \<and>
    connection_count (sy_handle (ts_sys t)) = 0"
  by (rule rustls_serving.shutdown_ends [OF TrueI assms])

definition stalled_state where
  "stalled_state = the (tls_run toy_api toy_config toy_rustls_server (tc_stall @ [TaSys ActShutdown])
     (tls_start toy_api [([], [])]))"

lemma stalled_run:
  "tls_run toy_api toy_config toy_rustls_server (tc_stall @ [TaSys ActShutdown])
     (tls_start toy_api [([], [])]) = Some stalled_state"
  by (simp add: stalled_state_def toy_rustls_server_def tc_stall_def tc_simps toy_stalled_def conn_phase_def)

theorem rustls_shutdown_not_blocked_witness:
  "\<exists>t. tls_run toy_api toy_config toy_rustls_server (replicate 8 (TaConn 0 toy_stalled env_accepts)) stalled_state = Some t \<and>
     conn_done (sy_conns (ts_sys t) ! 0) \<and> connection_count (sy_handle (ts_sys t)) = 0"
proof -
  let ?stalls = "replicate 8 (TaConn 0 toy_stalled env_accepts)
    :: toy_tls_action list"
  have s: "is_notified (hi_shutdown (sy_handle (ts_sys stalled_state)))" "length (sy_conns (ts_sys stalled_state)) = 1"
    by (simp_all add: stalled_state_def toy_rustls_server_def tc_stall_def tc_simps toy_stalled_def conn_phase_def)
  obtain t where t: "tls_run toy_api toy_config toy_rustls_server ?stalls stalled_state = Some t"
      "length (sy_conns (ts_sys t)) = 1"
    by (simp add: stalled_state_def toy_rustls_server_def tc_stall_def tc_simps toy_stalled_def conn_phase_def)
  have "\<forall>i < length (sy_conns (ts_sys t)). 8 \<le> count_if (tls_moves_conn i) ?stalls"
    by (simp add: t replicate_numeral)
  moreover have "sy_conns (ts_sys t) ! 0 \<in> set (sy_conns (ts_sys t))" using t(2) by simp
  ultimately show ?thesis
    using rustls_shutdown_not_blocked [OF tls_start_reachable [OF stalled_run [unfolded toy_rustls_server_def]] s(1)
        t(1) [unfolded toy_rustls_server_def]] s(2) t by auto
qed

text \<open>
  C38. The futures of both acceptors stay well formed and their \<open>expect\<close>s are justified: from
  the moment they are made, the configuration is there exactly until the handshake starts and
  the service exactly until the future is ready, and a poll panics only if the future has
  already been ready.
\<close>

theorem tls_futures_wellformed:
  assumes "ssl_documented ss"
  shows "rustls_future_wf (rustls_accept ra) \<and> openssl_future_wf (openssl_accept oa) \<and>
    (\<forall>env fut r fut'. rustls_future_wf fut \<and> rustls_poll sw conn env fut = (r, fut') \<longrightarrow>
      rustls_future_wf fut' \<and>
      (\<forall>msg. r = Panics msg \<longrightarrow> rustls_ready (rf_inner fut)) \<and>
      (\<forall>out. r = Returns (Ready (Inr out)) \<longrightarrow> rustls_ready (rf_inner fut'))) \<and>
    (\<forall>env fut r fut'. openssl_future_wf fut \<and> openssl_poll sw' ss env fut = (r, fut') \<longrightarrow>
      ((\<forall>msg. r \<noteq> Panics msg) \<longrightarrow> openssl_future_wf fut') \<and>
      (\<forall>msg. r = Panics msg \<longrightarrow> openssl_ready (of_inner fut)) \<and>
      (\<forall>out. r = Returns (Ready (Inr out)) \<longrightarrow> openssl_ready (of_inner fut')))"
proof (intro conjI)
  show "rustls_future_wf (rustls_accept ra)"
    by (simp add: rustls_accept_def rustls_future_new_def rustls_future_wf_def)
  show "openssl_future_wf (openssl_accept oa)"
    by (simp add: openssl_accept_def openssl_future_new_def openssl_future_wf_def)
  show "\<forall>env fut r fut'. rustls_future_wf fut \<and> rustls_poll sw conn env fut = (r, fut') \<longrightarrow>
      rustls_future_wf fut' \<and>
      (\<forall>msg. r = Panics msg \<longrightarrow> rustls_ready (rf_inner fut)) \<and>
      (\<forall>out. r = Returns (Ready (Inr out)) \<longrightarrow> rustls_ready (rf_inner fut'))"
    by (intro allI impI, elim conjE, rule rustls_poll_wf)
  show "\<forall>env fut r fut'. openssl_future_wf fut \<and> openssl_poll sw' ss env fut = (r, fut') \<longrightarrow>
      ((\<forall>msg. r \<noteq> Panics msg) \<longrightarrow> openssl_future_wf fut') \<and>
      (\<forall>msg. r = Panics msg \<longrightarrow> openssl_ready (of_inner fut)) \<and>
      (\<forall>out. r = Returns (Ready (Inr out)) \<longrightarrow> openssl_ready (of_inner fut'))"
    by (intro allI impI, elim conjE, rule openssl_poll_wf [OF assms])
qed

theorem tls_futures_wellformed_witness:
  "rustls_future_wf (snd (rustls_poll toy_swap toy_conn (toy_tls_env [([], [])])
     (rustls_accept (rustls_acceptor_new \<lparr>rc_inner = 0\<rparr>)))) \<and>
   (\<forall>msg. fst (openssl_poll toy_swap (toy_ssl []) (toy_ssl_env False)
     (openssl_accept (openssl_acceptor_new \<lparr>oc_acceptor = 0\<rparr>))) \<noteq> Panics msg)"
proof -
  note typed = tls_futures_wellformed [OF toy_ssl_documented, where
      ra = "rustls_acceptor_new \<lparr>rc_inner = 0\<rparr>" and oa = "openssl_acceptor_new \<lparr>oc_acceptor = 0\<rparr>"]
  obtain r fut where r: "rustls_poll toy_swap toy_conn (toy_tls_env [([], [])])
     (rustls_accept (rustls_acceptor_new \<lparr>rc_inner = 0\<rparr>)) = (r, fut)" by fastforce
  obtain q fut' where q: "openssl_poll toy_swap (toy_ssl []) (toy_ssl_env False)
     (openssl_accept (openssl_acceptor_new \<lparr>oc_acceptor = 0\<rparr>)) = (q, fut')" by fastforce
  have "\<not> openssl_ready (of_inner (openssl_accept (openssl_acceptor_new \<lparr>oc_acceptor = 0\<rparr>)))"
    by (simp add: openssl_accept_def openssl_future_new_def)
  with typed r q show ?thesis by (metis fst_conv snd_conv)
qed

end
