(* ===== verification/AcceptorServing.thy ===== *)
theory AcceptorServing
  imports TlsServing Acceptors
begin

text \<open>
  The acceptors of \<open>src/src/accept.rs\<close> in the running server (the composition of the theory
  \<open>TlsSystem\<close>, which does not ask that the acceptor be a TLS one), on their own and inside
  \<open>RustlsAcceptor\<close>.
\<close>

section \<open>Acceptors whose future is ready at once\<close>

text \<open>
  \<open>std::future::ready(accept(stream, service))\<close>: the work is done by the call, on the stream of
  the connection with the service that was made for it, and the future holds the result until it
  is polled. There is nothing to store or to reload.
\<close>

definition ready_server ::
  "('i \<Rightarrow> 's \<Rightarrow> 'out io_result) \<Rightarrow> ('i \<times> 's, 'out io_result option, 'out, unit, unit) tls_server" where
  "ready_server accept =
     \<lparr>tv_start = None, tv_call = (\<lambda>(stream, service) _. Some (accept stream service)),
      tv_poll = (\<lambda>_ fut. (case fut of
          Some r \<Rightarrow> Returns (Ready r) | None \<Rightarrow> Panics ''`Ready` polled after completion'', None)),
      tv_env = (\<lambda>_ fenv. fenv), tv_reload = (\<lambda>_ h. h)\<rparr>"

lemma ready_server_drive:
  "fst (drive (tv_poll (ready_server accept)) envs (accept_started (ready_server accept) a)) =
    (case envs of [] \<Rightarrow> Returns Pending
     | _ \<Rightarrow> (case ac_called a of
         None \<Rightarrow> Panics ''`Ready` polled after completion''
       | Some (stream, service) \<Rightarrow> Returns (Ready (accept stream service))))"
  by (cases envs) (auto simp: ready_server_def accept_started_def split: option.split)

text \<open>
  The acceptor is called once, its future is polled at most once, and what the call gave then
  decides what becomes of the connection.
\<close>

lemma ready_connection_outcome:
  assumes "tls_reachable api cfg (ready_server accept) store s" and "i < length (sy_conns (ts_sys s))"
  shows "let c = sy_conns (ts_sys s) ! i; a = ts_accepts s ! i
    in case ac_called a of
         None \<Rightarrow> ac_polls a = [] \<and> cn_log c = [] \<and> cn_serve c = None \<and> ac_accepted a = None
       | Some (stream, service) \<Rightarrow>
           (if ac_polls a = []
            then cn_log c = [] \<and> cn_serve c = None \<and> ac_accepted a = None \<and> ac_future a = Some (accept stream service)
            else length (ac_polls a) = 1 \<and>
              (case accept stream service of
                 Inl e \<Rightarrow> cn_log c = call_handler (cc_error_handler cfg) (Some (cn_remote c)) e [] \<and>
                   cn_serve c = None \<and> ac_accepted a = None \<and> conn_phase c = PhDrop \<and> \<not> cn_stream_open c
               | Inr out \<Rightarrow> cn_log c = [] \<and> cn_serve c \<noteq> None \<and> ac_accepted a = Some out))"
proof (cases "ac_polls (ts_accepts s ! i)")
  case Nil
  from tls_accept_inv [OF assms] have "ac_future (ts_accepts s ! i) = accept_started (ready_server accept) (ts_accepts s ! i)"
    using Nil by (simp add: accept_inv_def Let_def)
  with Nil tls_outcome [OF assms refl] show ?thesis
    by (auto simp: ready_server_drive accept_log_def accept_started_def ready_server_def Let_def split: option.split)
next
  case (Cons p polls)
  from tls_accept_inv [OF assms] Cons obtain stream service where called: "ac_called (ts_accepts s ! i) = Some (stream, service)"
    by (cases "ac_called (ts_accepts s ! i)") (auto simp: accept_inv_def Let_def)
  have one: "polls = []"
    using tls_outcome(5) [OF assms refl] by (cases polls) (auto simp: Cons called ready_server_drive simp del: drive.simps)
  note outcome = tls_outcome [OF assms refl, unfolded Cons one ready_server_drive list.case called option.case prod.case]
  have "conn_phase (sy_conns (ts_sys s) ! i) \<noteq> PhAccept" using outcome(1) by auto
  with outcome show ?thesis
    by (cases "accept stream service") (auto simp: Cons one called accept_log_def)
qed

section \<open>Properties\<close>

text \<open>
  C29. A server with \<open>TcpConfigAcceptor\<close> sets the options of a socket before anything is
  served on it. In every reachable state: once the acceptor has been called for a connection,
  all the socket operations that its configuration asks for have been tried in order, up to the
  first one that failed, even if a signal then ends the task before it looks at the result; the
  connection is served only if all of them succeeded, and on exactly the stream that they left;
  if the task has seen one fail, that error has been reported once, with the remote address,
  and the connection is closed and was not served.
\<close>

theorem socket_options_before_service:
  assumes "tls_reachable api cfg (ready_server (tcp_config_accept tcp platform config)) store s"
    and "i < length (sy_conns (ts_sys s))"
  shows "let c = sy_conns (ts_sys s) ! i; a = ts_accepts s ! i
    in case ac_called a of
         None \<Rightarrow> cn_log c = [] \<and> cn_serve c = None
       | Some (stream, service) \<Rightarrow>
           (case apply_ops tcp platform (requested_ops config) stream of
              (Inl e, _) \<Rightarrow> cn_serve c = None \<and>
                (if ac_polls a = [] then cn_log c = [] \<and> ac_future a = Some (Inl e)
                 else cn_log c = call_handler (cc_error_handler cfg) (Some (cn_remote c)) e [] \<and>
                   conn_phase c = PhDrop \<and> \<not> cn_stream_open c)
            | (Inr _, stream') \<Rightarrow> cn_log c = [] \<and>
                (if ac_polls a = [] then cn_serve c = None \<and> ac_future a = Some (Inr (stream', service))
                 else cn_serve c \<noteq> None \<and> ac_accepted a = Some (stream', service)))"
  using ready_connection_outcome [OF assms]
  by (auto simp: Let_def tcp_config_accept_ops split: option.splits prod.splits sum.splits if_splits)

text \<open>A kernel without keepalive; the acceptor asks for both options.\<close>

definition toy_no_keepalive :: "(toy_socket, nat, nat list) tcp_api" where
  "toy_no_keepalive = toy_tcp\<lparr>tcp_set_keepalive := (\<lambda>k s. (Inl (IoError (OsError 92) ''ENOPROTOOPT''), s))\<rparr>"

definition toy_socket_config :: socket_config where
  "toy_socket_config = socket_keepalive (keepalive_time 60 keepalive_new) (socket_nodelay True socket_config_new)"

definition tc_socket :: "(nat, toy_socket \<times> nat, unit) tls_action list" where
  "tc_socket = tc_connect @ replicate 3 (TaConn 0 ((80, False, []), 0) env_accepts)"

theorem socket_options_before_service_witness:
  "\<exists>s t. tls_run toy_api toy_config (ready_server (tcp_config_accept toy_tcp True toy_socket_config)) tc_socket
       (tls_start toy_api ()) = Some s \<and> ac_accepted (ts_accepts s ! 0) = Some ((80, True, [60]), 0) \<and>
     tls_run toy_api toy_config (ready_server (tcp_config_accept toy_no_keepalive True toy_socket_config)) tc_socket
       (tls_start toy_api ()) = Some t \<and> cn_serve (sy_conns (ts_sys t) ! 0) = None \<and>
     cn_log (sy_conns (ts_sys t) ! 0) = [(Some 1, IoError (OsError 92) ''ENOPROTOOPT'')]"
proof -
  let ?sv = "\<lambda>tcp. ready_server (tcp_config_accept tcp True toy_socket_config)
    :: (toy_socket \<times> nat, (toy_socket \<times> nat) io_result option, toy_socket \<times> nat, unit, unit) tls_server"
  note [simp] = tc_socket_def tc_simps ready_server_def tcp_config_accept_ops toy_socket_config_def requested_ops_def
    toy_tcp_def toy_no_keepalive_def keepalive_params_def keepalive_time_def keepalive_new_def
    socket_config_new_def socket_keepalive_def socket_nodelay_def
  obtain s where s: "tls_run toy_api toy_config (?sv toy_tcp) tc_socket (tls_start toy_api ()) = Some s"
      "0 < length (sy_conns (ts_sys s))" "ac_called (ts_accepts s ! 0) = Some ((80, False, []), 0)" "ac_polls (ts_accepts s ! 0) \<noteq> []"
    by simp
  obtain t where t: "tls_run toy_api toy_config (?sv toy_no_keepalive) tc_socket (tls_start toy_api ()) = Some t"
      "0 < length (sy_conns (ts_sys t))" "ac_called (ts_accepts t ! 0) = Some ((80, False, []), 0)" "ac_polls (ts_accepts t ! 0) \<noteq> []"
      "cn_remote (sy_conns (ts_sys t) ! 0) = 1"
    by simp
  from socket_options_before_service [OF tls_start_reachable [OF s(1)] s(2)]
    socket_options_before_service [OF tls_start_reachable [OF t(1)] t(2)] s t
  show ?thesis by (simp add: call_handler_def)
qed

text \<open>
  Acceptors stack: a connection that is served by a server with
  \<open>RustlsAcceptor::new(config).acceptor(LocalAddrAcceptor)\<close> was accepted on a stream whose
  local address could be read, its handshake was done on that very stream, and every use of
  its service answers as the user's service answers requests that carry both that address
  and what rustls says of the connection.
\<close>

theorem rustls_over_local_addr:
  assumes "ext_documented ext"
    and "tls_run api cfg (rustls_server ru sw conn acceptor) bs (tls_start api store) = Some s"
    and "\<forall>i fenv env r. TaConn i fenv env \<in> set bs \<and> re_inner fenv = Ready r \<longrightarrow>
      (\<exists>stream service. r = local_addr_accept tcp stream service)"
    and "i < length (sy_conns (ts_sys s))" and "ac_accepted (ts_accepts s ! i) = Some (tls, w)"
    and "svc_run (tls_service_ops ext (local_addr_ops ext ops)) xs w = (outs, w')"
  shows "\<exists>fenv env stream service a change server_config. TaConn i fenv env \<in> set bs \<and>
    re_inner fenv = Ready (local_addr_accept tcp stream service) \<and>
    tcp_local_addr tcp stream = Inr a \<and>
    (\<exists>poll \<in> set (ac_polls (ts_accepts s ! i)).
      re_handshake poll server_config stream (ra_handshake_timeout acceptor) = Ready (Inr (Inr tls))) \<and>
    svc_run ops (map (map_svc_op change) xs) service = (outs, las_inner (tsv_inner w')) \<and>
    (\<forall>req. ex_local_addr ext (change req) = Some (LocalAddr a) \<and>
      ex_tls_info ext (change req) = Some (rustls_tls_info conn tls))"
proof -
  from rustls_accepted_polls [OF tls_start_reachable [OF assms(2)] assms(4,5)] obtain p q stream inner where
      p: "p \<in> set (ac_polls (ts_accepts s ! i))" "q \<in> set (ac_polls (ts_accepts s ! i))"
      "re_inner p = Ready (Inr (stream, inner))"
      "re_handshake q (rustls_get_inner sw (ra_config acceptor) (re_store p)) stream (ra_handshake_timeout acceptor) =
        Ready (Inr (Inr tls))"
    and w: "w = tls_service_new inner (rustls_tls_info conn tls)" by blast
  have "i < length (ts_accepts s)"
    using tls_accepts.reach_inv2 [OF tls_start_reachable [OF assms(2)]] assms(4)
    by (auto simp: accepts_inv_def dest: list_all2_lengthD)
  from tls_run_polls [OF assms(2) this p(1)] obtain fenv env where
      fenv: "TaConn i fenv env \<in> set bs" "re_inner fenv = Ready (Inr (stream, inner))" using p(3) by fastforce
  with assms(3) obtain stream' service where acc: "local_addr_accept tcp stream' service = Inr (stream, inner)" by metis
  then obtain a where a: "tcp_local_addr tcp stream = Inr a" "stream' = stream"
    and inner: "inner = \<lparr>las_inner = service, las_local_addr = LocalAddr a\<rparr>"
    by (auto simp: local_addr_accept_def)
  from assms(6) have "svc_run (tls_service_ops ext (local_addr_ops ext ops)) xs
      (tls_service_new \<lparr>las_inner = service, las_local_addr = LocalAddr a\<rparr> (rustls_tls_info conn tls)) = (outs, w')"
    by (simp add: w inner)
  from tls_over_local_addr [OF assms(1) this] obtain change where
    "svc_run ops (map (map_svc_op change) xs) service = (outs, las_inner (tsv_inner w'))"
    "\<forall>req. ex_local_addr ext (change req) = Some (LocalAddr a) \<and>
      ex_tls_info ext (change req) = Some (rustls_tls_info conn tls)" by blast
  moreover have "re_inner fenv = Ready (local_addr_accept tcp stream service)" using fenv(2) acc a(2) by simp
  ultimately show ?thesis using a(1) p(2,4) fenv(1) by blast
qed

definition tc_local_addr ::
  "(nat, (toy_cfg, toy_socket, (nat, nat) local_addr_service, toy_cfg, toy_cfg list) rustls_env,
    (toy_cfg, nat) rustls_op) tls_action list" where
  "tc_local_addr = tc_connect @ replicate 3 (TaConn 0
     \<lparr>re_inner = Ready (local_addr_accept toy_tcp (80, False, []) (0 :: nat)), re_store = [],
      re_handshake = (\<lambda>cfg _ _. Ready (Inr (Inr cfg)))\<rparr> env_accepts)"

theorem rustls_over_local_addr_witness:
  "\<exists>s w. \<exists>change :: toy_request \<Rightarrow> toy_request. tls_run toy_api toy_config (rustls_server toy_rustls toy_swap toy_conn (rustls_acceptor_new \<lparr>rc_inner = 0\<rparr>))
       tc_local_addr (tls_start toy_api [([], [[2]])]) = Some s \<and>
     ac_accepted (ts_accepts s ! 0) = Some (([], [[2]]), w) \<and>
     ex_local_addr toy_ext (change (None, None)) = Some (LocalAddr 80) \<and>
     ex_tls_info toy_ext (change (None, None)) = Some (tls_info_new None (Some [2]) [])"
proof -
  let ?sv = "rustls_server toy_rustls toy_swap toy_conn (rustls_acceptor_new \<lparr>rc_inner = 0\<rparr>)"
  let ?start = "tls_start toy_api [([], [[2]])]"
  obtain s w where s: "tls_run toy_api toy_config ?sv tc_local_addr ?start = Some s"
      "0 < length (sy_conns (ts_sys s))" "ac_accepted (ts_accepts s ! 0) = Some (([], [[2]]), w)"
    by (simp add: tc_local_addr_def tc_simps local_addr_accept_def toy_tcp_def toy_swap_def)
  have local: "\<forall>i fenv env r. TaConn i fenv env \<in> set tc_local_addr \<and> re_inner fenv = Ready r \<longrightarrow>
      (\<exists>stream service. r = local_addr_accept toy_tcp stream service)"
    by (auto simp: tc_local_addr_def tc_connect_def replicate_numeral) blast
  obtain outs w' where use: "svc_run (tls_service_ops toy_ext (local_addr_ops toy_ext toy_service)) [] w = (outs, w')"
    by fastforce
  from rustls_over_local_addr [OF toy_ext_documented s(1) local s(2,3) use]
  obtain fenv env stream service a and change :: "toy_request \<Rightarrow> toy_request" where
      f: "TaConn 0 fenv env \<in> set tc_local_addr" "re_inner fenv = Ready (local_addr_accept toy_tcp stream service)"
    and a: "tcp_local_addr toy_tcp stream = Inr a" "ex_local_addr toy_ext (change (None, None)) = Some (LocalAddr a)"
      "ex_tls_info toy_ext (change (None, None)) = Some (rustls_tls_info toy_conn ([], [[2]]))"
    by blast
  from f have "local_addr_accept toy_tcp (80, False, []) 0 = local_addr_accept toy_tcp stream service"
    by (auto simp: tc_local_addr_def tc_connect_def replicate_numeral)
  with a(1) have "a = 80" by (cases stream) (auto simp: local_addr_accept_def toy_tcp_def)
  with a s show ?thesis by (auto simp: rustls_tls_info_def toy_conn_def)
qed

end
