(* ===== verification/TestHarness.thy ===== *)
theory TestHarness
  imports AcceptorServing
begin

text \<open>
  A harness in which the asynchronous tests of the repository run: the system with an acceptor
  (\<open>TlsSystem\<close>), a test task that is the only user of the handle, clients that connect and
  then stay silent, and a clock.

  The clock is that of Tokio's documented test time: it stands still as long as some task can
  make progress and then jumps to the next timer. What the tests say of durations is then a
  matter of the order of the timers, in every interleaving of the tasks between two jumps.
\<close>

section \<open>The harness\<close>

text \<open>
  What does not change in a test: the configuration of the server, the acceptor with its
  initial store, the results of binding, what the future of the acceptor is polled with when a
  connection is that old, and the timeout in it.
\<close>

record ('a, 'n, 'f, 'fe, 'out, 'h, 'op) world =
  wd_api :: "'n notify_api"
  wd_cfg :: conn_config
  wd_server :: "('fe, 'f, 'out, 'h, 'op) tls_server"
  wd_store :: 'h
  wd_bind :: "unit io_result"
  wd_addr :: "'a io_result"
  wd_fenv :: "duration \<Rightarrow> 'fe"
  wd_accept_timeout :: "duration option"

text \<open>
  A test is a list of operations: \<open>shutdown\<close> on the handle; \<open>TcpStream::connect\<close>; \<open>sleep\<close>;
  awaiting a condition, without and with \<open>timeout(..).await.expect(..)\<close>; \<open>assert!\<close> (also as
  \<open>unwrap\<close>); and a loop that tests a condition so many times, sleeping in between.
\<close>

datatype ('a, 'n) test_op =
    TestShutdown
  | TestConnect 'a
  | TestSleep duration
  | TestAwait "('a, 'n) sys \<Rightarrow> bool"
  | TestTimeout duration "('a, 'n) sys \<Rightarrow> bool"
  | TestAssert "('a, 'n) sys \<Rightarrow> bool"
  | TestPoll nat duration "('a, 'n) sys \<Rightarrow> bool"

text \<open>
  \<open>hn_since\<close>: when a connection entered the phase it is in, which is when the timers of that
  phase started; \<open>hn_backlog\<close>: the connections the listener has not handed out yet;
  \<open>hn_made\<close>: all that were made; \<open>hn_timer\<close>: the deadline of the operation of the test that is
  being awaited, \<open>hn_tries\<close> the iterations of its loop.
\<close>

record ('a, 'n, 'f, 'fe, 'out, 'h) harness =
  hn_sys :: "('a, 'n, 'f, 'fe, 'out, 'h) tls_sys"
  hn_now :: duration
  hn_since :: "duration list"
  hn_backlog :: "'a list"
  hn_made :: "'a list"
  hn_script :: "('a, 'n) test_op list"
  hn_timer :: "duration option"
  hn_tries :: nat
  hn_failed :: bool

abbreviation hn_state :: "('a, 'n, 'f, 'fe, 'out, 'h) harness \<Rightarrow> ('a, 'n) sys" where
  "hn_state s \<equiv> ts_sys (hn_sys s)"

definition harness_start ::
  "('a, 'n, 'f, 'fe, 'out, 'h, 'op) world \<Rightarrow> ('a, 'n) test_op list \<Rightarrow> ('a, 'n, 'f, 'fe, 'out, 'h) harness"
where
  "harness_start w ops = \<lparr>hn_sys = tls_start (wd_api w) (wd_store w), hn_now = 0, hn_since = [],
     hn_backlog = [], hn_made = [], hn_script = ops, hn_timer = None, hn_tries = 0, hn_failed = False\<rparr>"

subsection \<open>The test task\<close>

definition test_next :: "('a, 'n) test_op list \<Rightarrow> ('a, 'n, 'f, 'fe, 'out, 'h) harness \<Rightarrow>
   ('a, 'n, 'f, 'fe, 'out, 'h) harness" where
  "test_next ops s = s\<lparr>hn_script := ops, hn_timer := None, hn_tries := 0\<rparr>"

definition test_timer :: "duration \<Rightarrow> ('a, 'n, 'f, 'fe, 'out, 'h) harness \<Rightarrow>
   ('a, 'n, 'f, 'fe, 'out, 'h) harness \<Rightarrow> ('a, 'n, 'f, 'fe, 'out, 'h) harness" where
  "test_timer d elapsed s =
     (case hn_timer s of
        None \<Rightarrow> s\<lparr>hn_timer := Some (hn_now s + d)\<rparr>
      | Some t \<Rightarrow> if t \<le> hn_now s then elapsed else s)"

fun test_step :: "('a, 'n, 'f, 'fe, 'out, 'h, 'op) world \<Rightarrow> ('a, 'n, 'f, 'fe, 'out, 'h) harness \<Rightarrow>
   ('a, 'n, 'f, 'fe, 'out, 'h) harness" where
  "test_step w s =
     (case hn_script s of
        [] \<Rightarrow> s
      | TestShutdown # ops \<Rightarrow>
          (case tls_sys_step (wd_api w) (wd_cfg w) (wd_server w) (TaSys ActShutdown) (hn_sys s) of
             None \<Rightarrow> s | Some t \<Rightarrow> test_next ops (s\<lparr>hn_sys := t\<rparr>))
      | TestConnect a # ops \<Rightarrow>
          test_next ops (s\<lparr>hn_backlog := hn_backlog s @ [a], hn_made := hn_made s @ [a]\<rparr>)
      | TestSleep d # ops \<Rightarrow> test_timer d (test_next ops s) s
      | TestAwait P # ops \<Rightarrow> if P (hn_state s) then test_next ops s else s
      | TestTimeout d P # ops \<Rightarrow>
          if P (hn_state s) then test_next ops s else test_timer d (s\<lparr>hn_failed := True\<rparr>) s
      | TestAssert P # ops \<Rightarrow> if P (hn_state s) then test_next ops s else s\<lparr>hn_failed := True\<rparr>
      | TestPoll n d P # ops \<Rightarrow>
          if hn_timer s = None \<and> (n \<le> hn_tries s \<or> P (hn_state s)) then test_next ops s
          else test_timer d (s\<lparr>hn_timer := None, hn_tries := Suc (hn_tries s)\<rparr>) s)"

subsection \<open>The environment of the server\<close>

text \<open>A listener whose connections are those of a backlog, and a make service that is ready.\<close>

definition backlog_env :: "unit io_result \<Rightarrow> 'a io_result \<Rightarrow> 'a list \<Rightarrow> 'a serve_env" where
  "backlog_env bind addr backlog = \<lparr>se_bind = Ready bind, se_local_addr = addr,
     se_accept = (case backlog of [] \<Rightarrow> Pending | a # _ \<Rightarrow> Ready (Inr ((), a))), se_backoff = False,
     se_ready = Ready (Inr ()), se_make = Ready (Inr ()), se_sleep = False\<rparr>"

definition serve_world :: "('a, 'n, 'f, 'fe, 'out, 'h, 'op) world \<Rightarrow> ('a, 'n, 'f, 'fe, 'out, 'h) harness \<Rightarrow>
   'a serve_env" where
  "serve_world w s = backlog_env (wd_bind w) (wd_addr w) (hn_backlog s)"

declare backlog_env_def [simp]

definition conn_age :: "('a, 'n, 'f, 'fe, 'out, 'h) harness \<Rightarrow> nat \<Rightarrow> duration" where
  "conn_age s i = hn_now s - hn_since s ! i"

definition request_overdue :: "('a, 'n, 'f, 'fe, 'out, 'h, 'op) world \<Rightarrow>
   ('a, 'n, 'f, 'fe, 'out, 'h) harness \<Rightarrow> nat \<Rightarrow> bool" where
  "request_overdue w s i =
     (case cc_first_request_timeout (wd_cfg w) of None \<Rightarrow> False | Some d \<Rightarrow> d \<le> conn_age s i)"

text \<open>A silent client: no request, and Hyper waits for one.\<close>

definition silent_env :: "bool \<Rightarrow> conn_env" where
  "silent_env overdue = \<lparr>ce_accept = Pending, ce_sleep = overdue, ce_rx = Pending, ce_serve = False\<rparr>"

definition conn_action :: "('a, 'n, 'f, 'fe, 'out, 'h, 'op) world \<Rightarrow> ('a, 'n, 'f, 'fe, 'out, 'h) harness \<Rightarrow>
   nat \<Rightarrow> ('a, 'fe, 'op) tls_action" where
  "conn_action w s i = TaConn i (wd_fenv w (conn_age s i)) (silent_env (request_overdue w s i))"

subsection \<open>When the runtime is idle\<close>

fun serve_blocked :: "('a, 'n) handle_inner \<Rightarrow> 'a list \<Rightarrow> 'a serve_pc \<Rightarrow> bool" where
  "serve_blocked h backlog (SvReturned r) = True"
| "serve_blocked h backlog (SvOuter (LpAccept AfStream)) =
     (backlog = [] \<and> \<not> is_notified (hi_shutdown h) \<and> \<not> is_notified (hi_graceful h))"
| "serve_blocked h backlog (SvLoop (LpAccept AfStream)) =
     (backlog = [] \<and> \<not> is_notified (hi_shutdown h) \<and> \<not> is_notified (hi_graceful h))"
| "serve_blocked h backlog (SvLoop (LpGraceful AfStream)) =
     (backlog = [] \<and> \<not> is_notified (hi_shutdown h) \<and> \<not> is_notified (hi_graceful h))"
| "serve_blocked h backlog pc = False"

definition acceptor_pending :: "('a, 'n, 'f, 'fe, 'out, 'h, 'op) world \<Rightarrow>
   ('a, 'n, 'f, 'fe, 'out, 'h) harness \<Rightarrow> nat \<Rightarrow> bool" where
  "acceptor_pending w s i =
     (case fst (accept_poll (wd_server w) (ts_store (hn_sys s)) (wd_fenv w (conn_age s i)) (ts_accepts (hn_sys s) ! i)) of
        Returns Pending \<Rightarrow> True | _ \<Rightarrow> False)"

definition conn_blocked :: "('a, 'n, 'f, 'fe, 'out, 'h, 'op) world \<Rightarrow>
   ('a, 'n, 'f, 'fe, 'out, 'h) harness \<Rightarrow> nat \<Rightarrow> bool" where
  "conn_blocked w s i =
     (let h = sy_handle (hn_state s); c = sy_conns (hn_state s) ! i;
          quiet = (\<not> is_notified (hi_shutdown h) \<and> \<not> is_notified (hi_graceful h))
      in case conn_phase c of
           PhAccept \<Rightarrow> quiet \<and> acceptor_pending w s i
         | PhFirst \<Rightarrow> quiet \<and> \<not> request_overdue w s i
         | PhMain \<Rightarrow> quiet
         | PhDrain \<Rightarrow> \<not> is_notified (hi_shutdown h)
         | PhDrop \<Rightarrow> conn_done c)"

definition timer_running :: "('a, 'n, 'f, 'fe, 'out, 'h) harness \<Rightarrow> bool" where
  "timer_running s = (case hn_timer s of None \<Rightarrow> False | Some t \<Rightarrow> hn_now s < t)"

definition test_blocked :: "('a, 'n, 'f, 'fe, 'out, 'h) harness \<Rightarrow> bool" where
  "test_blocked s \<longleftrightarrow> hn_failed s \<or>
     (case hn_script s of
        [] \<Rightarrow> True
      | TestSleep d # _ \<Rightarrow> timer_running s
      | TestAwait P # _ \<Rightarrow> \<not> P (hn_state s)
      | TestTimeout d P # _ \<Rightarrow> \<not> P (hn_state s) \<and> timer_running s
      | TestPoll n d P # _ \<Rightarrow> timer_running s
      | _ \<Rightarrow> False)"

definition idle :: "('a, 'n, 'f, 'fe, 'out, 'h, 'op) world \<Rightarrow> ('a, 'n, 'f, 'fe, 'out, 'h) harness \<Rightarrow> bool" where
  "idle w s \<longleftrightarrow> serve_blocked (sy_handle (hn_state s)) (hn_backlog s) (sy_serve (hn_state s)) \<and>
     list_all (conn_blocked w s) [0..<length (sy_conns (hn_state s))] \<and> test_blocked s"

definition conn_deadline :: "('a, 'n, 'f, 'fe, 'out, 'h, 'op) world \<Rightarrow>
   ('a, 'n, 'f, 'fe, 'out, 'h) harness \<Rightarrow> nat \<Rightarrow> duration option" where
  "conn_deadline w s i =
     map_option (\<lambda>d. hn_since s ! i + d)
       (case conn_phase (sy_conns (hn_state s) ! i) of
          PhAccept \<Rightarrow> wd_accept_timeout w
        | PhFirst \<Rightarrow> cc_first_request_timeout (wd_cfg w)
        | _ \<Rightarrow> None)"

definition deadlines :: "('a, 'n, 'f, 'fe, 'out, 'h, 'op) world \<Rightarrow> ('a, 'n, 'f, 'fe, 'out, 'h) harness \<Rightarrow>
   duration list" where
  "deadlines w s = filter (\<lambda>t. hn_now s < t)
     (List.map_filter (\<lambda>x. x) (hn_timer s # map (conn_deadline w s) [0..<length (sy_conns (hn_state s))]))"

subsection \<open>Steps\<close>

datatype harness_action = HnServe | HnConn nat | HnTest | HnTick

fun harness_step ::
  "('a, 'n, 'f, 'fe, 'out, 'h, 'op) world \<Rightarrow> harness_action \<Rightarrow> ('a, 'n, 'f, 'fe, 'out, 'h) harness \<Rightarrow>
   ('a, 'n, 'f, 'fe, 'out, 'h) harness option"
where
  "harness_step w HnServe s =
     (case tls_sys_step (wd_api w) (wd_cfg w) (wd_server w) (TaSys (ActServe (serve_world w s))) (hn_sys s) of
        None \<Rightarrow> None
      | Some t \<Rightarrow> Some (s\<lparr>hn_sys := t,
          hn_since := hn_since s @ replicate (length (sy_conns (ts_sys t)) - length (sy_conns (hn_state s))) (hn_now s),
          hn_backlog := (if sy_serve (hn_state s) = SvLoop (LpAccept AfStream) then tl (hn_backlog s) else hn_backlog s)\<rparr>))"
| "harness_step w (HnConn i) s =
     (case tls_sys_step (wd_api w) (wd_cfg w) (wd_server w) (conn_action w s i) (hn_sys s) of
        None \<Rightarrow> None
      | Some t \<Rightarrow> Some (s\<lparr>hn_sys := t,
          hn_since := (if conn_phase (sy_conns (ts_sys t) ! i) = conn_phase (sy_conns (hn_state s) ! i)
                       then hn_since s else (hn_since s)[i := hn_now s])\<rparr>))"
| "harness_step w HnTest s = Some (test_step w s)"
| "harness_step w HnTick s =
     (if idle w s \<and> deadlines w s \<noteq> [] then Some (s\<lparr>hn_now := min_list (deadlines w s)\<rparr>) else None)"

inductive harness_moves ::
  "('a, 'n, 'f, 'fe, 'out, 'h, 'op) world \<Rightarrow> ('a, 'n, 'f, 'fe, 'out, 'h) harness \<Rightarrow>
   ('a, 'n, 'f, 'fe, 'out, 'h) harness \<Rightarrow> bool" for w
where
  harness_moves: "harness_step w b s = Some t \<Longrightarrow> harness_moves w s t"

inductive_simps harness_moves_iff: "harness_moves w s t"

abbreviation harness_reachable ::
  "('a, 'n, 'f, 'fe, 'out, 'h, 'op) world \<Rightarrow> ('a, 'n) test_op list \<Rightarrow>
   ('a, 'n, 'f, 'fe, 'out, 'h) harness \<Rightarrow> bool" where
  "harness_reachable w ops \<equiv> reach (\<lambda>s. s = harness_start w ops) (harness_moves w)"

fun harness_run ::
  "('a, 'n, 'f, 'fe, 'out, 'h, 'op) world \<Rightarrow> harness_action list \<Rightarrow> ('a, 'n, 'f, 'fe, 'out, 'h) harness \<Rightarrow>
   ('a, 'n, 'f, 'fe, 'out, 'h) harness option"
where
  "harness_run w [] s = Some s"
| "harness_run w (b # bs) s =
     (case harness_step w b s of None \<Rightarrow> None | Some t \<Rightarrow> harness_run w bs t)"

lemma harness_run_reachable:
  "harness_reachable w ops s \<Longrightarrow> harness_run w bs s = Some t \<Longrightarrow> harness_reachable w ops t"
proof (induction bs arbitrary: s)
  case (Cons b bs)
  from Cons.prems(2) obtain u where "harness_step w b s = Some u" and "harness_run w bs u = Some t"
    by (auto split: option.splits)
  then show ?case using Cons.IH [OF reach_step [OF Cons.prems(1) harness_moves]] by blast
qed simp

lemma harness_start_reachable:
  "harness_run w bs (harness_start w ops) = Some t \<Longrightarrow> harness_reachable w ops t"
  by (rule harness_run_reachable [OF reach_start]) simp_all

section \<open>The harness runs the system\<close>

lemma test_next_simps [simp]:
  "hn_sys (test_next ops s) = hn_sys s" "hn_now (test_next ops s) = hn_now s"
  "hn_since (test_next ops s) = hn_since s" "hn_backlog (test_next ops s) = hn_backlog s"
  "hn_made (test_next ops s) = hn_made s" "hn_script (test_next ops s) = ops"
  "hn_timer (test_next ops s) = None" "hn_tries (test_next ops s) = 0"
  "hn_failed (test_next ops s) = hn_failed s"
  by (simp_all add: test_next_def)

lemma test_timer_sys:
  "hn_sys e = hn_sys s \<Longrightarrow> hn_sys (test_timer d e s) = hn_sys s"
  by (auto simp: test_timer_def split: option.split)

lemma test_step_sys:
  "hn_sys (test_step w s) = hn_sys s \<or>
   tls_sys_step (wd_api w) (wd_cfg w) (wd_server w) (TaSys ActShutdown) (hn_sys s) = Some (hn_sys (test_step w s))"
  by (auto simp: test_timer_sys split: list.split test_op.split option.split)

interpretation test_harness: simulation "\<lambda>t. t = tls_start (wd_api w) (wd_store w)"
    "tls_moves (wd_api w) (wd_cfg w) (wd_server w)" "\<lambda>s. s = harness_start w ops" "harness_moves w" hn_sys
  for w :: "('a, 'n, 'f, 'fe, 'out, 'h, 'op) world" and ops
proof
  show "hn_sys s = tls_start (wd_api w) (wd_store w)" if "s = harness_start w ops"
    for s :: "('a, 'n, 'f, 'fe, 'out, 'h) harness"
    using that by (simp add: harness_start_def)
  show "tls_moves (wd_api w) (wd_cfg w) (wd_server w) (hn_sys s) (hn_sys t) \<or> hn_sys t = hn_sys s"
    if "harness_moves w s t" for s t :: "('a, 'n, 'f, 'fe, 'out, 'h) harness"
  proof -
    from that obtain b where step: "harness_step w b s = Some t" by (auto simp: harness_moves_iff)
    then show ?thesis
    proof (cases b)
      case HnTest
      with step test_step_sys [of w s] show ?thesis by (auto simp: tls_moves_iff simp del: test_step.simps tls_sys_step.simps)
    qed (auto simp: tls_moves_iff simp del: tls_sys_step.simps split: option.splits if_splits)
  qed
qed


section \<open>A server that listens\<close>

text \<open>
  What holds in every test in which binding succeeds: \<open>serve\<close> publishes its address, stays in
  its loop until shutdown is signalled and returns \<open>Ok\<close> then, and the connections that were
  made are those it has spawned a task for, the one it holds, and the backlog.
\<close>

fun loop_steady :: "'a loop_pc \<Rightarrow> bool" where
  "loop_steady (LpAccept w) = (w = AfStream)"
| "loop_steady (LpGraceful w) = (w = AfStream)"
| "loop_steady l = True"

fun serve_steady :: "'a \<Rightarrow> ('a, 'n) handle_inner \<Rightarrow> 'a serve_pc \<Rightarrow> bool" where
  "serve_steady a h SvBind = (\<not> is_notified (hi_addr_notify h))"
| "serve_steady a h (SvSetAddr x k) = (x = Some a \<and> k = Listening \<and> \<not> is_notified (hi_addr_notify h))"
| "serve_steady a h (SvNotifyAddr k) = (k = Listening \<and> hi_addr h = Some a \<and> \<not> is_notified (hi_addr_notify h))"
| "serve_steady a h (SvOuter l) = (loop_steady l \<and> hi_addr h = Some a \<and> is_notified (hi_addr_notify h))"
| "serve_steady a h (SvLoop l) = (loop_steady l \<and> hi_addr h = Some a \<and> is_notified (hi_addr_notify h))"
| "serve_steady a h (SvReturned r) =
    (r = Inr () \<and> is_notified (hi_shutdown h) \<and> hi_addr h = Some a \<and> is_notified (hi_addr_notify h))"
| "serve_steady a h pc = False"

fun loop_holds :: "'a loop_pc \<Rightarrow> 'a list" where
  "loop_holds (LpPollReady a) = [a]"
| "loop_holds (LpMake a) = [a]"
| "loop_holds (LpSpawn a) = [a]"
| "loop_holds l = []"

fun serve_holds :: "'a serve_pc \<Rightarrow> 'a list" where
  "serve_holds (SvOuter l) = loop_holds l"
| "serve_holds (SvLoop l) = loop_holds l"
| "serve_holds pc = []"

fun serve_over :: "'a serve_pc \<Rightarrow> bool" where
  "serve_over (SvReturned r) = True"
| "serve_over pc = False"

definition steady :: "'a \<Rightarrow> ('a, 'n, 'f, 'fe, 'out, 'h) harness \<Rightarrow> bool" where
  "steady a s \<longleftrightarrow>
     (let y = hn_state s
      in length (hn_since s) = length (sy_conns y) \<and> length (ts_accepts (hn_sys s)) = length (sy_conns y) \<and>
         \<not> is_notified (hi_graceful (sy_handle y)) \<and> serve_steady a (sy_handle y) (sy_serve y) \<and>
         (\<exists>rest. hn_made s = map cn_remote (sy_conns y) @ rest) \<and>
         (\<not> serve_over (sy_serve y) \<longrightarrow>
            hn_made s = map cn_remote (sy_conns y) @ serve_holds (sy_serve y) @ hn_backlog s))"

text \<open>A poll of a task leaves the others, \<open>serve\<close> and the signals alone.\<close>

definition same_signals :: "('a, 'n) handle_inner \<Rightarrow> ('a, 'n) handle_inner \<Rightarrow> bool" where
  "same_signals h h' \<longleftrightarrow> hi_shutdown h' = hi_shutdown h \<and> hi_graceful h' = hi_graceful h \<and>
     hi_addr h' = hi_addr h \<and> hi_addr_notify h' = hi_addr_notify h"

lemma serve_steady_signals: "same_signals h h' \<Longrightarrow> serve_steady a h' pc = serve_steady a h pc"
  by (cases pc) (simp_all add: same_signals_def)

lemma tls_conn_poll:
  assumes "tls_sys_step api cfg sv (TaConn i fenv env) s = Some t"
  shows "\<exists>h c a. tls_conn_step api cfg sv (ts_store s) fenv env (sy_handle (ts_sys s))
      (sy_conns (ts_sys s) ! i) (ts_accepts s ! i) = (h, c, a) \<and>
    i < length (sy_conns (ts_sys s)) \<and> cn_remote c = cn_remote (sy_conns (ts_sys s) ! i) \<and>
    same_signals (sy_handle (ts_sys s)) h \<and>
    t = s\<lparr>ts_sys := (ts_sys s)\<lparr>sy_handle := h, sy_conns := (sy_conns (ts_sys s))[i := c]\<rparr>,
          ts_accepts := (ts_accepts s)[i := a]\<rparr>"
proof -
  obtain h c a where step: "tls_conn_step api cfg sv (ts_store s) fenv env (sy_handle (ts_sys s))
      (sy_conns (ts_sys s) ! i) (ts_accepts s ! i) = (h, c, a)" by (metis prod_cases3)
  have "cn_remote c = cn_remote (sy_conns (ts_sys s) ! i) \<and> same_signals (sy_handle (ts_sys s)) h"
  proof (cases "cn_pc (sy_conns (ts_sys s) ! i) = AccAccept")
    case True
    with step show ?thesis
      by (auto simp: tls_conn_step_accept same_signals_def conn_step_signals split: panicking.splits)
  next
    case False
    with step show ?thesis by (auto simp: tls_conn_step_other same_signals_def conn_step_signals)
  qed
  with step assms show ?thesis by (auto simp: Let_def split: if_splits)
qed

lemma map_remote_update:
  "cn_remote c = cn_remote (cs ! i) \<Longrightarrow> map cn_remote (cs[i := c]) = map cn_remote cs"
  by (metis list_update_id map_update)

lemma harness_conn_step:
  assumes "harness_step w (HnConn i) s = Some t"
  shows "\<exists>h c a. tls_conn_step (wd_api w) (wd_cfg w) (wd_server w) (ts_store (hn_sys s)) (wd_fenv w (conn_age s i))
        (silent_env (request_overdue w s i)) (sy_handle (hn_state s)) (sy_conns (hn_state s) ! i)
        (ts_accepts (hn_sys s) ! i) = (h, c, a) \<and>
    i < length (sy_conns (hn_state s)) \<and> cn_remote c = cn_remote (sy_conns (hn_state s) ! i) \<and>
    same_signals (sy_handle (hn_state s)) h \<and>
    t = s\<lparr>hn_sys := (hn_sys s)\<lparr>ts_sys := (hn_state s)\<lparr>sy_handle := h, sy_conns := (sy_conns (hn_state s))[i := c]\<rparr>,
            ts_accepts := (ts_accepts (hn_sys s))[i := a]\<rparr>,
          hn_since := (if conn_phase c = conn_phase (sy_conns (hn_state s) ! i) then hn_since s
                       else (hn_since s)[i := hn_now s])\<rparr>"
proof -
  from assms obtain u where u: "tls_sys_step (wd_api w) (wd_cfg w) (wd_server w) (conn_action w s i) (hn_sys s) = Some u"
    and t: "t = s\<lparr>hn_sys := u, hn_since := (if conn_phase (sy_conns (ts_sys u) ! i) = conn_phase (sy_conns (hn_state s) ! i)
      then hn_since s else (hn_since s)[i := hn_now s])\<rparr>" by (auto split: option.splits)
  from tls_conn_poll [OF u [unfolded conn_action_def]] t show ?thesis by fastforce
qed

lemma steady_conn:
  assumes "steady a s" and "harness_step w (HnConn i) s = Some t"
  shows "steady a t"
proof -
  from harness_conn_step [OF assms(2)] obtain h c f where
      remote: "cn_remote c = cn_remote (sy_conns (hn_state s) ! i)" and h: "same_signals (sy_handle (hn_state s)) h"
    and t: "t = s\<lparr>hn_sys := (hn_sys s)\<lparr>ts_sys := (hn_state s)\<lparr>sy_handle := h, sy_conns := (sy_conns (hn_state s))[i := c]\<rparr>,
            ts_accepts := (ts_accepts (hn_sys s))[i := f]\<rparr>,
          hn_since := (if conn_phase c = conn_phase (sy_conns (hn_state s) ! i) then hn_since s
                       else (hn_since s)[i := hn_now s])\<rparr>" by blast
  from h have "hi_graceful h = hi_graceful (sy_handle (hn_state s))" by (simp add: same_signals_def)
  with assms(1) serve_steady_signals [OF h] map_remote_update [OF remote] show ?thesis
    by (simp add: steady_def Let_def t)
qed

lemma serve_step_steady:
  assumes "serve_steady a h pc" and "\<not> is_notified (hi_graceful h)"
    and "out = serve_step api cfg (backlog_env (Inr ()) (Inr a) queued) h pc"
    and "backlog = (if pc = SvLoop (LpAccept AfStream) then tl queued else queued)"
  shows "serve_steady a (so_handle out) (so_pc out) \<and>
    (serve_over pc \<longrightarrow> so_spawn out = [] \<and> serve_over (so_pc out)) \<and>
    (\<not> serve_over (so_pc out) \<longrightarrow>
       map cn_remote (so_spawn out) @ serve_holds (so_pc out) @ backlog = serve_holds pc @ queued) \<and>
    (serve_over (so_pc out) \<longrightarrow> so_spawn out = [])"
proof (cases pc)
  case (SvOuter l)
  with assms show ?thesis by (cases "is_notified (hi_shutdown h)") (simp_all add: wait_shutdown_def)
next
  case (SvLoop l)
  with assms show ?thesis
    by (cases l; cases "queued")
      (simp_all add: wait_graceful_shutdown_def handle_simps conn_spawn_def)
qed (use assms in \<open>auto simp: handle_simps\<close>)

lemma harness_serve_step:
  assumes "harness_step w HnServe s = Some t"
  defines "out \<equiv> serve_step (wd_api w) (wd_cfg w) (serve_world w s) (sy_handle (hn_state s)) (sy_serve (hn_state s))"
  shows "sy_handle (hn_state t) = so_handle out" "sy_serve (hn_state t) = so_pc out"
    "sy_conns (hn_state t) = sy_conns (hn_state s) @ so_spawn out"
    "sy_log (hn_state t) = sy_log (hn_state s) @ so_log out"
    "ts_accepts (hn_sys t) = ts_accepts (hn_sys s) @ replicate (length (so_spawn out)) (accepting_new (wd_server w))"
    "ts_store (hn_sys t) = ts_store (hn_sys s)"
    "hn_since t = hn_since s @ replicate (length (so_spawn out)) (hn_now s)"
    "hn_backlog t = (if sy_serve (hn_state s) = SvLoop (LpAccept AfStream) then tl (hn_backlog s) else hn_backlog s)"
    "hn_now t = hn_now s" "hn_made t = hn_made s" "hn_script t = hn_script s" "hn_timer t = hn_timer s"
    "hn_failed t = hn_failed s"
  using assms(1) by (auto simp: out_def Let_def)

lemma steady_serve:
  assumes "steady a s" and "wd_bind w = Inr ()" and "wd_addr w = Inr a" and "harness_step w HnServe s = Some t"
  shows "steady a t"
proof -
  define out where "out = serve_step (wd_api w) (wd_cfg w) (serve_world w s) (sy_handle (hn_state s)) (sy_serve (hn_state s))"
  from assms(1) have st: "serve_steady a (sy_handle (hn_state s)) (sy_serve (hn_state s))"
    "\<not> is_notified (hi_graceful (sy_handle (hn_state s)))" by (simp_all add: steady_def Let_def)
  note out = serve_step_steady [OF st out_def [unfolded serve_world_def assms(2,3)] refl]
  note t = harness_serve_step [OF assms(4), folded out_def]
  have all: "hn_made t = map cn_remote (sy_conns (hn_state t)) @ serve_holds (sy_serve (hn_state t)) @ hn_backlog t"
    if "\<not> serve_over (so_pc out)"
    using assms(1) out that by (auto simp: steady_def Let_def t)
  have "\<exists>rest. hn_made t = map cn_remote (sy_conns (hn_state t)) @ rest"
  proof (cases "serve_over (so_pc out)")
    case True
    with assms(1) out show ?thesis by (auto simp: steady_def Let_def t)
  qed (use all in blast)
  moreover have "\<not> is_notified (hi_graceful (sy_handle (hn_state t)))"
    using st(2) by (simp add: out_def serve_step_signals t)
  moreover have "length (hn_since t) = length (sy_conns (hn_state t))"
    using assms(1) by (simp add: steady_def Let_def t)
  moreover have "length (ts_accepts (hn_sys t)) = length (sy_conns (hn_state t))"
    using assms(1) by (simp add: steady_def Let_def t)
  ultimately show ?thesis using all out unfolding steady_def Let_def t(1,2) by blast
qed

lemma serve_steady_shutdown: "serve_steady a h pc \<Longrightarrow> serve_steady a (handle_shutdown api h) pc"
  by (cases pc) (simp_all add: handle_simps)

lemma steady_test: "steady a s \<Longrightarrow> steady a (test_step w s)"
  by (auto simp: steady_def Let_def test_timer_def handle_simps serve_steady_shutdown
      split: list.split test_op.split option.split)

lemma steady_step:
  assumes "steady a s" and "wd_bind w = Inr ()" and "wd_addr w = Inr a" and "harness_step w b s = Some t"
  shows "steady a t"
proof (cases b)
  case HnTick
  with assms show ?thesis by (auto simp: steady_def split: if_splits)
qed (use assms steady_serve steady_conn steady_test in \<open>auto simp del: test_step.simps\<close>)

lemma steady_start: "steady a (harness_start w ops)"
  by (simp add: steady_def harness_start_def tls_start_def sys_start_def handle_simps)

section \<open>What an idle runtime means\<close>

lemma idle_all_accepted:
  assumes "steady a s" and "idle w s" and "\<not> is_notified (hi_shutdown (sy_handle (hn_state s)))"
  shows "length (sy_conns (hn_state s)) = length (hn_made s)"
proof -
  have "serve_blocked (sy_handle (hn_state s)) (hn_backlog s) (sy_serve (hn_state s))"
    using assms(2) by (simp add: idle_def)
  with assms(1,3) show ?thesis
    by (cases "(sy_handle (hn_state s), hn_backlog s, sy_serve (hn_state s))" rule: serve_blocked.cases)
      (auto simp: steady_def Let_def)
qed

lemma idle_listening:
  assumes "steady a s" and "idle w s"
  shows "is_notified (hi_addr_notify (sy_handle (hn_state s)))" "hi_addr (sy_handle (hn_state s)) = Some a"
proof -
  have "serve_blocked (sy_handle (hn_state s)) (hn_backlog s) (sy_serve (hn_state s))"
    using assms(2) by (simp add: idle_def)
  with assms(1) show "is_notified (hi_addr_notify (sy_handle (hn_state s)))"
      "hi_addr (sy_handle (hn_state s)) = Some a"
    by (cases "(sy_handle (hn_state s), hn_backlog s, sy_serve (hn_state s))" rule: serve_blocked.cases;
        simp add: steady_def Let_def)+
qed

lemma idle_blocked: "idle w s \<Longrightarrow> i < length (sy_conns (hn_state s)) \<Longrightarrow> conn_blocked w s i"
  by (simp add: idle_def list_all_iff)

lemma idle_shut_down:
  assumes "steady a s" and "idle w s" and "is_notified (hi_shutdown (sy_handle (hn_state s)))"
  shows "sy_serve (hn_state s) = SvReturned (Inr ())" and "\<forall>c \<in> set (sy_conns (hn_state s)). conn_done c"
proof -
  have "serve_blocked (sy_handle (hn_state s)) (hn_backlog s) (sy_serve (hn_state s))"
    using assms(2) by (simp add: idle_def)
  with assms(1,3) show "sy_serve (hn_state s) = SvReturned (Inr ())"
    by (cases "(sy_handle (hn_state s), hn_backlog s, sy_serve (hn_state s))" rule: serve_blocked.cases)
      (auto simp: steady_def Let_def)
  have "conn_done (sy_conns (hn_state s) ! i)" if "i < length (sy_conns (hn_state s))" for i
    using idle_blocked [OF assms(2) that] assms(3) by (auto simp: conn_blocked_def Let_def split: phase.splits)
  then show "\<forall>c \<in> set (sy_conns (hn_state s)). conn_done c" by (auto simp: in_set_conv_nth)
qed

lemma tick:
  assumes "harness_step w HnTick s = Some t"
  shows "idle w s" and "t = s\<lparr>hn_now := hn_now t\<rparr>" and "hn_now s < hn_now t"
    and "hn_timer s = Some x \<Longrightarrow> hn_now s < x \<Longrightarrow> hn_now t \<le> x"
    and "i < length (sy_conns (hn_state s)) \<Longrightarrow> conn_deadline w s i = Some x \<Longrightarrow> hn_now s < x \<Longrightarrow> hn_now t \<le> x"
proof -
  from assms have i: "idle w s" and d: "deadlines w s \<noteq> []" and t: "t = s\<lparr>hn_now := min_list (deadlines w s)\<rparr>"
    by (auto split: if_splits)
  have m: "hn_now t = Min (set (deadlines w s))" using d t by (simp add: min_list_Min)
  then have "hn_now t \<in> set (deadlines w s)" using d Min_in [of "set (deadlines w s)"] by simp
  then show "hn_now s < hn_now t" by (simp add: deadlines_def)
  show "idle w s" by (rule i)
  show "t = s\<lparr>hn_now := hn_now t\<rparr>" using t by simp
  show "hn_now t \<le> x" if "hn_timer s = Some x" "hn_now s < x"
    unfolding m by (rule Min_le) (use that in \<open>auto simp: deadlines_def map_filter_simps\<close>)
  show "hn_now t \<le> x" if "i < length (sy_conns (hn_state s))" "conn_deadline w s i = Some x" "hn_now s < x"
  proof -
    have "x \<in> set (List.map_filter (\<lambda>x. x) (map (conn_deadline w s) [0..<length (sy_conns (hn_state s))]))"
      using that by (force simp: List.map_filter_def)
    then show ?thesis unfolding m using that(3)
      by (intro Min_le) (auto simp: deadlines_def map_filter_simps split: option.split)
  qed
qed


lemma no_tick: "harness_step w HnTick s = Some t \<Longrightarrow> test_blocked s \<and> deadlines w s \<noteq> []"
  by (auto simp: idle_def split: if_splits)

text \<open>While the server is steady, only the user gives signals.\<close>

lemma serve_step_shutdown:
  "serve_steady a h pc \<Longrightarrow> hi_shutdown (so_handle (serve_step api cfg env h pc)) = hi_shutdown h"
proof (cases pc)
  case (SvLoop l)
  with loop_step_spawn [of cfg env h l] show ?thesis by (auto simp: handle_simps)
qed (auto simp: handle_simps split: serve_splits)

text \<open>For evaluating runs.\<close>

lemmas harness_run_simps =
  run_simps handle_simps tls_start_def accepting_new_def accept_call_def accept_poll_def tls_conn_step_def
  harness_start_def test_timer_def test_next_def serve_world_def conn_age_def request_overdue_def silent_env_def
  conn_action_def acceptor_pending_def conn_blocked_def timer_running_def test_blocked_def idle_def
  conn_deadline_def deadlines_def map_filter_simps min_list.simps connection_count_def conn_phase_def conn_done_def
  from_millis_def from_secs_def Let_def

section \<open>Proof outlines\<close>

text \<open>
  A proof outline of a test: each operation with what holds while the test is at it. It is
  valid if the steps of the others and of the clock keep these assertions, and each operation
  either waits, keeping its own, or leads to the next; \<open>I\<close> is an invariant that may be used.
\<close>

type_synonym ('a, 'n, 'f, 'fe, 'out, 'h) outline =
  "(('a, 'n) test_op \<times> (('a, 'n, 'f, 'fe, 'out, 'h) harness \<Rightarrow> bool)) list"

fun outline_next :: "('a, 'n, 'f, 'fe, 'out, 'h) outline \<Rightarrow> (('a, 'n, 'f, 'fe, 'out, 'h) harness \<Rightarrow> bool) \<Rightarrow>
   ('a, 'n, 'f, 'fe, 'out, 'h) harness \<Rightarrow> bool" where
  "outline_next [] post = post"
| "outline_next ((x, pre) # xs) post = pre"

fun at_outline :: "('a, 'n, 'f, 'fe, 'out, 'h) outline \<Rightarrow> (('a, 'n, 'f, 'fe, 'out, 'h) harness \<Rightarrow> bool) \<Rightarrow>
   ('a, 'n, 'f, 'fe, 'out, 'h) harness \<Rightarrow> bool" where
  "at_outline [] post s = (hn_script s = [] \<and> post s)"
| "at_outline ((x, pre) # xs) post s = (hn_script s = x # map fst xs \<and> pre s \<or> at_outline xs post s)"

definition kept_by_others where
  "kept_by_others w I ops pre \<longleftrightarrow>
     (\<forall>s t b. I s \<and> I t \<and> hn_script s = ops \<and> pre s \<and> \<not> hn_failed s \<and> b \<noteq> HnTest \<and>
       harness_step w b s = Some t \<longrightarrow> pre t)"

fun outline_ok where
  "outline_ok w I [] post \<longleftrightarrow> kept_by_others w I [] post"
| "outline_ok w I ((x, pre) # xs) post \<longleftrightarrow>
     kept_by_others w I (x # map fst xs) pre \<and>
     (\<forall>s. I s \<and> hn_script s = x # map fst xs \<and> pre s \<and> \<not> hn_failed s \<longrightarrow>
        \<not> hn_failed (test_step w s) \<and>
        (hn_script (test_step w s) = hn_script s \<and> pre (test_step w s) \<or>
         hn_script (test_step w s) = map fst xs \<and> outline_next xs post (test_step w s))) \<and>
     outline_ok w I xs post"

lemma others_leave_test:
  "harness_step w b s = Some t \<Longrightarrow> b \<noteq> HnTest \<Longrightarrow>
   hn_script t = hn_script s \<and> hn_failed t = hn_failed s \<and> hn_timer t = hn_timer s \<and>
   hn_tries t = hn_tries s \<and> hn_made t = hn_made s"
  by (cases b) (auto simp del: tls_sys_step.simps split: option.splits if_splits)

lemma at_outline_next: "hn_script s = map fst xs \<Longrightarrow> outline_next xs post s \<Longrightarrow> at_outline xs post s"
  by (cases xs) auto

lemma at_outline_script: "at_outline xs post s \<Longrightarrow> set (hn_script s) \<subseteq> fst ` set xs"
proof (induction xs)
  case (Cons p xs)
  show ?case
  proof (cases "at_outline xs post s")
    case True
    with Cons.IH show ?thesis by (simp add: subset_insertI2)
  next
    case False
    with Cons.prems show ?thesis by (cases p) simp
  qed
qed simp

lemma at_outline_end: "at_outline xs post s \<Longrightarrow> hn_script s = [] \<Longrightarrow> post s"
  by (induction xs) auto

lemma outline_step:
  assumes "outline_ok w I xs post" and "I s" and "I t" and "\<not> hn_failed s"
    and "at_outline xs post s" and "harness_step w b s = Some t"
  shows "\<not> hn_failed t \<and> at_outline xs post t"
  using assms(1,5)
proof (induction xs)
  case Nil
  show ?case
  proof (cases "b = HnTest")
    case True
    with Nil assms(4,6) show ?thesis by auto
  next
    case False
    with Nil assms(2-4,6) others_leave_test [OF assms(6)] show ?thesis
      by (auto simp: kept_by_others_def)
  qed
next
  case (Cons p xs)
  obtain x pre where p: "p = (x, pre)" by fastforce
  show ?case
  proof (cases "at_outline xs post s")
    case True
    with Cons p show ?thesis by simp
  next
    case False
    with Cons.prems p have here: "hn_script s = x # map fst xs" "pre s" by auto
    show ?thesis
    proof (cases "b = HnTest")
      case True
      with assms(6) have t: "t = test_step w s" by simp
      from Cons.prems(1) p here assms(2,4) show ?thesis
        unfolding t by (auto simp del: test_step.simps intro: at_outline_next)
    next
      case False
      with Cons.prems(1) p here assms(2-4,6) others_leave_test [OF assms(6) False] show ?thesis
        by (auto simp: kept_by_others_def)
    qed
  qed
qed

text \<open>The rules of the operations.\<close>

lemma outline_consI:
  assumes "kept_by_others w I (x # map fst xs) pre" and "outline_ok w I xs post"
    and "\<And>s. I s \<Longrightarrow> hn_script s = x # map fst xs \<Longrightarrow> pre s \<Longrightarrow> \<not> hn_failed s \<Longrightarrow>
      \<not> hn_failed (test_step w s) \<and>
      (hn_script (test_step w s) = hn_script s \<and> pre (test_step w s) \<or>
       hn_script (test_step w s) = map fst xs \<and> outline_next xs post (test_step w s))"
  shows "outline_ok w I ((x, pre) # xs) post"
  using assms by (simp del: test_step.simps)

lemma outline_await:
  assumes "kept_by_others w I (TestAwait P # map fst xs) pre" and "outline_ok w I xs post"
    and "\<And>s. I s \<Longrightarrow> pre s \<Longrightarrow> P (hn_state s) \<Longrightarrow> outline_next xs post (test_next (map fst xs) s)"
  shows "outline_ok w I ((TestAwait P, pre) # xs) post"
  using assms by (intro outline_consI) auto

lemma outline_assert:
  assumes "kept_by_others w I (TestAssert P # map fst xs) pre" and "outline_ok w I xs post"
    and "\<And>s. I s \<Longrightarrow> pre s \<Longrightarrow> P (hn_state s)"
    and "\<And>s. I s \<Longrightarrow> pre s \<Longrightarrow> outline_next xs post (test_next (map fst xs) s)"
  shows "outline_ok w I ((TestAssert P, pre) # xs) post"
  using assms by (intro outline_consI) auto

lemma outline_connect:
  assumes "kept_by_others w I (TestConnect a # map fst xs) pre" and "outline_ok w I xs post"
    and "\<And>s. I s \<Longrightarrow> pre s \<Longrightarrow> outline_next xs post
      (test_next (map fst xs) (s\<lparr>hn_backlog := hn_backlog s @ [a], hn_made := hn_made s @ [a]\<rparr>))"
  shows "outline_ok w I ((TestConnect a, pre) # xs) post"
  using assms by (intro outline_consI) auto

lemma outline_sleep:
  assumes "kept_by_others w I (TestSleep d # map fst xs) pre" and "outline_ok w I xs post"
    and "\<And>s. I s \<Longrightarrow> pre s \<Longrightarrow> hn_timer s = None \<Longrightarrow> pre (s\<lparr>hn_timer := Some (hn_now s + d)\<rparr>)"
    and "\<And>s t. I s \<Longrightarrow> pre s \<Longrightarrow> hn_timer s = Some t \<Longrightarrow> t \<le> hn_now s \<Longrightarrow>
      outline_next xs post (test_next (map fst xs) s)"
  shows "outline_ok w I ((TestSleep d, pre) # xs) post"
  using assms(1,2)
proof (rule outline_consI)
  fix s
  assume "I s" "hn_script s = TestSleep d # map fst xs" "pre s" "\<not> hn_failed s"
  with assms(3,4) [of s] show "\<not> hn_failed (test_step w s) \<and>
      (hn_script (test_step w s) = hn_script s \<and> pre (test_step w s) \<or>
       hn_script (test_step w s) = map fst xs \<and> outline_next xs post (test_step w s))"
    by (cases "hn_timer s") (auto simp: test_timer_def)
qed

lemma outline_timeout:
  assumes "kept_by_others w I (TestTimeout d P # map fst xs) pre" and "outline_ok w I xs post"
    and "\<And>s. I s \<Longrightarrow> pre s \<Longrightarrow> P (hn_state s) \<Longrightarrow> outline_next xs post (test_next (map fst xs) s)"
    and "\<And>s. I s \<Longrightarrow> pre s \<Longrightarrow> \<not> P (hn_state s) \<Longrightarrow> hn_timer s = None \<Longrightarrow> pre (s\<lparr>hn_timer := Some (hn_now s + d)\<rparr>)"
    and "\<And>s t. I s \<Longrightarrow> pre s \<Longrightarrow> \<not> P (hn_state s) \<Longrightarrow> hn_timer s = Some t \<Longrightarrow> hn_now s < t"
  shows "outline_ok w I ((TestTimeout d P, pre) # xs) post"
  using assms(1,2)
proof (rule outline_consI)
  fix s
  assume "I s" "hn_script s = TestTimeout d P # map fst xs" "pre s" "\<not> hn_failed s"
  then show "\<not> hn_failed (test_step w s) \<and>
      (hn_script (test_step w s) = hn_script s \<and> pre (test_step w s) \<or>
       hn_script (test_step w s) = map fst xs \<and> outline_next xs post (test_step w s))"
    using assms(3,4) [of s] assms(5) [of s "the (hn_timer s)"]
    by (cases "P (hn_state s)"; cases "hn_timer s") (simp_all add: test_timer_def)
qed

lemma outline_shutdown:
  assumes "kept_by_others w I (TestShutdown # map fst xs) pre" and "outline_ok w I xs post"
    and "\<And>s t. I s \<Longrightarrow> pre s \<Longrightarrow>
      hn_state t = (hn_state s)\<lparr>sy_handle := handle_shutdown (wd_api w) (sy_handle (hn_state s))\<rparr> \<Longrightarrow>
      hn_now t = hn_now s \<Longrightarrow> hn_timer t = None \<Longrightarrow> outline_next xs post t"
  shows "outline_ok w I ((TestShutdown, pre) # xs) post"
  using assms(1,2) by (rule outline_consI) (auto intro!: assms(3))

lemma outline_poll:
  assumes "kept_by_others w I (TestPoll n d P # map fst xs) pre" and "outline_ok w I xs post"
    and "\<And>s. I s \<Longrightarrow> pre s \<Longrightarrow> hn_timer s = None \<Longrightarrow> n \<le> hn_tries s \<or> P (hn_state s) \<Longrightarrow>
      outline_next xs post (test_next (map fst xs) s)"
    and "\<And>s. I s \<Longrightarrow> pre s \<Longrightarrow> hn_timer s = None \<Longrightarrow> \<not> P (hn_state s) \<Longrightarrow> pre (s\<lparr>hn_timer := Some (hn_now s + d)\<rparr>)"
    and "\<And>s t. I s \<Longrightarrow> pre s \<Longrightarrow> hn_timer s = Some t \<Longrightarrow> t \<le> hn_now s \<Longrightarrow>
      pre (s\<lparr>hn_timer := None, hn_tries := Suc (hn_tries s)\<rparr>)"
  shows "outline_ok w I ((TestPoll n d P, pre) # xs) post"
  using assms(1,2)
proof (rule outline_consI)
  fix s
  assume "I s" "hn_script s = TestPoll n d P # map fst xs" "pre s" "\<not> hn_failed s"
  with assms(3-5) [of s] show "\<not> hn_failed (test_step w s) \<and>
      (hn_script (test_step w s) = hn_script s \<and> pre (test_step w s) \<or>
       hn_script (test_step w s) = map fst xs \<and> outline_next xs post (test_step w s))"
    by (cases "hn_timer s") (auto simp: test_timer_def)
qed

text \<open>The invariant of every test in which the server can listen: it is steady, and counts.\<close>

definition sound :: "('a, 'n, 'f, 'fe, 'out, 'h, 'op) world \<Rightarrow> 'a \<Rightarrow> ('a, 'n, 'f, 'fe, 'out, 'h) harness \<Rightarrow> bool" where
  "sound w a s \<longleftrightarrow> steady a s \<and> counted (wd_cfg w) (hn_state s)"

locale outlined_test =
  fixes w :: "('a, 'n, 'f, 'fe, 'out, 'h, 'op) world"
    and I :: "('a, 'n, 'f, 'fe, 'out, 'h) harness \<Rightarrow> bool"
    and outline :: "('a, 'n, 'f, 'fe, 'out, 'h) outline"
    and post :: "('a, 'n, 'f, 'fe, 'out, 'h) harness \<Rightarrow> bool"
  assumes inv_start: "I (harness_start w (map fst outline))"
    and inv_step: "I s \<Longrightarrow> harness_moves w s t \<Longrightarrow> I t"
    and starts: "outline_next outline post (harness_start w (map fst outline))"
    and outlined: "outline_ok w I outline post"
begin

lemma passes:
  assumes "harness_reachable w (map fst outline) s"
  shows "\<not> hn_failed s \<and> at_outline outline post s \<and> I s"
  using assms
proof (induction rule: reach.induct)
  case (reach_start s)
  with starts inv_start show ?case by (auto simp: harness_start_def intro: at_outline_next)
next
  case (reach_step s t)
  with inv_step [of s t] show ?case
    using outline_step [OF outlined] by (auto simp: harness_moves_iff)
qed

lemma never_stuck:
  assumes "harness_reachable w (map fst outline) s" and "idle w s" and "hn_script s \<noteq> []"
    and "\<And>P. TestAwait P \<in> fst ` set outline \<Longrightarrow> P (hn_state s)"
  shows "deadlines w s \<noteq> []"
proof -
  have "set (hn_script s) \<subseteq> fst ` set outline"
    using passes [OF assms(1)] at_outline_script by blast
  then have "timer_running s"
    using assms(2-4) passes [OF assms(1)]
    by (auto simp: idle_def test_blocked_def split: list.splits test_op.splits)
  then show ?thesis by (auto simp: timer_running_def deadlines_def map_filter_simps split: option.splits)
qed

end

lemma sound_start: "sound w addr (harness_start w ops)"
  unfolding sound_def
  by (intro conjI steady_start) (simp add: harness_start_def tls_start_def counted_start)

lemma sound_step:
  assumes "wd_bind w = Inr ()" and "wd_addr w = Inr addr" and "sound w addr s" and "harness_moves w s t"
  shows "sound w addr t"
proof -
  have "steady addr t"
    using assms steady_step [of addr s w _ t] by (auto simp: sound_def harness_moves_iff)
  moreover have "counted (wd_cfg w) (hn_state t)"
    using assms(3,4) test_harness.sim_step [of w s t] tls_counted_step by (metis sound_def)
  ultimately show ?thesis by (simp add: sound_def)
qed

locale harness_test =
  fixes w :: "('a, 'n, 'f, 'fe, 'out, 'h, 'op) world" and addr :: 'a
    and outline :: "('a, 'n, 'f, 'fe, 'out, 'h) outline"
    and post :: "('a, 'n, 'f, 'fe, 'out, 'h) harness \<Rightarrow> bool"
  assumes binds: "wd_bind w = Inr ()" "wd_addr w = Inr addr"
    and starts: "outline_next outline post (harness_start w (map fst outline))"
    and outlined: "outline_ok w (sound w addr) outline post"

sublocale harness_test \<subseteq> outlined: outlined_test w "sound w addr" outline post
  by unfold_locales (auto intro: sound_start sound_step [OF binds] starts outlined)

end
