(* ===== verification/SilentClient.thy ===== *)
theory SilentClient
  imports TestHarness
begin

text \<open>
  What the tests with a silent client have in common: what they ask of the system, the stages
  they go through (waiting for the server, a client connected at time 0, shutting down), what
  the other tasks and the clock keep of them, and the locale of a client that has connected
  (\<open>silent_client\<close>), to be interpreted for every acceptor.
\<close>

declare harness_step.simps [simp del] test_step.simps [simp del]

section \<open>What the tests share\<close>

text \<open>\<open>handle.listening().await.unwrap()\<close> waits for the latch and then reads the address.\<close>

definition listening_ready :: "('a, 'n) sys \<Rightarrow> bool" where
  "listening_ready y = (case listening_step LiWait (sy_handle y) of LiRead \<Rightarrow> True | _ \<Rightarrow> False)"

definition listening_is :: "('a option \<Rightarrow> bool) \<Rightarrow> ('a, 'n) sys \<Rightarrow> bool" where
  "listening_is P y = (case listening_step LiRead (sy_handle y) of LiDone a \<Rightarrow> P a | _ \<Rightarrow> False)"

definition count_is :: "nat \<Rightarrow> ('a, 'n) sys \<Rightarrow> bool" where
  "count_is n y = (connection_count (sy_handle y) = of_nat n)"

definition server_finished :: "('a, 'n) sys \<Rightarrow> bool" where
  "server_finished y = serve_over (sy_serve y)"

definition server_result :: "(unit io_result \<Rightarrow> bool) \<Rightarrow> ('a, 'n) sys \<Rightarrow> bool" where
  "server_result P y = (case sy_serve y of SvReturned r \<Rightarrow> P r | _ \<Rightarrow> False)"

fun is_ok :: "'e + 'b \<Rightarrow> bool" where
  "is_ok (Inr x) = True"
| "is_ok (Inl e) = False"

text \<open>What the client sees of its connection: it is closed when the server has dropped its stream.\<close>

definition client_closed :: "('a, 'n) sys \<Rightarrow> bool" where
  "client_closed y = (case sy_conns y of c # _ \<Rightarrow> \<not> cn_stream_open c | [] \<Rightarrow> False)"

text \<open>Everything the accept error handler was called with.\<close>

definition handler_calls :: "('a, 'n) sys \<Rightarrow> 'a handler_log" where
  "handler_calls y = sy_log y @ concat (map cn_log (sy_conns y))"

definition signalled :: "('a, 'n, 'f, 'fe, 'out, 'h) harness \<Rightarrow> bool" where
  "signalled s = is_notified (hi_shutdown (sy_handle (hn_state s)))"

text \<open>Nothing has connected yet; the clock cannot move.\<close>

definition fresh :: "('a, 'n, 'f, 'fe, 'out, 'h) harness \<Rightarrow> bool" where
  "fresh s \<longleftrightarrow> \<not> signalled s \<and> hn_made s = [] \<and> hn_now s = 0 \<and> hn_timer s = None \<and> hn_tries s = 0 \<and>
     sy_log (hn_state s) = []"

text \<open>
  One client has connected, at time 0, and \<open>K\<close> is what holds of the task of its connection at
  a time, given when the task entered its phase.
\<close>

type_synonym ('a, 'f, 'fe, 'out) task_view =
  "duration \<Rightarrow> duration \<Rightarrow> 'a conn \<Rightarrow> ('f, 'fe, 'out) accepting \<Rightarrow> bool"

definition served :: "('a, 'f, 'fe, 'out) task_view \<Rightarrow> 'a \<Rightarrow> ('a, 'n, 'f, 'fe, 'out, 'h) harness \<Rightarrow> bool" where
  "served K client s \<longleftrightarrow> \<not> signalled s \<and> hn_made s = [client] \<and> sy_log (hn_state s) = [] \<and>
     (0 < hn_now s \<longrightarrow> length (sy_conns (hn_state s)) = 1) \<and>
     (\<forall>i < length (sy_conns (hn_state s)).
        K (hn_now s) (hn_since s ! i) (sy_conns (hn_state s) ! i) (ts_accepts (hn_sys s) ! i))"

definition served_at ::
  "('a, 'f, 'fe, 'out) task_view \<Rightarrow> 'a \<Rightarrow> duration \<Rightarrow> ('a, 'n, 'f, 'fe, 'out, 'h) harness \<Rightarrow> bool" where
  "served_at K client x s \<longleftrightarrow> served K client s \<and> hn_now s = x \<and> hn_timer s = None \<and> hn_tries s = 0"

text \<open>Asleep from \<open>x\<close> to \<open>y\<close>.\<close>

definition served_until ::
  "('a, 'f, 'fe, 'out) task_view \<Rightarrow> 'a \<Rightarrow> duration \<Rightarrow> duration \<Rightarrow> ('a, 'n, 'f, 'fe, 'out, 'h) harness \<Rightarrow> bool"
where
  "served_until K client x y s \<longleftrightarrow> served K client s \<and> hn_tries s = 0 \<and>
     (hn_timer s = None \<and> hn_now s = x \<or> hn_timer s = Some y \<and> hn_now s \<le> y)"

text \<open>Shutdown has been called, and the test awaits the server with a timeout.\<close>

definition stopping :: "duration \<Rightarrow> ('a, 'n, 'f, 'fe, 'out, 'h) harness \<Rightarrow> bool" where
  "stopping d s \<longleftrightarrow> signalled s \<and> (\<forall>t. hn_timer s = Some t \<longrightarrow> t = hn_now s + d)"

definition stopped :: "('a, 'n, 'f, 'fe, 'out, 'h) harness \<Rightarrow> bool" where
  "stopped s \<longleftrightarrow> signalled s \<and> server_result is_ok (hn_state s)"

text \<open>And then sleeps: the connections have ended when the clock has moved.\<close>

definition stopped_asleep :: "duration \<Rightarrow> ('a, 'n, 'f, 'fe, 'out, 'h) harness \<Rightarrow> bool" where
  "stopped_asleep d s \<longleftrightarrow> stopped s \<and> (\<forall>t. hn_timer s = Some t \<longrightarrow>
     t = hn_now s + d \<or> (\<forall>c \<in> set (sy_conns (hn_state s)). conn_done c))"

definition all_ended :: "('a, 'n, 'f, 'fe, 'out, 'h) harness \<Rightarrow> bool" where
  "all_ended s \<longleftrightarrow> stopped s \<and> (\<forall>c \<in> set (sy_conns (hn_state s)). conn_done c)"

lemmas stage_defs =
  fresh_def served_at_def served_until_def stopping_def stopped_def stopped_asleep_def all_ended_def

lemma stage_simps [simp]:
  "signalled (test_next ops s) = signalled s" "signalled (s\<lparr>hn_timer := x\<rparr>) = signalled s"
  "signalled (s\<lparr>hn_tries := n\<rparr>) = signalled s"
  "signalled (s\<lparr>hn_backlog := b, hn_made := m\<rparr>) = signalled s"
  "served K client (test_next ops s) = served K client s" "served K client (s\<lparr>hn_timer := x\<rparr>) = served K client s"
  "served K client (s\<lparr>hn_tries := n\<rparr>) = served K client s"
  "stopped (test_next ops s) = stopped s" "all_ended (test_next ops s) = all_ended s"
  by (simp_all add: signalled_def served_def test_next_def stopped_def all_ended_def)

lemma stopped_rests: "stopped s \<Longrightarrow> hn_timer s = None \<Longrightarrow> stopped_asleep d s"
  by (simp add: stopped_asleep_def)

lemma durations [simp]: "0 < from_millis (numeral n)" "0 < from_secs (numeral n)" "0 < from_secs 1"
  by (simp_all add: from_millis_def from_secs_def)

subsection \<open>What the other tasks keep\<close>

lemma serve_step_quiet:
  assumes "serve_steady a h pc"
  shows "so_log (serve_step api cfg (serve_world w s) h pc) = []"
proof (cases pc)
  case (SvLoop l)
  with assms show ?thesis
    by (cases l; cases "hn_backlog s") (auto simp: serve_world_def serve_goto_def split: poll.split)
qed (auto simp: serve_goto_def case_prod_beta split: poll.split sum.split)

lemma others_keep:
  assumes "steady a s" and "b \<noteq> HnTest" and "harness_step w b s = Some t"
  shows "signalled t = signalled s" and "sy_log (hn_state t) = sy_log (hn_state s)"
    and "b \<noteq> HnTick \<Longrightarrow> hn_now t = hn_now s"
proof -
  from assms(1) have st: "serve_steady a (sy_handle (hn_state s)) (sy_serve (hn_state s))"
    by (simp add: steady_def Let_def)
  have "signalled t = signalled s \<and> sy_log (hn_state t) = sy_log (hn_state s) \<and> (b \<noteq> HnTick \<longrightarrow> hn_now t = hn_now s)"
  proof (cases b)
    case HnServe
    from assms(3) [unfolded HnServe] harness_serve_step(1,4,9) [of w s t]
      serve_step_shutdown [OF st] serve_step_quiet [OF st] show ?thesis
      by (simp add: signalled_def)
  next
    case (HnConn i)
    from harness_conn_step [OF assms(3) [unfolded HnConn]] show ?thesis
      by (auto simp: signalled_def same_signals_def)
  next
    case HnTick
    have "hn_sys t = hn_sys s" using arg_cong [OF tick(2) [OF assms(3) [unfolded HnTick]], of hn_sys] by simp
    with HnTick show ?thesis by (simp add: signalled_def)
  qed (use assms(2) in simp)
  then show "signalled t = signalled s" "sy_log (hn_state t) = sy_log (hn_state s)"
    "b \<noteq> HnTick \<Longrightarrow> hn_now t = hn_now s" by auto
qed

lemma steady_conns:
  assumes "steady a s" and "\<not> signalled s"
  shows "hn_made s = map cn_remote (sy_conns (hn_state s)) @ serve_holds (sy_serve (hn_state s)) @ hn_backlog s"
proof -
  have "\<not> serve_over (sy_serve (hn_state s))"
    using assms by (cases "sy_serve (hn_state s)") (auto simp: steady_def Let_def signalled_def)
  with assms(1) show ?thesis by (simp add: steady_def Let_def)
qed

lemma tick_same:
  assumes "harness_step w HnTick s = Some t"
  shows "hn_sys t = hn_sys s" "hn_since t = hn_since s" "hn_timer t = hn_timer s"
  using arg_cong [OF tick(2) [OF assms], of hn_sys] arg_cong [OF tick(2) [OF assms], of hn_since]
    arg_cong [OF tick(2) [OF assms], of hn_timer] by simp_all

lemma fresh_others:
  assumes "steady a s" and "steady a t" and "fresh s" and "b \<noteq> HnTest" and "harness_step w b s = Some t"
  shows "fresh t"
proof -
  have no_conns: "sy_conns (hn_state s) = []"
    using steady_conns [OF assms(1)] assms(3) by (simp add: fresh_def)
  have "b \<noteq> HnTick"
    using assms(3,5) no_conns no_tick [of w s t] by (auto simp: fresh_def deadlines_def map_filter_simps)
  with others_keep [OF assms(1,4,5)] others_leave_test [OF assms(5,4)] assms(3) show ?thesis
    by (simp add: fresh_def)
qed

lemma stopping_others:
  assumes "steady a s" and "stopping d s" and "b \<noteq> HnTest" and "harness_step w b s = Some t"
    and "idle w s \<Longrightarrow> \<not> server_result is_ok (hn_state s)"
  shows "stopping d t"
proof -
  have "b \<noteq> HnTick"
  proof
    assume "b = HnTick"
    with assms(4) tick(1) have idle: "idle w s" by metis
    with idle_shut_down(1) [OF assms(1) idle] assms(2,5) show False
      by (simp add: stopping_def signalled_def server_result_def)
  qed
  with others_keep [OF assms(1,3,4)] others_leave_test [OF assms(4,3)] assms(2) show ?thesis
    by (simp add: stopping_def)
qed

lemma stopped_others:
  assumes "steady a s" and "steady a t" and "stopped s" and "b \<noteq> HnTest" and "harness_step w b s = Some t"
  shows "stopped t"
proof -
  have "serve_over (sy_serve (hn_state t))"
  proof (cases b)
    case HnServe
    from assms(1) have st: "serve_steady a (sy_handle (hn_state s)) (sy_serve (hn_state s))"
      by (simp add: steady_def Let_def)
    from assms(3) obtain r where "sy_serve (hn_state s) = SvReturned r"
      by (auto simp: stopped_def server_result_def split: serve_pc.splits)
    with harness_serve_step(2) [OF assms(5) [unfolded HnServe]] show ?thesis by (simp add: serve_goto_def)
  next
    case (HnConn i)
    from harness_conn_step [OF assms(5) [unfolded HnConn]] assms(3) show ?thesis
      by (auto simp: stopped_def server_result_def split: serve_pc.splits)
  next
    case HnTick
    with assms(3) tick_same(1) [OF assms(5) [unfolded HnTick]] show ?thesis
      by (auto simp: stopped_def server_result_def split: serve_pc.splits)
  qed (use assms(4) in simp)
  with assms(2) others_keep(1) [OF assms(1,4,5)] assms(3) show ?thesis
    by (cases "sy_serve (hn_state t)") (auto simp: steady_def Let_def stopped_def server_result_def)
qed

lemma ended_others:
  assumes "stopped s" and "\<forall>c \<in> set (sy_conns (hn_state s)). conn_done c" and "b \<noteq> HnTest"
    and "harness_step w b s = Some t"
  shows "\<forall>c \<in> set (sy_conns (hn_state t)). conn_done c"
proof (cases b)
  case HnServe
  from assms(1) obtain r where "sy_serve (hn_state s) = SvReturned r"
    by (auto simp: stopped_def server_result_def split: serve_pc.splits)
  with harness_serve_step(3) [OF assms(4) [unfolded HnServe]] assms(2) show ?thesis by (simp add: serve_goto_def)
next
  case (HnConn i)
  let ?c = "sy_conns (hn_state s) ! i"
  from harness_conn_step [OF assms(4) [unfolded HnConn]] obtain h c f where
      step: "tls_conn_step (wd_api w) (wd_cfg w) (wd_server w) (ts_store (hn_sys s)) (wd_fenv w (conn_age s i))
        (silent_env (request_overdue w s i)) (sy_handle (hn_state s)) ?c (ts_accepts (hn_sys s) ! i) = (h, c, f)"
    and i: "i < length (sy_conns (hn_state s))"
    and t: "sy_conns (hn_state t) = (sy_conns (hn_state s))[i := c]" by fastforce
  from assms(2) i have "conn_done ?c" by simp
  then have "conn_done c"
    using step conn_done_stays [of ?c] by (simp add: conn_done_def tls_conn_step_other) blast
  with assms(2) show ?thesis unfolding t using set_update_subset_insert by fastforce
next
  case HnTick
  with assms(2) tick_same(1) [OF assms(4) [unfolded HnTick]] show ?thesis by simp
qed (use assms(3) in simp)

lemma stopped_asleep_others:
  assumes "steady a s" and "steady a t" and "stopped_asleep d s" and "b \<noteq> HnTest" and "harness_step w b s = Some t"
  shows "stopped_asleep d t"
proof -
  have st: "stopped s" "stopped t"
    using assms(3) stopped_others [OF assms(1,2) _ assms(4,5)] by (auto simp: stopped_asleep_def)
  have all: "\<forall>c \<in> set (sy_conns (hn_state s)). conn_done c" if "b = HnTick"
    using idle_shut_down(2) [OF assms(1)] tick(1) assms(5) that st(1)
    by (auto simp: stopped_def signalled_def)
  show ?thesis
  proof (cases "b = HnTick")
    case True
    with all ended_others [OF st(1) _ assms(4,5)] st(2) show ?thesis by (simp add: stopped_asleep_def)
  next
    case False
    with assms(3) ended_others [OF st(1) _ assms(4,5)] others_keep(3) [OF assms(1,4,5)]
      others_leave_test [OF assms(5,4)] st(2) show ?thesis
      by (auto simp: stopped_asleep_def)
  qed
qed

text \<open>Operations of a test that never wait: while one is next, the runtime is not idle.\<close>

fun immediate :: "('a, 'n) test_op \<Rightarrow> bool" where
  "immediate TestShutdown = True"
| "immediate (TestConnect a) = True"
| "immediate (TestAssert P) = True"
| "immediate x = False"

lemma kept_by_othersI:
  assumes "\<And>s t b. steady addr s \<Longrightarrow> steady addr t \<Longrightarrow> pre s \<Longrightarrow> b \<noteq> HnTest \<Longrightarrow>
    harness_step w b s = Some t \<Longrightarrow> pre t"
  shows "kept_by_others w (sound w addr) ops pre"
  unfolding kept_by_others_def
proof (intro allI impI; elim conjE)
  fix s t b
  assume "sound w addr s" "sound w addr t" "pre s" "b \<noteq> HnTest" "harness_step w b s = Some t"
  then show "pre t" using assms [of s t b] by (simp add: sound_def)
qed

lemma kept_fresh: "kept_by_others w (sound w addr) ops fresh"
  by (rule kept_by_othersI) (rule fresh_others)

text \<open>The server has told the test its address.\<close>

definition heard :: "('a, 'n, 'f, 'fe, 'out, 'h) harness \<Rightarrow> bool" where
  "heard s \<longleftrightarrow> fresh s \<and> listening_ready (hn_state s)"

lemma listening_ready_iff [simp]: "listening_ready y = is_notified (hi_addr_notify (sy_handle y))"
  by (simp add: listening_ready_def)

lemma heard_others:
  assumes "steady a s" and "steady a t" and "heard s" and "b \<noteq> HnTest" and "harness_step w b s = Some t"
  shows "heard t"
proof -
  have "is_notified (hi_addr_notify (sy_handle (hn_state t)))"
  proof (cases b)
    case HnServe
    from harness_serve_step(1) [OF assms(5) [unfolded HnServe]] assms(3)
      serve_step_grow [of "sy_handle (hn_state s)" "wd_api w" "wd_cfg w" "serve_world w s" "sy_serve (hn_state s)"]
    show ?thesis by (simp add: heard_def latches_grow_def)
  next
    case (HnConn i)
    from harness_conn_step [OF assms(5) [unfolded HnConn]] assms(3) show ?thesis
      by (auto simp: heard_def same_signals_def)
  next
    case HnTick
    with assms(3) tick_same(1) [OF assms(5) [unfolded HnTick]] show ?thesis by (simp add: heard_def)
  qed (use assms(4) in simp)
  with fresh_others [OF assms(1,2) _ assms(4,5)] assms(3) show ?thesis by (simp add: heard_def)
qed

lemma kept_heard: "kept_by_others w (sound w addr) ops heard"
  by (rule kept_by_othersI) (rule heard_others)

lemma heard_address:
  assumes "sound w addr s" and "heard s"
  shows "listening_is (\<lambda>a. a = Some addr) (hn_state s)"
  using assms by (cases "sy_serve (hn_state s)")
    (auto simp: sound_def steady_def Let_def heard_def listening_is_def)

text \<open>Every test begins by waiting for the server.\<close>

lemma outline_listen:
  assumes "outline_ok w (sound w addr) xs post"
    and "\<And>s. sound w addr s \<Longrightarrow> heard s \<Longrightarrow> outline_next xs post s"
  shows "outline_ok w (sound w addr)
    ((TestAwait listening_ready, fresh) # (TestAssert (listening_is (\<lambda>a. a \<noteq> None)), heard) # xs) post"
proof (intro outline_await outline_assert)
  show "outline_ok w (sound w addr) xs post" by (rule assms(1))
  show "outline_next xs post (test_next (map fst xs) s)" if "sound w addr s" "heard s" for s
    using that by (intro assms(2)) (auto simp: sound_def steady_def heard_def fresh_def)
  show "listening_is (\<lambda>a. a \<noteq> None) (hn_state s)" if "sound w addr s" "heard s" for s
    using heard_address [OF that] by (auto simp: listening_is_def)
qed (auto simp: kept_fresh kept_heard heard_def fresh_def)

lemma kept_stopping: "kept_by_others w (sound w addr) (TestTimeout d server_finished # ops) (stopping d)"
  unfolding kept_by_others_def
proof (intro allI impI; elim conjE)
  fix s t b
  assume s: "sound w addr s" "hn_script s = TestTimeout d server_finished # ops" "stopping d s" "\<not> hn_failed s"
    and b: "b \<noteq> HnTest" "harness_step w b s = Some t"
  have "\<not> server_result is_ok (hn_state s)" if "idle w s"
    using that s(2,4) by (auto simp: idle_def test_blocked_def server_finished_def server_result_def split: serve_pc.splits)
  moreover have "steady addr s" using s(1) by (simp add: sound_def)
  ultimately show "stopping d t" using stopping_others [OF _ s(3) b] by metis
qed

lemma kept_stopped: "kept_by_others w (sound w addr) ops stopped"
  by (rule kept_by_othersI) (rule stopped_others)

lemma kept_asleep: "kept_by_others w (sound w addr) ops (stopped_asleep d)"
  by (rule kept_by_othersI) (rule stopped_asleep_others)

lemma kept_ended:
  fixes w :: "('a, 'n, 'f, 'fe, 'out, 'h, 'op) world"
  shows "kept_by_others w (sound w addr) ops all_ended"
proof (rule kept_by_othersI)
  fix s t :: "('a, 'n, 'f, 'fe, 'out, 'h) harness" and b
  assume s: "steady addr s" "steady addr t" "all_ended s" "b \<noteq> HnTest" "harness_step w b s = Some t"
  from s(3) have "stopped s" "\<forall>c \<in> set (sy_conns (hn_state s)). conn_done c" by (simp_all add: all_ended_def)
  from stopped_others [OF s(1,2) this(1) s(4,5)] ended_others [OF this s(4,5)]
  show "all_ended t" by (simp add: all_ended_def)
qed

text \<open>
  A test whose only unlimited wait is for the server to listen: it does not fail, it does not
  get stuck (when every task waits and the test is not over, a timer is running), and at its
  end the last assertion holds.
\<close>

context harness_test begin

lemma test_passes:
  assumes "harness_reachable w ops s" and "map fst outline = ops"
    and "\<forall>P. TestAwait P \<in> set ops \<longrightarrow> P = listening_ready"
  shows "\<not> hn_failed s" and "idle w s \<longrightarrow> hn_script s = [] \<or> deadlines w s \<noteq> []"
    and "hn_script s = [] \<longrightarrow> post s" and "sound w addr s"
proof -
  note reach = assms(1) [folded assms(2)]
  show "\<not> hn_failed s" "hn_script s = [] \<longrightarrow> post s" "sound w addr s"
    using outlined.passes [OF reach] at_outline_end by blast+
  show "idle w s \<longrightarrow> hn_script s = [] \<or> deadlines w s \<noteq> []"
  proof
    assume idle: "idle w s"
    have "steady addr s" using outlined.passes [OF reach] by (simp add: sound_def)
    from idle_listening(1) [OF this idle] have "P (hn_state s)" if "TestAwait P \<in> fst ` set outline" for P
      using that assms(3) by (auto simp flip: assms(2))
    with outlined.never_stuck [OF reach idle] show "hn_script s = [] \<or> deadlines w s \<noteq> []" by blast
  qed
qed

end

section \<open>A client that has connected\<close>

text \<open>
  The contract of a view \<open>K\<close> of the task of the client's connection: it holds of a task just
  spawned at time 0, polling the task keeps it, and so does the clock, which moves only when
  the task is waiting and never past its timer.
\<close>

locale silent_client =
  fixes w :: "('a, 'n, 'f, 'fe, 'out, 'h, 'op) world" and K :: "('a, 'f, 'fe, 'out) task_view"
    and addr client :: 'a
  assumes spawned: "K 0 0 (conn_spawn client) (accepting_new (wd_server w))"
    and polled: "\<And>now since c f store h h' c' f'. K now since c f \<Longrightarrow> cn_remote c = client \<Longrightarrow>
      \<not> is_notified (hi_shutdown h) \<Longrightarrow> \<not> is_notified (hi_graceful h) \<Longrightarrow>
      tls_conn_step (wd_api w) (wd_cfg w) (wd_server w) store (wd_fenv w (now - since))
        (silent_env (case cc_first_request_timeout (wd_cfg w) of None \<Rightarrow> False | Some d \<Rightarrow> d \<le> now - since))
        h c f = (h', c', f') \<Longrightarrow>
      K now (if conn_phase c' = conn_phase c then since else now) c' f'"
    and ticked: "\<And>s now'. K (hn_now s) (hn_since s ! 0) (sy_conns (hn_state s) ! 0) (ts_accepts (hn_sys s) ! 0) \<Longrightarrow>
      conn_blocked w s 0 \<Longrightarrow> hn_now s < now' \<Longrightarrow>
      (\<forall>x. conn_deadline w s 0 = Some x \<and> hn_now s < x \<longrightarrow> now' \<le> x) \<Longrightarrow>
      K now' (hn_since s ! 0) (sy_conns (hn_state s) ! 0) (ts_accepts (hn_sys s) ! 0)"
begin

lemma at_most_one:
  assumes "steady addr s" and "served K client s"
  shows "sy_conns (hn_state s) = [] \<or> (\<exists>c. sy_conns (hn_state s) = [c] \<and> cn_remote c = client)"
  using steady_conns [OF assms(1)] assms(2) by (cases "sy_conns (hn_state s)") (auto simp: served_def)

lemma served_lengths:
  assumes "steady addr s"
  shows "length (hn_since s) = length (sy_conns (hn_state s))"
    "length (ts_accepts (hn_sys s)) = length (sy_conns (hn_state s))"
  using assms by (simp_all add: steady_def Let_def)

lemma served_serve:
  assumes "steady addr s" and "steady addr t" and "served K client s" and "harness_step w HnServe s = Some t"
  shows "served K client t"
proof -
  define out where "out = serve_step (wd_api w) (wd_cfg w) (serve_world w s) (sy_handle (hn_state s)) (sy_serve (hn_state s))"
  note t = harness_serve_step [OF assms(4), folded out_def]
  note keep = others_keep [OF assms(1) _ assms(4), simplified]
  have made: "hn_made t = [client]" using assms(3) t(10) by (simp add: served_def)
  show ?thesis
  proof (cases "so_spawn out")
    case Nil
    with assms(3) keep t show ?thesis by (simp add: served_def)
  next
    case (Cons c cs)
    have "hn_made t = map cn_remote (sy_conns (hn_state t)) @ serve_holds (sy_serve (hn_state t)) @ hn_backlog t"
      using steady_conns [OF assms(2)] keep(1) assms(3) by (simp add: served_def)
    with Cons t(3) made have one: "sy_conns (hn_state s) = []" "cs = []" "cn_remote c = client"
      by (auto simp: append_eq_Cons_conv)
    with assms(3) have now: "hn_now s = 0" by (auto simp: served_def)
    have "c \<in> set (so_spawn out)" using Cons by simp
    then obtain a where "c = conn_spawn a" using spawned_new unfolding out_def by blast
    then have "c = conn_spawn client" using one(3) by (simp add: conn_spawn_def)
    with one now served_lengths [OF assms(1)] assms(3) keep t Cons made spawned show ?thesis
      by (simp add: served_def)
  qed
qed

lemma served_conn:
  assumes "steady addr s" and "served K client s" and "harness_step w (HnConn i) s = Some t"
  shows "served K client t"
proof -
  from harness_conn_step [OF assms(3)] obtain h c f where
      step: "tls_conn_step (wd_api w) (wd_cfg w) (wd_server w) (ts_store (hn_sys s)) (wd_fenv w (conn_age s i))
        (silent_env (request_overdue w s i)) (sy_handle (hn_state s)) (sy_conns (hn_state s) ! i)
        (ts_accepts (hn_sys s) ! i) = (h, c, f)" and i: "i < length (sy_conns (hn_state s))"
    and t: "t = s\<lparr>hn_sys := (hn_sys s)\<lparr>ts_sys := (hn_state s)\<lparr>sy_handle := h, sy_conns := (sy_conns (hn_state s))[i := c]\<rparr>,
            ts_accepts := (ts_accepts (hn_sys s))[i := f]\<rparr>,
          hn_since := (if conn_phase c = conn_phase (sy_conns (hn_state s) ! i) then hn_since s
                       else (hn_since s)[i := hn_now s])\<rparr>" by blast
  from at_most_one [OF assms(1,2)] i obtain c0 where c0: "sy_conns (hn_state s) = [c0]" "cn_remote c0 = client" "i = 0"
    by auto
  from assms(1,2) have quiet: "\<not> is_notified (hi_shutdown (sy_handle (hn_state s)))"
    "\<not> is_notified (hi_graceful (sy_handle (hn_state s)))" by (simp_all add: steady_def Let_def served_def signalled_def)
  have "K (hn_now s) (hn_since s ! 0) c0 (ts_accepts (hn_sys s) ! 0)" using assms(2) c0 by (simp add: served_def)
  from polled [OF this c0(2) quiet] step c0 have
    "K (hn_now s) (if conn_phase c = conn_phase c0 then hn_since s ! 0 else hn_now s) c f"
    by (simp add: conn_age_def request_overdue_def cong: option.case_cong)
  moreover have "length (hn_since s) = 1" "length (ts_accepts (hn_sys s)) = 1"
    using served_lengths [OF assms(1)] c0 by simp_all
  moreover have "\<not> signalled t" "sy_log (hn_state t) = []" "hn_made t = [client]" "hn_now t = hn_now s"
    using others_keep [OF assms(1) _ assms(3)] others_leave_test [OF assms(3)] assms(2) by (simp_all add: served_def)
  moreover have "hn_since t ! 0 = (if conn_phase c = conn_phase c0 then hn_since s ! 0 else hn_now s)"
    "sy_conns (hn_state t) = [c]" "ts_accepts (hn_sys t) ! 0 = f"
    using calculation(2,3) c0 by (simp_all add: t)
  ultimately show ?thesis by (simp add: served_def)
qed

lemma served_tick:
  assumes "steady addr s" and "served K client s" and "harness_step w HnTick s = Some t"
  shows "served K client t" and "length (sy_conns (hn_state s)) = 1"
proof -
  note idle = tick(1) [OF assms(3)] and t = tick_same [OF assms(3)]
  have made: "hn_made t = hn_made s" using others_leave_test [OF assms(3)] by simp
  show len: "length (sy_conns (hn_state s)) = 1"
    using idle_all_accepted [OF assms(1) idle] assms(2) by (simp add: served_def signalled_def)
  have "K (hn_now s) (hn_since s ! 0) (sy_conns (hn_state s) ! 0) (ts_accepts (hn_sys s) ! 0)"
    using assms(2) len by (simp add: served_def)
  from ticked [OF this idle_blocked [OF idle] tick(3) [OF assms(3)]] len tick(5) [OF assms(3), of 0]
  have "K (hn_now t) (hn_since s ! 0) (sy_conns (hn_state s) ! 0) (ts_accepts (hn_sys s) ! 0)" by auto
  with assms(2) len t made show "served K client t" by (simp add: served_def signalled_def)
qed

lemma served_others:
  assumes "steady addr s" and "steady addr t" and "served K client s" and "b \<noteq> HnTest" and "harness_step w b s = Some t"
  shows "served K client t"
proof (cases b)
  case HnServe
  with assms(5) served_serve [OF assms(1-3)] show ?thesis by blast
next
  case (HnConn i)
  with assms(5) served_conn [OF assms(1,3)] show ?thesis by blast
next
  case HnTick
  with assms(5) served_tick(1) [OF assms(1,3)] show ?thesis by blast
qed (use assms(4) in simp)

text \<open>The stages of a test that others keep.\<close>

lemma kept_at:
  assumes "immediate x"
  shows "kept_by_others w (sound w addr) (x # ops) (served_at K client now)"
  unfolding kept_by_others_def
proof (intro allI impI; elim conjE)
  fix s t b
  assume s: "sound w addr s" "sound w addr t" "hn_script s = x # ops" "served_at K client now s" "\<not> hn_failed s"
    and b: "b \<noteq> HnTest" "harness_step w b s = Some t"
  have "b \<noteq> HnTick" using s(3,5) b(2) assms no_tick [of w s t] by (cases x) (auto simp: test_blocked_def)
  with s b served_others [of s t b] others_keep(3) [of addr s b w t] others_leave_test [OF b(2,1)]
  show "served_at K client now t" by (simp add: served_at_def sound_def)
qed

lemma kept_until:
  "kept_by_others w (sound w addr) (TestSleep d # ops) (served_until K client x y)"
  unfolding kept_by_others_def
proof (intro allI impI; elim conjE)
  fix s t b
  assume s: "sound w addr s" "sound w addr t" "hn_script s = TestSleep d # ops" "served_until K client x y s" "\<not> hn_failed s"
    and b: "b \<noteq> HnTest" "harness_step w b s = Some t"
  have "served K client t" using s b served_others [of s t b] by (simp add: served_until_def sound_def)
  moreover have "hn_timer s = None \<and> hn_now t = x \<or> hn_timer s = Some y \<and> hn_now t \<le> y"
  proof (cases "b = HnTick")
    case True
    have "timer_running s"
      using tick(1) [OF b(2) [unfolded True]] s(3,5) by (simp add: idle_def test_blocked_def)
    with s(4) tick(4) [OF b(2) [unfolded True], of y] show ?thesis
      by (auto simp: timer_running_def served_until_def)
  next
    case False
    with others_keep(3) [of addr s b w t] s(1,4) b show ?thesis by (simp add: served_until_def sound_def)
  qed
  ultimately show "served_until K client x y t"
    using s(4) others_leave_test [OF b(2,1)] by (simp add: served_until_def)
qed

text \<open>Connecting.\<close>

lemma connect_served:
  assumes "sound w addr s" and "heard s"
  shows "served_at K client 0 (test_next ops (s\<lparr>hn_backlog := hn_backlog s @ [client], hn_made := hn_made s @ [client]\<rparr>))"
proof -
  have "sy_conns (hn_state s) = []"
    using steady_conns [of addr s] assms by (auto simp: sound_def heard_def fresh_def)
  with assms(2) show ?thesis by (simp add: heard_def fresh_def served_at_def served_def signalled_def test_next_def)
qed

lemma outline_connect_client:
  assumes "outline_ok w (sound w addr) xs post"
    and "\<And>s. sound w addr s \<Longrightarrow> served_at K client 0 s \<Longrightarrow> outline_next xs post s"
  shows "outline_ok w (sound w addr) ((TestConnect client, heard) # xs) post"
proof (rule outline_connect)
  show "outline_next xs post (test_next (map fst xs) (s\<lparr>hn_backlog := hn_backlog s @ [client], hn_made := hn_made s @ [client]\<rparr>))"
    if "sound w addr s" "heard s" for s
  proof (rule assms(2))
    show "served_at K client 0 (test_next (map fst xs) (s\<lparr>hn_backlog := hn_backlog s @ [client], hn_made := hn_made s @ [client]\<rparr>))"
      by (rule connect_served [OF that])
    show "sound w addr (test_next (map fst xs) (s\<lparr>hn_backlog := hn_backlog s @ [client], hn_made := hn_made s @ [client]\<rparr>))"
      using that by (auto simp: sound_def steady_def Let_def test_next_def)
  qed
qed (simp_all add: kept_heard assms(1))

text \<open>Sleeping, with the client connected.\<close>

lemma outline_sleep_until:
  assumes "outline_ok w (sound w addr) xs post"
    and "\<And>s. sound w addr s \<Longrightarrow> served_at K client (x + d) s \<Longrightarrow> outline_next xs post s"
  shows "outline_ok w (sound w addr) ((TestSleep d, served_until K client x (x + d)) # xs) post"
proof (rule outline_sleep)
  show "outline_next xs post (test_next (map fst xs) s)"
    if "sound w addr s" "served_until K client x (x + d) s" "hn_timer s = Some t" "t \<le> hn_now s" for s t
  proof (rule assms(2))
    show "served_at K client (x + d) (test_next (map fst xs) s)"
      using that by (auto simp: served_until_def served_at_def)
    show "sound w addr (test_next (map fst xs) s)"
      using that(1) by (simp add: sound_def steady_def test_next_def)
  qed
qed (auto simp: kept_until assms served_until_def)

end

lemma signalled_shutdown:
  "hn_state t = (hn_state s)\<lparr>sy_handle := handle_shutdown api (sy_handle (hn_state s))\<rparr> \<Longrightarrow> signalled t"
  by (simp add: signalled_def handle_simps)

text \<open>
  Shutting down and awaiting the server, which finishes without the clock having moved, and
  after any sleep its connections have ended.
\<close>

lemma outline_end:
  assumes "kept_by_others w (sound w addr) (TestShutdown # TestTimeout d server_finished #
      TestAssert (server_result is_ok) # map fst xs) pre" and "0 < d"
    and "outline_ok w (sound w addr) xs post"
    and "\<And>s. stopped s \<Longrightarrow> hn_timer s = None \<Longrightarrow> outline_next xs post s"
  shows "outline_ok w (sound w addr) ((TestShutdown, pre) # (TestTimeout d server_finished, stopping d) #
      (TestAssert (server_result is_ok), stopped) # xs) post"
proof (intro outline_shutdown outline_timeout outline_assert)
  show "kept_by_others w (sound w addr) (TestShutdown # map fst ((TestTimeout d server_finished, stopping d) #
      (TestAssert (server_result is_ok), stopped) # xs)) pre" using assms(1) by simp
  show "outline_next ((TestAssert (server_result is_ok), stopped) # xs) post (test_next ops s)"
    if "sound w addr s" "stopping d s" "server_finished (hn_state s)" for s ops
    using that by (cases "sy_serve (hn_state s)")
      (auto simp: stopping_def stopped_def server_finished_def server_result_def sound_def steady_def Let_def)
qed (use assms in \<open>auto simp: kept_stopping kept_stopped stopping_def stopped_def intro: signalled_shutdown\<close>)

lemma outline_sleep_stopped:
  assumes "0 < d" and "outline_ok w (sound w addr) xs post"
    and "\<And>s. all_ended s \<Longrightarrow> outline_next xs post s"
  shows "outline_ok w (sound w addr) ((TestSleep d, stopped_asleep d) # xs) post"
proof (rule outline_sleep)
  show "outline_next xs post (test_next ops s)"
    if "stopped_asleep d s" "hn_timer s = Some t" "t \<le> hn_now s" for s t ops
    using that assms(1) by (intro assms(3)) (auto simp: stage_defs)
qed (use assms in \<open>auto simp: kept_asleep stopped_asleep_def stopped_def\<close>)

text \<open>The count is that of the tasks that have not ended.\<close>

lemma done_not_live: "conn_done c \<Longrightarrow> \<not> conn_live c"
  by (simp add: conn_done_def conn_live_def)

lemma sound_count: "sound w addr s \<Longrightarrow> connection_count (sy_handle (hn_state s)) =
    of_nat (count_if conn_live (sy_conns (hn_state s)))"
  by (simp add: sound_def counted_def)

lemma count_ended:
  assumes "sound w addr s" and "all_ended s"
  shows "count_is 0 (hn_state s)"
proof -
  have "count_if conn_live (sy_conns (hn_state s)) = 0"
    using assms(2) done_not_live by (auto simp: count_if_0_iff all_ended_def)
  with sound_count [OF assms(1)] show ?thesis by (simp add: count_is_def)
qed

lemma drop_keeps:
  assumes "conn_phase c = PhDrop" and "tls_conn_step api cfg sv store fenv env h c f = (h', c', f')"
  shows "conn_phase c' = PhDrop" and "conn_done c \<Longrightarrow> conn_done c'" and "cn_log c' = cn_log c"
    and "cn_remote c' = cn_remote c"
proof -
  from assms(1) obtain d where d: "cn_pc c = CpDrop d"
    by (cases "cn_pc c") (simp_all add: conn_phase_def)
  with assms(2) have c': "c' = snd (conn_step api cfg env h c)" by (simp add: tls_conn_step_other)
  show "conn_phase c' = PhDrop" "cn_log c' = cn_log c" "cn_remote c' = cn_remote c"
    using d unfolding c' by (simp_all add: conn_step_def conn_goto_def conn_phase_def case_prod_beta)
  show "conn_done c \<Longrightarrow> conn_done c'" unfolding c' by (rule conn_done_stays)
qed

text \<open>A task that is accepting, while no signal is given.\<close>

lemma accept_keeps:
  assumes "conn_phase c = PhAccept" and "\<not> is_notified (hi_shutdown h)" and "\<not> is_notified (hi_graceful h)"
    and "tls_conn_step api cfg sv store fenv env h c f = (h', c', f')"
    and "fst (accept_poll sv store fenv f) \<noteq> Panics msg"
  shows "f' = (if cn_pc c = AccShutdown then accept_call sv store fenv f else f) \<and> conn_phase c' = PhAccept \<and> cn_log c' = cn_log c \<or>
    f' = snd (accept_poll sv store fenv f) \<and>
    (case fst (accept_poll sv store fenv f) of
       Returns Pending \<Rightarrow> conn_phase c' = PhAccept \<and> cn_log c' = cn_log c
     | Returns (Ready (Inl e)) \<Rightarrow> conn_phase c' = PhDrop \<and>
         cn_log c' = call_handler (cc_error_handler cfg) (Some (cn_remote c)) e (cn_log c)
     | Returns (Ready (Inr out)) \<Rightarrow> cn_log c' = cn_log c \<and>
         conn_phase c' = (if cc_first_request_timeout cfg = None then PhMain else PhFirst)
     | Panics msg \<Rightarrow> True)"
proof (cases "cn_pc c = AccAccept")
  case True
  with assms(4,5) show ?thesis
    by (auto simp: tls_conn_step_accept conn_step_def conn_phase_def conn_simps
        split: panicking.splits poll.splits sum.splits option.splits)
next
  case False
  then have "f' = (if cn_pc c = AccShutdown then accept_call sv store fenv f else f)"
    and c': "c' = snd (conn_step api cfg env h c)" using assms(4) by (auto simp: tls_conn_step_other)
  moreover have "conn_phase c' = PhAccept \<and> cn_log c' = cn_log c"
    using assms(1-3) False unfolding c'
    by (cases "cn_pc c") (simp_all add: conn_step_def conn_phase_def conn_simps split: poll.split)
  ultimately show ?thesis by blast
qed

lemma heard_stays: "heard s \<Longrightarrow> heard (test_next ops s)"
  by (simp add: heard_def fresh_def)

definition served_since ::
  "('a, 'f, 'fe, 'out) task_view \<Rightarrow> 'a \<Rightarrow> duration \<Rightarrow> ('a, 'n, 'f, 'fe, 'out, 'h) harness \<Rightarrow> bool" where
  "served_since K client x s \<longleftrightarrow> served K client s \<and> x \<le> hn_now s"

lemma served_at_since: "served_at K client x s \<Longrightarrow> served_since K client x (test_next ops s)"
  by (simp add: served_at_def served_since_def)

context silent_client begin

lemma kept_since: "kept_by_others w (sound w addr) ops (served_since K client x)"
proof (rule kept_by_othersI)
  fix s t b
  assume s: "steady addr s" "steady addr t" "served_since K client x s" "b \<noteq> HnTest" "harness_step w b s = Some t"
  have "hn_now s \<le> hn_now t"
    using others_keep(3) [OF s(1,4,5)] tick(3) [of w s t] s(5) by (cases "b = HnTick") auto
  with served_others [OF s(1,2) _ s(4,5)] s(3) show "served_since K client x t" by (simp add: served_since_def)
qed

end

lemma heard_uncounted:
  assumes "sound w addr s" and "heard s"
  shows "count_is 0 (hn_state s)"
proof -
  have "sy_conns (hn_state s) = []"
    using steady_conns [of addr s] assms by (auto simp: sound_def heard_def fresh_def)
  with sound_count [OF assms(1)] show ?thesis by (simp add: count_is_def)
qed

lemma ended_uncounted:
  assumes "sound w addr s" and "\<forall>c \<in> set (sy_conns (hn_state s)). conn_done c"
  shows "count_is 0 (hn_state s)"
proof -
  have "count_if conn_live (sy_conns (hn_state s)) = 0"
    using assms(2) done_not_live by (auto simp: count_if_0_iff)
  with sound_count [OF assms(1)] show ?thesis by (simp add: count_is_def)
qed

section \<open>The server of a test\<close>

text \<open>\<open>Server::serve\<close> takes the server apart; what the tasks of the connections use of it.\<close>

definition server_config :: "('acc, 'b, 'a, 'l, 'k) server \<Rightarrow> conn_config" where
  "server_config server = \<lparr>cc_http_version = sv_http_version server,
     cc_first_request_timeout = sv_first_request_timeout server,
     cc_error_handler = (sv_accept_error_handler server \<noteq> None)\<rparr>"

lemma server_parts [simp]:
  "sv_acceptor (server_handle handle server) = sv_acceptor server"
  "sv_acceptor (server_acceptor server' acceptor) = acceptor"
  "server_config (server_handle handle server) = server_config server"
  "server_config (server_acceptor server' acceptor) = server_config server'"
  by (simp_all add: server_handle_def server_acceptor_def server_config_def)

lemma served_stays: "served_at K client x s \<Longrightarrow> served_at K client x (test_next ops s)"
  by (auto simp: served_at_def)

lemma served_sleeps: "served_at K client x s \<Longrightarrow> served_until K client x y s"
  by (simp add: served_at_def served_until_def)

lemmas outline_facts =
  kept_ended kept_stopped count_ended stopped_rests served_stays served_sleeps

text \<open>For evaluating runs: until the server has spawned the task of the test's connection.\<close>

definition listens :: "harness_action list" where
  "listens = replicate 3 HnServe @ replicate 3 HnTest @ replicate 7 HnServe"

definition toy_builder :: "nat builder_api" where
  "toy_builder = \<lparr>bd_new = 0, bd_http1_timer = id, bd_header_read_timeout = (\<lambda>_. id), bd_http2_timer = id,
     bd_http1_only = id, bd_http2_only = id\<rparr>"

lemmas test_run_simps =
  harness_run_simps harness_step.simps test_step.simps listening_is_def count_is_def server_finished_def
  server_result_def server_config_def server_bind_def server_handle_def server_acceptor_def handle_alloc_def
  default_accept_def

end
