(* ===== verification/RustlsTests.thy ===== *)
theory RustlsTests
  imports SilentClient
begin

text \<open>
  Tests of \<open>src/src/tls_rustls/mod.rs\<close> whose client connects and never starts its handshake:
  each is a script of the theory \<open>TestHarness\<close> on the server that it builds, and is proved to
  pass in every interleaving of the tasks.
\<close>

section \<open>A client that does not start its handshake\<close>

text \<open>
  The handshake does not get on; the timeout around it elapses. \<open>DefaultAcceptor\<close> inside
  \<open>RustlsAcceptor\<close> is ready at once.
\<close>

definition stalled_handshake ::
  "'i \<Rightarrow> 's \<Rightarrow> string \<Rightarrow> 'h \<Rightarrow> duration \<Rightarrow> ('cfg, 'i, 's, 'tls, 'h) rustls_env" where
  "stalled_handshake stream service msg store age =
     \<lparr>re_inner = Ready (default_accept stream service), re_store = store,
      re_handshake = (\<lambda>_ _ timeout. if age < timeout then Pending else Ready (Inl msg))\<rparr>"

text \<open>A server with \<open>RustlsAcceptor\<close> to which such a client connects.\<close>

type_synonym ('a, 'n, 'cfg, 'i, 's, 'tls, 'h, 'p) rustls_world =
  "('a, 'n, ('cfg, 'i, 's) rustls_future, ('cfg, 'i, 's, 'tls, 'h) rustls_env, 'tls \<times> 's tls_service, 'h,
    ('cfg, 'p) rustls_op) world"

definition stalled_world where
  "stalled_world api ru sw conn cfg acceptor store bound stream service msg =
     \<lparr>wd_api = api, wd_cfg = cfg,
      wd_server = rustls_server ru sw conn acceptor, wd_store = store, wd_bind = Inr (),
      wd_addr = Inr bound, wd_fenv = stalled_handshake stream service msg store,
      wd_accept_timeout = Some (ra_handshake_timeout acceptor)\<rparr>"

text \<open>The future of the acceptor: not polled yet, or in the handshake.\<close>

definition stalled_future :: "'acc rustls_acceptor \<Rightarrow> 'i \<Rightarrow> 's \<Rightarrow> ('cfg, 'i, 's) rustls_future \<Rightarrow> bool" where
  "stalled_future acceptor stream service fut \<longleftrightarrow> fut = rustls_accept acceptor \<or>
     (\<exists>cfg. fut = \<lparr>rf_inner = RfAccept cfg stream (ra_handshake_timeout acceptor) (Some service), rf_config = None\<rparr>)"

text \<open>The task of the connection is in the handshake until the timeout, and then on its way out.\<close>

definition handshaking ::
  "'acc rustls_acceptor \<Rightarrow> 'i \<Rightarrow> 's \<Rightarrow> ('a, ('cfg, 'i, 's) rustls_future, 'fe, 'out) task_view" where
  "handshaking acceptor stream service now since c f \<longleftrightarrow>
     conn_phase c = PhAccept \<and> since = 0 \<and> now \<le> ra_handshake_timeout acceptor \<and>
       stalled_future acceptor stream service (ac_future f) \<or>
     conn_phase c = PhDrop \<and> ra_handshake_timeout acceptor \<le> now \<and>
       (conn_done c \<or> now \<le> ra_handshake_timeout acceptor)"

lemma stalled_poll:
  assumes "stalled_future acceptor stream service fut"
    and "rustls_poll sw conn ((stalled_handshake stream service msg store age)\<lparr>re_store := h\<rparr>) fut = (r, fut')"
  shows "if age < ra_handshake_timeout acceptor
    then r = Returns Pending \<and> stalled_future acceptor stream service fut'
    else r = Returns (Ready (Inl (IoError TimedOut msg)))"
  using assms
  by (auto simp: stalled_future_def rustls_accept_def rustls_future_new_def stalled_handshake_def default_accept_def
      rustls_poll_stages split: if_splits)

lemma stalled_accept_poll:
  assumes "tv_poll sv = rustls_poll sw conn" and "tv_env sv = (\<lambda>h env. env\<lparr>re_store := h\<rparr>)"
    and "stalled_future acceptor stream service (ac_future f)"
    and "p = accept_poll sv h (stalled_handshake stream service msg store age) f"
  shows "if age < ra_handshake_timeout acceptor
    then fst p = Returns Pending \<and> stalled_future acceptor stream service (ac_future (snd p))
    else fst p = Returns (Ready (Inl (IoError TimedOut msg)))"
proof -
  obtain r fut where poll: "rustls_poll sw conn ((stalled_handshake stream service msg store age)\<lparr>re_store := h\<rparr>)
      (ac_future f) = (r, fut)" by fastforce
  with stalled_poll [OF assms(3) poll] assms(1,2) show ?thesis by (auto simp: assms(4) accept_poll_def)
qed

lemma stalled_world_simps [simp]:
  "wd_cfg (stalled_world api ru sw conn cfg acceptor store bound stream service msg) = cfg"
  "tv_poll (wd_server (stalled_world api ru sw conn cfg acceptor store bound stream service msg)) = rustls_poll sw conn"
  "tv_env (wd_server (stalled_world api ru sw conn cfg acceptor store bound stream service msg)) = (\<lambda>h env. env\<lparr>re_store := h\<rparr>)"
  "tv_start (wd_server (stalled_world api ru sw conn cfg acceptor store bound stream service msg)) = rustls_accept acceptor"
  "wd_bind (stalled_world api ru sw conn cfg acceptor store bound stream service msg) = Inr ()"
  "wd_addr (stalled_world api ru sw conn cfg acceptor store bound stream service msg) = Inr bound"
  "wd_fenv (stalled_world api ru sw conn cfg acceptor store bound stream service msg) = stalled_handshake stream service msg store"
  "wd_accept_timeout (stalled_world api ru sw conn cfg acceptor store bound stream service msg) =
    Some (ra_handshake_timeout acceptor)"
  by (simp_all add: stalled_world_def rustls_server_def)

lemma lazy_world: "lazy_call (wd_server (stalled_world api ru sw conn cfg acceptor store bound stream service msg))"
  by (simp add: stalled_world_def)

interpretation rustls_silent: silent_client
    "stalled_world api ru sw conn cfg acceptor store bound stream service msg :: ('a, 'n, 'cfg, 'i, 's, 'tls, 'h, 'p) rustls_world"
    "handshaking acceptor stream service" bound client
  for api :: "'n notify_api" and ru and sw :: "('cfg, 'h) swap_api" and conn :: "'tls conn_api"
    and cfg and acceptor :: "'acc rustls_acceptor" and store bound stream service msg and client :: 'a
proof
  let ?w = "stalled_world api ru sw conn cfg acceptor store bound stream service msg :: ('a, 'n, 'cfg, 'i, 's, 'tls, 'h, 'p) rustls_world"
  let ?K = "handshaking acceptor stream service" and ?d = "ra_handshake_timeout acceptor"
  show "?K 0 0 (conn_spawn client) (accepting_new (wd_server ?w))"
    by (simp add: handshaking_def conn_spawn_def conn_phase_def accepting_new_def stalled_future_def)
  show "?K now (if conn_phase c' = conn_phase c then since else now) c' f'"
    if K: "?K now since c f" and "\<not> is_notified (hi_shutdown h)" "\<not> is_notified (hi_graceful h)"
      and step: "tls_conn_step (wd_api ?w) (wd_cfg ?w) (wd_server ?w) st (wd_fenv ?w (now - since)) (silent_env
        (case cc_first_request_timeout (wd_cfg ?w) of None \<Rightarrow> False | Some d \<Rightarrow> d \<le> now - since)) h c f = (h', c', f')"
    for now since c f st h h' c' f'
  proof (cases "conn_phase c = PhAccept")
    case True
    with K have J: "stalled_future acceptor stream service (ac_future f)" "now \<le> ?d" "since = 0"
      by (auto simp: handshaking_def)
    let ?p = "accept_poll (wd_server ?w) st (wd_fenv ?w (now - since)) f"
    have p: "if now < ?d then fst ?p = Returns Pending \<and> stalled_future acceptor stream service (ac_future (snd ?p))
      else fst ?p = Returns (Ready (Inl (IoError TimedOut msg)))"
      by (rule stalled_accept_poll [OF _ _ J(1)]) (simp_all add: J(3))
    then have "fst ?p \<noteq> Panics m" for m by (auto split: if_splits)
    from accept_keeps [OF True that(2,3) step this] p J True show ?thesis
      by (auto simp: handshaking_def lazy_future lazy_world split: if_splits)
  next
    case False
    with K drop_keeps [OF _ step] show ?thesis by (auto simp: handshaking_def)
  qed
  show "?K now' (hn_since s ! 0) (sy_conns (hn_state s) ! 0) (ts_accepts (hn_sys s) ! 0)"
    if K: "?K (hn_now s) (hn_since s ! 0) (sy_conns (hn_state s) ! 0) (ts_accepts (hn_sys s) ! 0)"
      and blocked: "conn_blocked ?w s 0" and "hn_now s < now'"
      and deadline: "\<forall>x. conn_deadline ?w s 0 = Some x \<and> hn_now s < x \<longrightarrow> now' \<le> x" for s now'
  proof (cases "conn_phase (sy_conns (hn_state s) ! 0) = PhAccept")
    case True
    with K have J: "stalled_future acceptor stream service (ac_future (ts_accepts (hn_sys s) ! 0))"
      "hn_since s ! 0 = 0" by (auto simp: handshaking_def)
    have "acceptor_pending ?w s 0" using blocked True by (simp add: conn_blocked_def Let_def)
    moreover have "if conn_age s 0 < ?d
        then fst (accept_poll (wd_server ?w) (ts_store (hn_sys s)) (wd_fenv ?w (conn_age s 0)) (ts_accepts (hn_sys s) ! 0)) =
            Returns Pending \<and> stalled_future acceptor stream service (ac_future (snd
              (accept_poll (wd_server ?w) (ts_store (hn_sys s)) (wd_fenv ?w (conn_age s 0)) (ts_accepts (hn_sys s) ! 0))))
        else fst (accept_poll (wd_server ?w) (ts_store (hn_sys s)) (wd_fenv ?w (conn_age s 0)) (ts_accepts (hn_sys s) ! 0)) =
          Returns (Ready (Inl (IoError TimedOut msg)))"
      by (rule stalled_accept_poll [OF _ _ J(1)]) simp_all
    ultimately have "hn_now s < ?d" using J(2) by (auto simp: acceptor_pending_def conn_age_def split: if_splits)
    with deadline True J(2) have "now' \<le> ?d" by (simp add: conn_deadline_def)
    with K True show ?thesis by (auto simp: handshaking_def)
  next
    case False
    with K have drop: "conn_phase (sy_conns (hn_state s) ! 0) = PhDrop" by (simp add: handshaking_def)
    with blocked have "conn_done (sy_conns (hn_state s) ! 0)" by (simp add: conn_blocked_def Let_def)
    with K drop that(3) show ?thesis by (auto simp: handshaking_def)
  qed
qed

subsection \<open>The handshake is cancelled by a shutdown\<close>

definition handshake_cancel_server where
  "handshake_cancel_server api bd addr config handle hp =
     (let acceptor = rustls_handshake_timeout (from_secs 30) (rustls_acceptor_new config);
          (server, hp) = server_bind api bd addr hp
      in server_handle handle (server_acceptor server acceptor))"

definition handshake_is_cancelled_on_shutdown :: "'a \<Rightarrow> ('a, 'n) test_op list" where
  "handshake_is_cancelled_on_shutdown client =
     [TestAwait listening_ready, TestAssert (listening_is (\<lambda>a. a \<noteq> None)), TestConnect client,
      TestSleep (from_millis 200), TestAssert (count_is 1),
      TestShutdown, TestTimeout (from_secs 2) server_finished, TestAssert (server_result is_ok),
      TestSleep (from_millis 300), TestAssert (count_is 0)]"

definition handshake_cancel_outline where
  "handshake_cancel_outline acceptor stream service client =
     [(TestAwait listening_ready, fresh), (TestAssert (listening_is (\<lambda>a. a \<noteq> None)), heard),
      (TestConnect client, heard),
      (TestSleep (from_millis 200), served_until (handshaking acceptor stream service) client 0 (0 + from_millis 200)),
      (TestAssert (count_is 1), served_at (handshaking acceptor stream service) client (from_millis 200)),
      (TestShutdown, served_at (handshaking acceptor stream service) client (from_millis 200)),
      (TestTimeout (from_secs 2) server_finished, stopping (from_secs 2)),
      (TestAssert (server_result is_ok), stopped),
      (TestSleep (from_millis 300), stopped_asleep (from_millis 300)), (TestAssert (count_is 0), all_ended)]"

lemma handshake_cancel_acceptor [simp]:
  "sv_acceptor (handshake_cancel_server api bd addr config handle hp) =
    rustls_handshake_timeout (from_secs 30) (rustls_acceptor_new config)"
  by (simp add: handshake_cancel_server_def case_prod_beta Let_def)

lemma handshake_counted:
  assumes "sound w addr s" and "served_at (handshaking acceptor stream service) client x s"
    and "0 < x" and "x < ra_handshake_timeout acceptor"
  shows "count_is (Suc 0) (hn_state s)"
proof -
  from assms(2,3) obtain c where c: "sy_conns (hn_state s) = [c]"
    by (auto simp: served_at_def served_def length_Suc_conv)
  with assms(2,4) have "conn_phase c = PhAccept" by (auto simp: served_at_def served_def handshaking_def)
  then have "conn_live c" by (cases "cn_pc c") (simp_all add: conn_phase_def conn_live_def)
  with sound_count [OF assms(1)] c show ?thesis by (simp add: count_is_def)
qed

interpretation handshake_cancel: harness_test
    "stalled_world api ru sw conn cfg (rustls_handshake_timeout (from_secs 30) (rustls_acceptor_new config)) store bound stream service msg
      :: ('a, 'n, 'cfg, 'i, 's, 'tls, 'h, 'p) rustls_world" bound
    "handshake_cancel_outline (rustls_handshake_timeout (from_secs 30) (rustls_acceptor_new config)) stream service client"
    all_ended
  for api :: "'n notify_api" and ru and sw :: "('cfg, 'h) swap_api" and conn and cfg config store and bound :: 'a
    and stream service msg client
proof
  let ?acceptor = "rustls_handshake_timeout (from_secs 30) (rustls_acceptor_new config)"
  let ?w = "stalled_world api ru sw conn cfg ?acceptor store bound stream service msg
      :: ('a, 'n, 'cfg, 'i, 's, 'tls, 'h, 'p) rustls_world"
  let ?o = "handshake_cancel_outline ?acceptor stream service client"
  show "wd_bind ?w = Inr ()" "wd_addr ?w = Inr bound" by simp_all
  show "outline_next ?o all_ended (harness_start ?w (map fst ?o))"
    by (simp add: handshake_cancel_outline_def fresh_def harness_start_def signalled_def tls_start_def sys_start_def handle_simps)
  have timeout: "ra_handshake_timeout ?acceptor = from_secs 30"
    by (simp add: rustls_handshake_timeout_def)
  have count: "count_is (Suc 0) (hn_state s)"
    if "sound ?w bound s" "served_at (handshaking ?acceptor stream service) client (from_millis 200) s"
    for s :: "('a, 'n, ('cfg, 'i, 's) rustls_future, ('cfg, 'i, 's, 'tls, 'h) rustls_env, 'tls \<times> 's tls_service, 'h) harness"
    using that by (rule handshake_counted) (simp_all add: timeout, simp add: from_millis_def from_secs_def)
  show "outline_ok ?w (sound ?w bound) ?o all_ended"
    unfolding handshake_cancel_outline_def
  proof (intro outline_listen rustls_silent.outline_connect_client rustls_silent.outline_sleep_until
      outline_end outline_sleep_stopped outline_assert rustls_silent.kept_at)
  qed (simp_all add: outline_facts count)
qed

text \<open>
  C12. The test \<open>handshake_is_cancelled_on_shutdown\<close> passes, however the tasks are scheduled: a
  client that connects and never starts its handshake is counted after 200 ms; after
  \<open>shutdown\<close> the server returns \<open>Ok\<close> before the clock moves, thus within the 2 seconds of the
  test, and 300 ms later the task of the connection has ended and the count is 0, long before
  the 30 seconds of the handshake timeout.
\<close>

theorem handshake_is_cancelled:
  assumes "server = handshake_cancel_server api bd addr config handle hp"
    and "w = stalled_world api ru sw conn (server_config server) (sv_acceptor server) store bound stream service msg"
    and "harness_reachable w (handshake_is_cancelled_on_shutdown client) s"
  shows "\<not> hn_failed s \<and> (idle w s \<longrightarrow> hn_script s = [] \<or> deadlines w s \<noteq> []) \<and>
    (hn_script s = [] \<longrightarrow> all_ended s \<and> count_is 0 (hn_state s))"
proof -
  have acceptor: "sv_acceptor server = rustls_handshake_timeout (from_secs 30) (rustls_acceptor_new config)"
    using assms(1) by simp
  have "map fst (handshake_cancel_outline (sv_acceptor server) stream service client) =
      handshake_is_cancelled_on_shutdown client"
    "\<forall>P. TestAwait P \<in> set (handshake_is_cancelled_on_shutdown client) \<longrightarrow> P = listening_ready"
    by (simp_all add: handshake_cancel_outline_def handshake_is_cancelled_on_shutdown_def)
  note test = handshake_cancel.test_passes [OF assms(3) [unfolded assms(2) acceptor] this [unfolded acceptor]]
  show ?thesis using test unfolding assms(2) acceptor by (auto intro: count_ended)
qed

definition toy_cancel_server :: "(unit rustls_acceptor, nat, nat, nat, nat) server" where
  "toy_cancel_server = handshake_cancel_server toy_api toy_builder (0 :: nat) \<lparr>rc_inner = 0\<rparr> 0 []"

definition toy_cancel_world :: "(nat, toy_notify, toy_cfg, nat, nat, toy_cfg, toy_cfg list, nat) rustls_world" where
  "toy_cancel_world = stalled_world toy_api toy_rustls toy_swap toy_conn (server_config toy_cancel_server)
     (sv_acceptor toy_cancel_server) [([], [])] 80 1 2 ''deadline has elapsed''"

lemmas stalled_run_simps =
  test_run_simps rustls_accept_def rustls_acceptor_new_def rustls_future_new_def rustls_poll_stages
  rustls_get_inner_def stalled_world_def stalled_handshake_def rustls_server_def toy_swap_def
  rustls_handshake_timeout_def toy_cancel_server_def toy_cancel_world_def handshake_cancel_server_def listens_def

definition cancel_run :: "harness_action list" where
  "cancel_run = listens @ [HnTest, HnTick, HnTest, HnTest, HnTest, HnServe, HnTest, HnTest, HnTest] @
     replicate 3 (HnConn 0) @ [HnTick, HnTest, HnTest]"

theorem handshake_is_cancelled_witness:
  "\<exists>s. harness_run toy_cancel_world cancel_run
       (harness_start toy_cancel_world (handshake_is_cancelled_on_shutdown 5)) = Some s \<and>
     hn_script s = [] \<and> \<not> hn_failed s \<and> hn_now s = from_millis 500 \<and> count_is 0 (hn_state s)"
proof -
  obtain s where s: "harness_run toy_cancel_world cancel_run
      (harness_start toy_cancel_world (handshake_is_cancelled_on_shutdown 5)) = Some s"
    "hn_script s = []" "hn_now s = from_millis 500"
    by (simp add: cancel_run_def stalled_run_simps handshake_is_cancelled_on_shutdown_def)
  from handshake_is_cancelled [OF toy_cancel_server_def toy_cancel_world_def harness_start_reachable [OF s(1)]] s
  show ?thesis by auto
qed

subsection \<open>The handshake times out\<close>

text \<open>
  Under \<open>cfg(test)\<close>, \<open>RustlsAcceptor::new\<close> sets a handshake timeout of one second.
\<close>

definition rustls_acceptor_new_test :: "rustls_config \<Rightarrow> unit rustls_acceptor" where
  "rustls_acceptor_new_test config = \<lparr>ra_inner = (), ra_config = config, ra_handshake_timeout = from_secs 1\<rparr>"

text \<open>\<open>start_server_with_config\<close>, with \<open>bind_rustls\<close> as it is compiled for the tests.\<close>

definition start_server_with_config where
  "start_server_with_config api bd addr config handle hp =
     (let acceptor = rustls_acceptor_new_test config;
          (server, hp) = server_bind api bd addr hp
      in server_handle handle (server_acceptor server acceptor))"

definition tls_timeout :: "'a \<Rightarrow> ('a, 'n) test_op list" where
  "tls_timeout client =
     [TestAwait listening_ready, TestAssert (listening_is (\<lambda>a. a \<noteq> None)), TestAssert (count_is 0),
      TestConnect client, TestSleep (from_millis 500), TestAssert (count_is 1),
      TestSleep (from_millis 1000), TestAssert (count_is 0)]"

definition tls_timeout_outline where
  "tls_timeout_outline acceptor stream service client =
     (let K = handshaking acceptor stream service
      in [(TestAwait listening_ready, fresh), (TestAssert (listening_is (\<lambda>a. a \<noteq> None)), heard),
          (TestAssert (count_is 0), heard), (TestConnect client, heard),
          (TestSleep (from_millis 500), served_until K client 0 (0 + from_millis 500)),
          (TestAssert (count_is 1), served_at K client (0 + from_millis 500)),
          (TestSleep (from_millis 1000),
             served_until K client (0 + from_millis 500) (0 + from_millis 500 + from_millis 1000)),
          (TestAssert (count_is 0), served_at K client (0 + from_millis 500 + from_millis 1000))])"

lemma handshake_over:
  assumes "served (handshaking acceptor stream service) client s" and "ra_handshake_timeout acceptor < hn_now s"
  shows "\<forall>c \<in> set (sy_conns (hn_state s)). conn_done c"
  using assms by (force simp: served_def handshaking_def in_set_conv_nth)

interpretation tls_timeout: harness_test
    "stalled_world api ru sw conn cfg (rustls_acceptor_new_test config) store bound stream service msg
      :: ('a, 'n, 'cfg, 'i, 's, 'tls, 'h, 'p) rustls_world" bound
    "tls_timeout_outline (rustls_acceptor_new_test config) stream service client"
    "served_since (handshaking (rustls_acceptor_new_test config) stream service) client (from_millis 1500)"
  for api :: "'n notify_api" and ru and sw :: "('cfg, 'h) swap_api" and conn and cfg config store and bound :: 'a
    and stream service msg client
proof
  let ?acceptor = "rustls_acceptor_new_test config"
  let ?w = "stalled_world api ru sw conn cfg ?acceptor store bound stream service msg
      :: ('a, 'n, 'cfg, 'i, 's, 'tls, 'h, 'p) rustls_world"
  let ?o = "tls_timeout_outline ?acceptor stream service client" and ?K = "handshaking ?acceptor stream service"
  show "wd_bind ?w = Inr ()" "wd_addr ?w = Inr bound" by simp_all
  show "outline_next ?o (served_since ?K client (from_millis 1500)) (harness_start ?w (map fst ?o))"
    by (simp add: tls_timeout_outline_def Let_def fresh_def harness_start_def signalled_def tls_start_def sys_start_def handle_simps)
  have times: "ra_handshake_timeout ?acceptor = from_secs 1"
      "from_millis 500 + from_millis 1000 = from_millis 1500"
    by (simp_all add: rustls_acceptor_new_test_def from_millis_def)
  have counted: "count_is (Suc 0) (hn_state s)"
    if "sound ?w bound s" "served_at ?K client (from_millis 500) s"
    for s :: "('a, 'n, ('cfg, 'i, 's) rustls_future, ('cfg, 'i, 's, 'tls, 'h) rustls_env, 'tls \<times> 's tls_service, 'h) harness"
    using that by (rule handshake_counted) (simp_all add: times, simp add: from_millis_def from_secs_def)
  have over: "count_is 0 (hn_state s)"
    if "sound ?w bound s" "served_at ?K client (from_millis 1500) s"
    for s :: "('a, 'n, ('cfg, 'i, 's) rustls_future, ('cfg, 'i, 's, 'tls, 'h) rustls_env, 'tls \<times> 's tls_service, 'h) harness"
    by (rule ended_uncounted [OF that(1)], rule handshake_over [where acceptor = ?acceptor and stream = stream
        and service = service and client = client])
      (use that(2) in \<open>simp_all add: served_at_def times from_millis_def from_secs_def\<close>)
  show "outline_ok ?w (sound ?w bound) ?o (served_since ?K client (from_millis 1500))"
    unfolding tls_timeout_outline_def Let_def
  proof (intro outline_listen outline_assert [where pre = heard] rustls_silent.outline_connect_client
      rustls_silent.outline_sleep_until outline_assert rustls_silent.kept_at)
  qed (simp_all add: outline_facts counted over times heard_uncounted kept_heard heard_stays
      rustls_silent.kept_since served_at_since)
qed

text \<open>
  C24. The test \<open>tls_timeout\<close> passes, however the tasks are scheduled: nothing is counted before
  the client connects; a client that does not start its handshake is counted after 500 ms, and
  1.5 s after it has connected the handshake timeout of one second has ended its task and the
  count is back at 0.
\<close>

theorem tls_timeout_passes:
  assumes "server = start_server_with_config api bd addr config handle hp"
    and "w = stalled_world api ru sw conn (server_config server) (sv_acceptor server) store bound stream service msg"
    and "harness_reachable w (tls_timeout client) s"
  shows "\<not> hn_failed s \<and> (idle w s \<longrightarrow> hn_script s = [] \<or> deadlines w s \<noteq> []) \<and>
    (hn_script s = [] \<longrightarrow> from_millis 1500 \<le> hn_now s \<and> (\<forall>c \<in> set (sy_conns (hn_state s)). conn_done c) \<and>
       count_is 0 (hn_state s))"
proof -
  have acceptor: "sv_acceptor server = rustls_acceptor_new_test config"
    using assms(1) by (simp add: start_server_with_config_def case_prod_beta Let_def)
  have "map fst (tls_timeout_outline (sv_acceptor server) stream service client) = tls_timeout client"
    "\<forall>P. TestAwait P \<in> set (tls_timeout client) \<longrightarrow> P = listening_ready"
    by (simp_all add: tls_timeout_outline_def tls_timeout_def Let_def)
  note test = tls_timeout.test_passes [OF assms(3) [unfolded assms(2) acceptor] this [unfolded acceptor]]
  have timeout: "ra_handshake_timeout (rustls_acceptor_new_test config) < from_millis 1500"
    by (simp add: rustls_acceptor_new_test_def from_millis_def from_secs_def)
  have "\<forall>c \<in> set (sy_conns (hn_state s)). conn_done c"
    if "served (handshaking (rustls_acceptor_new_test config) stream service) client s" "from_millis 1500 \<le> hn_now s"
    using handshake_over [OF that(1)] that(2) timeout by simp
  with test ended_uncounted [OF test(4)] show ?thesis unfolding assms(2) acceptor by (simp add: served_since_def)
qed

definition toy_timeout_server :: "(unit rustls_acceptor, nat, nat, nat, nat) server" where
  "toy_timeout_server = start_server_with_config toy_api toy_builder (0 :: nat) \<lparr>rc_inner = 0\<rparr> 0 []"

definition toy_timeout_world :: "(nat, toy_notify, toy_cfg, nat, nat, toy_cfg, toy_cfg list, nat) rustls_world" where
  "toy_timeout_world = stalled_world toy_api toy_rustls toy_swap toy_conn (server_config toy_timeout_server)
     (sv_acceptor toy_timeout_server) [([], [])] 80 1 2 ''deadline has elapsed''"

definition timeout_run :: "harness_action list" where
  "timeout_run = replicate 3 HnServe @ replicate 4 HnTest @ replicate 7 HnServe @ replicate 3 (HnConn 0) @
     [HnTest, HnTick, HnTest, HnTest, HnTest, HnTick] @ replicate 6 (HnConn 0) @ [HnTick, HnTest, HnTest]"

theorem tls_timeout_passes_witness:
  "\<exists>s. harness_run toy_timeout_world timeout_run (harness_start toy_timeout_world (tls_timeout 5)) = Some s \<and>
     hn_script s = [] \<and> \<not> hn_failed s \<and> hn_now s = from_millis 1500 \<and> count_is 0 (hn_state s)"
proof -
  obtain s where s: "harness_run toy_timeout_world timeout_run
      (harness_start toy_timeout_world (tls_timeout 5)) = Some s"
    "hn_script s = []" "hn_now s = from_millis 1500"
    by (simp add: timeout_run_def stalled_run_simps tls_timeout_def toy_timeout_world_def toy_timeout_server_def
        start_server_with_config_def rustls_acceptor_new_test_def)
  from tls_timeout_passes [OF toy_timeout_server_def toy_timeout_world_def harness_start_reachable [OF s(1)]] s
  show ?thesis by auto
qed

end
