(* ===== verification/ServerTests.thy ===== *)
theory ServerTests
  imports SilentClient
begin

text \<open>
  Tests of \<open>src/src/server.rs\<close> whose client connects and stays silent, or that have no client:
  each is a script of the theory \<open>TestHarness\<close> on the server that it builds, and is proved to
  pass in every interleaving of the tasks.
\<close>

section \<open>Acceptors that are ready at once\<close>

type_synonym ('a, 'n, 'i, 's, 'out) ready_world = "('a, 'n, 'out io_result option, 'i \<times> 's, 'out, unit, unit) world"

definition ready_world ::
  "'n notify_api \<Rightarrow> conn_config \<Rightarrow> ('i \<Rightarrow> 's \<Rightarrow> 'out io_result) \<Rightarrow> unit io_result \<Rightarrow> 'a \<Rightarrow> 'i \<Rightarrow> 's \<Rightarrow>
   ('a, 'n, 'i, 's, 'out) ready_world" where
  "ready_world api cfg accept binds bound stream service =
     \<lparr>wd_api = api, wd_cfg = cfg, wd_server = ready_server accept, wd_store = (), wd_bind = binds,
      wd_addr = Inr bound, wd_fenv = (\<lambda>_. (stream, service)), wd_accept_timeout = None\<rparr>"

lemma ready_world_simps [simp]:
  "wd_cfg (ready_world api cfg accept binds bound stream service) = cfg"
  "wd_bind (ready_world api cfg accept binds bound stream service) = binds"
  "wd_addr (ready_world api cfg accept binds bound stream service) = Inr bound"
  "wd_fenv (ready_world api cfg accept binds bound stream service) = (\<lambda>_. (stream, service))"
  "wd_accept_timeout (ready_world api cfg accept binds bound stream service) = None"
  by (simp_all add: ready_world_def)

lemma ready_not_pending: "\<not> acceptor_pending (ready_world api cfg accept binds bound stream service) s i"
  by (simp add: acceptor_pending_def ready_world_def accept_poll_def ready_server_def split: option.split)

text \<open>The task has called the acceptor by the time it polls the future.\<close>

definition ready_called :: "'out io_result \<Rightarrow> 'a conn \<Rightarrow> ('out io_result option, 'fe, 'out) accepting \<Rightarrow> bool" where
  "ready_called r c f \<longleftrightarrow> (if ac_called f = None then cn_pc c = AccShutdown else ac_future f = Some r)"

lemma ready_accept_step:
  assumes "conn_phase c = PhAccept" and "\<not> is_notified (hi_shutdown h)" and "\<not> is_notified (hi_graceful h)"
    and "tls_conn_step api cfg (ready_server accept) store (stream, service) env h c f = (h', c', f')"
    and "ready_called (accept stream service) c f"
  shows "conn_phase c' = PhAccept \<and> cn_log c' = cn_log c \<and> ready_called (accept stream service) c' f' \<or>
    (case accept stream service of
       Inl e \<Rightarrow> conn_phase c' = PhDrop \<and>
         cn_log c' = call_handler (cc_error_handler cfg) (Some (cn_remote c)) e (cn_log c)
     | Inr out \<Rightarrow> cn_log c' = cn_log c \<and>
         conn_phase c' = (if cc_first_request_timeout cfg = None then PhMain else PhFirst))"
proof (cases "cn_pc c = AccAccept")
  case True
  with assms(5) have "ac_future f = Some (accept stream service)" by (auto simp: ready_called_def split: if_splits)
  with True assms(4) show ?thesis
    by (cases "accept stream service")
      (auto simp: tls_conn_step_accept accept_poll_def ready_server_def conn_step_def conn_phase_def conn_simps
        split: option.splits)
next
  case False
  with assms(4) have f': "f' = (if cn_pc c = AccShutdown then accept_call (ready_server accept) store (stream, service) f else f)"
    and c': "c' = snd (conn_step api cfg env h c)" by (auto simp: tls_conn_step_other)
  have "conn_phase c' = PhAccept \<and> cn_log c' = cn_log c \<and> ready_called (accept stream service) c' f'"
    using assms(1-3,5) False unfolding c' f'
    by (cases "cn_pc c"; cases "ac_called f")
      (auto simp: conn_step_def conn_phase_def conn_simps ready_called_def accept_call_def ready_server_def Let_def
        split: poll.split)
  then show ?thesis by blast
qed

lemma ready_world_server [simp]:
  "wd_server (ready_world api cfg accept binds bound stream service) = ready_server accept"
  by (simp add: ready_world_def)

section \<open>The first request does not come\<close>

abbreviation request_config :: "http_version option \<Rightarrow> duration \<Rightarrow> bool \<Rightarrow> conn_config" where
  "request_config v d eh \<equiv>
     \<lparr>cc_http_version = v, cc_first_request_timeout = Some d, cc_error_handler = eh\<rparr>"

text \<open>
  \<open>DefaultAcceptor\<close>: the task waits for the first request until the timeout, and is then on
  its way out.
\<close>

definition awaiting_request ::
  "'out io_result \<Rightarrow> duration \<Rightarrow> ('a, 'out io_result option, 'fe, 'out) task_view" where
  "awaiting_request r d now since c f \<longleftrightarrow>
     conn_phase c = PhAccept \<and> since = 0 \<and> now = 0 \<and> ready_called r c f \<or>
     conn_phase c = PhFirst \<and> since = 0 \<and> now \<le> d \<or>
     conn_phase c = PhDrop \<and> d \<le> now \<and> (conn_done c \<or> now \<le> d)"

lemma first_keeps:
  assumes "conn_phase c = PhFirst" and "\<not> is_notified (hi_shutdown h)" and "\<not> is_notified (hi_graceful h)"
    and "tls_conn_step api cfg sv store fenv (silent_env overdue) h c f = (h', c', f')"
  shows "conn_phase c' = PhFirst \<or> overdue \<and> conn_phase c' = PhDrop"
proof -
  have "cn_pc c \<noteq> AccAccept" using assms(1) by (auto simp: conn_phase_def)
  then have c': "c' = snd (conn_step api cfg (silent_env overdue) h c)"
    using assms(4) by (simp add: tls_conn_step_other)
  show ?thesis
    using assms(1-3) unfolding c'
    by (cases "cn_pc c") (auto simp: conn_step_def conn_phase_def conn_simps silent_env_def split: poll.split)
qed

interpretation request_silent: silent_client
    "ready_world api (request_config v d eh) (default_accept :: 'i \<Rightarrow> 's \<Rightarrow> _) (Inr ()) bound stream service"
    "awaiting_request (default_accept stream service) d" bound client
  for api :: "'n notify_api" and v d eh and bound client :: 'a and stream service
proof
  let ?w = "ready_world api (request_config v d eh) (default_accept :: 'i \<Rightarrow> 's \<Rightarrow> _) (Inr ()) bound stream service" and ?K = "awaiting_request (default_accept stream service) d"
  show "?K 0 0 (conn_spawn client) (accepting_new (wd_server ?w))"
    by (simp add: awaiting_request_def ready_called_def conn_spawn_def conn_phase_def accepting_new_def)
  show "?K now (if conn_phase c' = conn_phase c then since else now) c' f'"
    if K: "?K now since c f" and quiet: "\<not> is_notified (hi_shutdown h)" "\<not> is_notified (hi_graceful h)"
      and step: "tls_conn_step (wd_api ?w) (wd_cfg ?w) (wd_server ?w) st (wd_fenv ?w (now - since)) (silent_env
        (case cc_first_request_timeout (wd_cfg ?w) of None \<Rightarrow> False | Some d \<Rightarrow> d \<le> now - since)) h c f = (h', c', f')"
    for now since c f st h h' c' f'
  proof (cases "conn_phase c")
    case PhAccept
    with K have "ready_called (default_accept stream service) c f" by (simp add: awaiting_request_def)
    from ready_accept_step [OF PhAccept quiet step [unfolded ready_world_server ready_world_simps] this] K PhAccept show ?thesis
      by (auto simp: awaiting_request_def default_accept_def)
  next
    case PhFirst
    with first_keeps [OF PhFirst quiet step] K show ?thesis
      by (auto simp: awaiting_request_def)
  next
    case PhDrop
    with drop_keeps [OF PhDrop step] K show ?thesis by (auto simp: awaiting_request_def)
  qed (use K in \<open>auto simp: awaiting_request_def\<close>)
  show "?K now' (hn_since s ! 0) (sy_conns (hn_state s) ! 0) (ts_accepts (hn_sys s) ! 0)"
    if K: "?K (hn_now s) (hn_since s ! 0) (sy_conns (hn_state s) ! 0) (ts_accepts (hn_sys s) ! 0)"
      and blocked: "conn_blocked ?w s 0" and "hn_now s < now'"
      and deadline: "\<forall>x. conn_deadline ?w s 0 = Some x \<and> hn_now s < x \<longrightarrow> now' \<le> x" for s now'
    using K blocked deadline \<open>hn_now s < now'\<close>
    by (auto simp: awaiting_request_def conn_blocked_def Let_def ready_not_pending request_overdue_def conn_age_def
        conn_deadline_def)
qed

text \<open>The client reads from the connection, with a timeout, until the server has closed it.\<close>

definition reading :: "('a, 'f, 'fe, 'out) task_view \<Rightarrow> 'a \<Rightarrow> duration \<Rightarrow> duration \<Rightarrow>
   ('a, 'n, 'f, 'fe, 'out, 'h) harness \<Rightarrow> bool" where
  "reading K client d x s \<longleftrightarrow> served K client s \<and> hn_now s \<le> d \<and> hn_tries s = 0 \<and>
     (hn_timer s = None \<and> hn_now s = 0 \<or> hn_timer s = Some x)"

lemma sound_open:
  assumes "sound w addr s" and "c \<in> set (sy_conns (hn_state s))"
  shows "cn_stream_open c \<longleftrightarrow> conn_phase c \<noteq> PhDrop"
  using assms by (simp add: sound_def counted_def conn_wf_def)

lemma kept_reading:
  fixes w :: "('a, 'n, 'i, 's, 'i \<times> 's) ready_world"
  assumes w: "w = ready_world api (request_config v d eh) default_accept (Inr ()) bound stream service"
  shows "kept_by_others w (sound w bound) (TestTimeout y client_closed # ops) (reading (awaiting_request (default_accept stream service) d) client d x)"
  unfolding kept_by_others_def
proof (intro allI impI; elim conjE)
  fix s t :: "('a, 'n, ('i \<times> 's) io_result option, 'i \<times> 's, 'i \<times> 's, unit) harness" and b
  assume s: "sound w bound s" "sound w bound t" "hn_script s = TestTimeout y client_closed # ops"
      "reading (awaiting_request (default_accept stream service) d) client d x s" "\<not> hn_failed s"
    and b: "b \<noteq> HnTest" "harness_step w b s = Some t"
  have st: "steady bound s" "steady bound t" "served (awaiting_request (default_accept stream service) d) client s"
    using s by (simp_all add: sound_def reading_def)
  have served: "served (awaiting_request (default_accept stream service) d) client t"
    using b(2) unfolding w by (rule request_silent.served_others [OF st b(1)])
  have "hn_now t \<le> d \<and> (hn_timer s = None \<longrightarrow> hn_now t = hn_now s)"
  proof (cases "b = HnTick")
    case True
    note step = b(2) [unfolded True]
    have blocked: "test_blocked s" and idle: "idle w s" using no_tick [OF step] tick(1) [OF step] by auto
    have timer: "hn_timer s \<noteq> None" using blocked s(3,5) by (auto simp: test_blocked_def timer_running_def split: option.splits)
    have "length (sy_conns (hn_state s)) = 1"
      using idle_all_accepted [OF st(1) idle] st(3) by (simp add: served_def signalled_def)
    then obtain c where c: "sy_conns (hn_state s) = [c]" by (auto simp: length_Suc_conv)
    have "conn_phase c \<noteq> PhDrop"
      using blocked s(3,5) c sound_open [OF s(1), of c] by (auto simp: test_blocked_def client_closed_def)
    moreover have "conn_blocked w s 0" using idle_blocked [OF idle] c by simp
    ultimately have first: "conn_phase c = PhFirst" "hn_since s ! 0 = 0" "hn_now s < d"
      using st(3) c by (auto simp: w served_def awaiting_request_def conn_blocked_def Let_def ready_not_pending
          request_overdue_def conn_age_def)
    then have "conn_deadline w s 0 = Some d" using c by (simp add: w conn_deadline_def)
    with tick(5) [OF step, of 0 d] first(3) c timer show ?thesis by auto
  next
    case False
    with others_keep(3) [OF st(1) b(1,2)] s(4) show ?thesis by (simp add: reading_def)
  qed
  with served s(4) others_leave_test [OF b(2,1)] show "reading (awaiting_request (default_accept stream service) d) client d x t"
    by (auto simp: reading_def)
qed

lemma closed_at_timeout:
  assumes "sound w addr s" and "reading (awaiting_request r d) client d x s" and "client_closed (hn_state s)"
  shows "served_at (awaiting_request r d) client d (test_next ops s)"
proof -
  from assms(3) obtain c cs where c: "sy_conns (hn_state s) = c # cs" "\<not> cn_stream_open c"
    by (auto simp: client_closed_def split: list.splits)
  with sound_open [OF assms(1), of c] have "conn_phase c = PhDrop" by simp
  with assms(2) c(1) have "d \<le> hn_now s" by (auto simp: reading_def served_def awaiting_request_def)
  with assms(2) show ?thesis by (simp add: reading_def served_at_def)
qed

lemma reading_begins: "served_at K client 0 s \<Longrightarrow> reading K client d x s"
  by (simp add: served_at_def reading_def)

lemma reading_sets: "reading K client d x s \<Longrightarrow> hn_timer s = None \<Longrightarrow> reading K client d x (s\<lparr>hn_timer := Some (hn_now s + x)\<rparr>)"
  by (auto simp: reading_def)

lemma reading_not_late: "reading K client d x s \<Longrightarrow> d < x \<Longrightarrow> hn_timer s = Some t \<Longrightarrow> hn_now s < t"
  by (auto simp: reading_def)

lemma one_second: "from_millis 100 < from_secs (Suc 0)" "0 < from_secs (Suc 0)"
  by (simp_all add: from_millis_def from_secs_def)

lemma request_over:
  assumes "sound w addr s" and "served_at (awaiting_request r d) client x s" and "d < x"
  shows "count_is 0 (hn_state s)"
  using assms by (intro ended_uncounted) (force simp: served_at_def served_def awaiting_request_def in_set_conv_nth)+

definition first_request_timeout_server where
  "first_request_timeout_server api bd addr handle hp =
     (let (server, hp) = server_bind api bd addr hp
      in server_handle handle (first_request_timeout (Some (from_millis 100)) server))"

definition first_request_timeout_closes_idle_connection :: "'a \<Rightarrow> ('a, 'n) test_op list" where
  "first_request_timeout_closes_idle_connection client =
     [TestAwait listening_ready, TestAssert (listening_is (\<lambda>a. a \<noteq> None)), TestConnect client,
      TestTimeout (from_secs 1) client_closed, TestSleep (from_millis 100), TestAssert (count_is 0),
      TestShutdown, TestTimeout (from_secs 1) server_finished, TestAssert (server_result is_ok)]"

definition idle_connection_outline where
  "idle_connection_outline r client =
     (let d = from_millis 100; K = awaiting_request r d
      in [(TestAwait listening_ready, fresh), (TestAssert (listening_is (\<lambda>a. a \<noteq> None)), heard),
          (TestConnect client, heard),
          (TestTimeout (from_secs 1) client_closed, reading K client d (from_secs 1)),
          (TestSleep (from_millis 100), served_until K client d (d + from_millis 100)),
          (TestAssert (count_is 0), served_at K client (d + from_millis 100)),
          (TestShutdown, served_at K client (d + from_millis 100)),
          (TestTimeout (from_secs 1) server_finished, stopping (from_secs 1)),
          (TestAssert (server_result is_ok), stopped)])"

interpretation idle_connection: harness_test
    "ready_world api (request_config v (from_millis 100) eh) (default_accept :: 'i \<Rightarrow> 's \<Rightarrow> _) (Inr ()) bound stream service"
    bound "idle_connection_outline (default_accept stream service) client" stopped
  for api :: "'n notify_api" and v eh and bound client :: 'a and stream service
proof
  let ?w = "ready_world api (request_config v (from_millis 100) eh) (default_accept :: 'i \<Rightarrow> 's \<Rightarrow> _) (Inr ()) bound stream service"
  let ?o = "idle_connection_outline (default_accept stream service) client :: ('a, 'n, ('i \<times> 's) io_result option, 'i \<times> 's, 'i \<times> 's, unit) outline"
  show "wd_bind ?w = Inr ()" "wd_addr ?w = Inr bound" by simp_all
  show "outline_next ?o stopped (harness_start ?w (map fst ?o))"
    by (simp add: idle_connection_outline_def Let_def fresh_def harness_start_def signalled_def tls_start_def sys_start_def handle_simps)
  show "outline_ok ?w (sound ?w bound) ?o stopped"
    unfolding idle_connection_outline_def Let_def
  proof (intro outline_listen request_silent.outline_connect_client outline_timeout kept_reading refl
      request_silent.outline_sleep_until outline_assert request_silent.kept_at outline_end)
  qed (auto simp: outline_facts request_over one_second intro: served_sleeps closed_at_timeout reading_begins
      reading_sets [where x = "from_secs (Suc 0)"] reading_not_late [where x = "from_secs (Suc 0)"])
qed

text \<open>
  C22. The test \<open>first_request_timeout_closes_idle_connection\<close> passes, however the tasks are
  scheduled: a client that sends no request finds its connection closed within the second it
  waits for it (the timeout is 100 ms), 100 ms later the connection is no longer counted, and
  after \<open>shutdown\<close> the server returns \<open>Ok\<close> within a second.
\<close>

theorem first_request_timeout_closes_idle:
  assumes "server = first_request_timeout_server api bd addr handle hp"
    and "w = ready_world api (server_config server) default_accept (Inr ()) bound stream service"
    and "harness_reachable w (first_request_timeout_closes_idle_connection client) s"
  shows "\<not> hn_failed s \<and> (idle w s \<longrightarrow> hn_script s = [] \<or> deadlines w s \<noteq> []) \<and>
    (hn_script s = [] \<longrightarrow> server_result is_ok (hn_state s))"
proof -
  have cfg: "server_config server = request_config None (from_millis 100) False"
    by (simp add: assms(1) first_request_timeout_server_def server_bind_def first_request_timeout_def server_config_def
        server_handle_def handle_alloc_def)
  have "map fst (idle_connection_outline (default_accept stream service) client) = first_request_timeout_closes_idle_connection client"
    "\<forall>P. TestAwait P \<in> set (first_request_timeout_closes_idle_connection client) \<longrightarrow> P = listening_ready"
    by (simp_all add: idle_connection_outline_def first_request_timeout_closes_idle_connection_def Let_def)
  from idle_connection.test_passes [OF assms(3) [unfolded assms(2) cfg] this]
  show ?thesis unfolding assms(2) cfg by (simp add: stopped_def)
qed

definition toy_request_server :: "(unit, nat, nat, nat, nat) server" where
  "toy_request_server = first_request_timeout_server toy_api toy_builder (0 :: nat) 0 []"

definition toy_request_world :: "(nat, toy_notify, nat, nat, nat \<times> nat) ready_world" where
  "toy_request_world = ready_world toy_api (server_config toy_request_server) default_accept (Inr ()) 80 1 2"

lemmas ready_run_simps = test_run_simps ready_world_def ready_server_def listens_def

definition request_run :: "harness_action list" where
  "request_run = listens @ replicate 3 (HnConn 0) @ [HnTest, HnTick] @ replicate 6 (HnConn 0) @
     [HnTest, HnTest, HnTick] @ replicate 3 HnTest @ [HnServe, HnTest, HnTest]"

theorem first_request_timeout_closes_idle_witness:
  "\<exists>s. harness_run toy_request_world request_run
       (harness_start toy_request_world (first_request_timeout_closes_idle_connection 5)) = Some s \<and>
     hn_script s = [] \<and> \<not> hn_failed s \<and> hn_now s = from_millis 200 \<and> server_result is_ok (hn_state s)"
proof -
  obtain s where s: "harness_run toy_request_world request_run
      (harness_start toy_request_world (first_request_timeout_closes_idle_connection 5)) = Some s"
    "hn_script s = []" "hn_now s = from_millis 200"
    by (simp add: request_run_def ready_run_simps toy_request_world_def toy_request_server_def
        first_request_timeout_server_def first_request_timeout_def first_request_timeout_closes_idle_connection_def
        client_closed_def)
  from first_request_timeout_closes_idle [OF toy_request_server_def toy_request_world_def harness_start_reachable [OF s(1)]] s
  show ?thesis by auto
qed

section \<open>The acceptor fails\<close>

text \<open>\<open>FailingAcceptor\<close> of the test.\<close>

definition acceptor_failed :: io_error where
  "acceptor_failed = io_other ''acceptor failed''"

definition failing_accept :: "'i \<Rightarrow> 's \<Rightarrow> ('i \<times> 's) io_result" where
  "failing_accept stream service = Inl acceptor_failed"

text \<open>The task reports the error and is on its way out, before the clock moves.\<close>

definition failing :: "'a \<Rightarrow> ('a, 'out io_result option, 'fe, 'out) task_view" where
  "failing client now since c f \<longleftrightarrow>
     conn_phase c = PhAccept \<and> now = 0 \<and> cn_log c = [] \<and> ready_called (Inl acceptor_failed) c f \<or>
     conn_phase c = PhDrop \<and> cn_log c = [(Some client, acceptor_failed)] \<and> (conn_done c \<or> now = 0)"

abbreviation handler_config :: "http_version option \<Rightarrow> duration option \<Rightarrow> conn_config" where
  "handler_config v d \<equiv> \<lparr>cc_http_version = v, cc_first_request_timeout = d, cc_error_handler = True\<rparr>"

interpretation failing_silent: silent_client
    "ready_world api (handler_config v d) (failing_accept :: 'i \<Rightarrow> 's \<Rightarrow> _) (Inr ()) bound stream service"
    "failing client" bound client
  for api :: "'n notify_api" and v d and bound client :: 'a and stream service
proof
  let ?w = "ready_world api (handler_config v d) (failing_accept :: 'i \<Rightarrow> 's \<Rightarrow> _) (Inr ()) bound stream service"
  let ?K = "failing client"
  show "?K 0 0 (conn_spawn client) (accepting_new (wd_server ?w))"
    by (simp add: failing_def ready_called_def conn_spawn_def conn_phase_def accepting_new_def)
  show "?K now (if conn_phase c' = conn_phase c then since else now) c' f'"
    if K: "?K now since c f" and remote: "cn_remote c = client"
      and quiet: "\<not> is_notified (hi_shutdown h)" "\<not> is_notified (hi_graceful h)"
      and step: "tls_conn_step (wd_api ?w) (wd_cfg ?w) (wd_server ?w) st (wd_fenv ?w (now - since)) (silent_env
        (case cc_first_request_timeout (wd_cfg ?w) of None \<Rightarrow> False | Some d \<Rightarrow> d \<le> now - since)) h c f = (h', c', f')"
    for now since c f st h h' c' f'
  proof (cases "conn_phase c = PhAccept")
    case True
    with K have "ready_called (failing_accept stream service) c f" by (simp add: failing_def failing_accept_def)
    from ready_accept_step [OF True quiet step [unfolded ready_world_server ready_world_simps] this] K True remote show ?thesis
      by (auto simp: failing_def failing_accept_def call_handler_def)
  next
    case False
    with K have "conn_phase c = PhDrop" by (simp add: failing_def)
    from drop_keeps [OF this step] this K show ?thesis by (auto simp: failing_def)
  qed
  show "?K now' (hn_since s ! 0) (sy_conns (hn_state s) ! 0) (ts_accepts (hn_sys s) ! 0)"
    if "?K (hn_now s) (hn_since s ! 0) (sy_conns (hn_state s) ! 0) (ts_accepts (hn_sys s) ! 0)"
      and "conn_blocked ?w s 0" for s now'
    using that by (auto simp: failing_def conn_blocked_def Let_def ready_not_pending)
qed

text \<open>The loop of the test, which looks for an error every 10 ms.\<close>

definition looking :: "duration \<Rightarrow> 'a \<Rightarrow> ('a, 'n, 'out io_result option, 'fe, 'out, 'h) harness \<Rightarrow> bool" where
  "looking d client s \<longleftrightarrow> served (failing client) client s \<and>
     (hn_tries s = 0 \<and> (hn_timer s = None \<and> hn_now s = 0 \<or> hn_timer s = Some d \<and> hn_now s \<le> d) \<or>
      hn_tries s = 1 \<and> hn_timer s = None \<and> 0 < hn_now s)"

definition called :: "'a \<Rightarrow> ('a, 'n, 'out io_result option, 'fe, 'out, 'h) harness \<Rightarrow> bool" where
  "called client s \<longleftrightarrow> served (failing client) client s \<and> handler_calls (hn_state s) = [(Some client, acceptor_failed)]"

lemma failing_one:
  assumes "steady addr s" and "served (failing client) client s"
  shows "sy_conns (hn_state s) = [] \<or> (\<exists>c. sy_conns (hn_state s) = [c] \<and> cn_remote c = client)"
  using steady_conns [OF assms(1)] assms(2) by (cases "sy_conns (hn_state s)") (auto simp: served_def)

lemma calls_exact:
  assumes "steady addr s" and "served (failing client) client s" and "0 < hn_now s \<or> handler_calls (hn_state s) \<noteq> []"
  shows "handler_calls (hn_state s) = [(Some client, acceptor_failed)]"
proof -
  have log: "sy_log (hn_state s) = []" using assms(2) by (simp add: served_def)
  from failing_one [OF assms(1,2)] show ?thesis
  proof
    assume "sy_conns (hn_state s) = []"
    with assms(2,3) log show ?thesis by (simp add: served_def handler_calls_def)
  next
    assume "\<exists>c. sy_conns (hn_state s) = [c] \<and> cn_remote c = client"
    then obtain c where c: "sy_conns (hn_state s) = [c]" by blast
    with assms(2,3) log show ?thesis by (auto simp: served_def handler_calls_def failing_def)
  qed
qed

lemma kept_looking:
  fixes w :: "('a, 'n, 'i, 's, 'i \<times> 's) ready_world"
  assumes w: "w = ready_world api (handler_config v d) failing_accept (Inr ()) bound stream service"
  shows "kept_by_others w (sound w bound) (TestPoll n y P # ops) (looking x client)"
  unfolding kept_by_others_def
proof (intro allI impI; elim conjE)
  fix s t :: "('a, 'n, ('i \<times> 's) io_result option, 'i \<times> 's, 'i \<times> 's, unit) harness" and b
  assume s: "sound w bound s" "sound w bound t" "hn_script s = TestPoll n y P # ops" "looking x client s" "\<not> hn_failed s"
    and b: "b \<noteq> HnTest" "harness_step w b s = Some t"
  have st: "steady bound s" "steady bound t" "served (failing client) client s"
    using s by (simp_all add: sound_def looking_def)
  have served: "served (failing client) client t"
    using b(2) unfolding w by (rule failing_silent.served_others [OF st b(1)])
  have "if b = HnTick then hn_now s < hn_now t \<and> hn_timer s = Some x \<and> hn_now t \<le> x else hn_now t = hn_now s"
  proof (cases "b = HnTick")
    case True
    note step = b(2) [unfolded True]
    have "timer_running s" using no_tick [OF step] s(3,5) by (simp add: test_blocked_def)
    then have "hn_timer s = Some x" "hn_now s < x"
      using s(4) by (auto simp: timer_running_def looking_def split: option.splits)
    with tick(3,4) [OF step] True show ?thesis by simp
  qed (use others_keep(3) [OF st(1) b] in simp)
  with served s(4) others_leave_test [OF b(2,1)] show "looking x client t"
    by (auto simp: looking_def split: if_splits)
qed

lemma kept_called:
  fixes w :: "('a, 'n, 'i, 's, 'i \<times> 's) ready_world"
  assumes w: "w = ready_world api (handler_config v d) failing_accept (Inr ()) bound stream service"
  shows "kept_by_others w (sound w bound) ops (called client)"
proof (rule kept_by_othersI)
  fix s t :: "('a, 'n, ('i \<times> 's) io_result option, 'i \<times> 's, 'i \<times> 's, unit) harness" and b
  assume st: "steady bound s" "steady bound t" and c: "called client s"
    and b: "b \<noteq> HnTest" "harness_step w b s = Some t"
  have sv: "served (failing client) client s" using c by (simp add: called_def)
  have served: "served (failing client) client t"
    using b(2) unfolding w by (rule failing_silent.served_others [OF st sv b(1)])
  from failing_one [OF st(1) sv] c obtain cn where cn: "sy_conns (hn_state s) = [cn]" "cn_log cn \<noteq> []"
    using sv by (auto simp: called_def served_def handler_calls_def)
  with sv have drop: "conn_phase cn = PhDrop" by (auto simp: served_def failing_def)
  have "\<exists>x \<in> set (sy_conns (hn_state t)). cn_log x \<noteq> []"
  proof (cases b)
    case HnServe
    with harness_serve_step(3) [of w s t] b(2) cn show ?thesis by simp
  next
    case (HnConn i)
    from harness_conn_step [OF b(2) [unfolded HnConn]] cn drop_keeps(3) [OF drop] show ?thesis by fastforce
  next
    case HnTick
    with tick_same(1) [of w s t] b(2) cn show ?thesis by simp
  qed (use b(1) in simp)
  then have "handler_calls (hn_state t) \<noteq> []" by (auto simp: handler_calls_def)
  with calls_exact [OF st(2) served] served show "called client t" by (simp add: called_def)
qed

definition failing_server where
  "failing_server api bd addr handler handle hp =
     (let (server, hp) = server_bind api bd addr hp
      in server_handle handle (accept_error_handler handler (server_acceptor server ())))"

text \<open>The assertions on the error that the handler has logged.\<close>

definition accept_error_handler_is_called :: "'a \<Rightarrow> ('a, 'n) test_op list" where
  "accept_error_handler_is_called client =
     [TestAwait listening_ready, TestAssert (listening_is (\<lambda>a. a \<noteq> None)), TestConnect client,
      TestPoll 100 (from_millis 10) (\<lambda>y. handler_calls y \<noteq> []),
      TestAssert (\<lambda>y. length (handler_calls y) = 1),
      TestAssert (\<lambda>y. err_msg (snd (hd (handler_calls y))) = ''acceptor failed''),
      TestAssert (\<lambda>y. fst (hd (handler_calls y)) \<noteq> None),
      TestShutdown, TestTimeout (from_secs 1) server_finished, TestAssert (server_result is_ok)]"

definition failing_outline where
  "failing_outline client =
     [(TestAwait listening_ready, fresh), (TestAssert (listening_is (\<lambda>a. a \<noteq> None)), heard),
      (TestConnect client, heard),
      (TestPoll 100 (from_millis 10) (\<lambda>y. handler_calls y \<noteq> []), looking (from_millis 10) client),
      (TestAssert (\<lambda>y. length (handler_calls y) = 1), called client),
      (TestAssert (\<lambda>y. err_msg (snd (hd (handler_calls y))) = ''acceptor failed''), called client),
      (TestAssert (\<lambda>y. fst (hd (handler_calls y)) \<noteq> None), called client),
      (TestShutdown, called client), (TestTimeout (from_secs 1) server_finished, stopping (from_secs 1)),
      (TestAssert (server_result is_ok), stopped)]"

lemma looking_calls:
  assumes "sound w addr s" and "looking d client s" and "hn_timer s = None" and "100 \<le> hn_tries s \<or> handler_calls (hn_state s) \<noteq> []"
  shows "called client (test_next ops s)"
proof -
  have "steady addr s" "served (failing client) client s" "0 < hn_now s \<or> handler_calls (hn_state s) \<noteq> []"
    using assms by (auto simp: sound_def looking_def)
  with calls_exact [OF this] show ?thesis by (simp add: called_def)
qed

lemma looking_sleeps:
  assumes "sound w addr s" and "looking d client s" and "hn_timer s = None" and "handler_calls (hn_state s) = []"
  shows "looking d client (s\<lparr>hn_timer := Some (hn_now s + d)\<rparr>)"
proof -
  have "steady addr s" "served (failing client) client s" using assms(1,2) by (auto simp: sound_def looking_def)
  with calls_exact [OF this] assms(4) have "hn_now s = 0" by auto
  with assms(2,3) show ?thesis by (auto simp: looking_def)
qed

lemma looking_wakes:
  "looking d client s \<Longrightarrow> 0 < d \<Longrightarrow> hn_timer s = Some t \<Longrightarrow> t \<le> hn_now s \<Longrightarrow>
   looking d client (s\<lparr>hn_timer := None, hn_tries := Suc (hn_tries s)\<rparr>)"
  by (auto simp: looking_def served_def signalled_def)

interpretation failing_test: harness_test
    "ready_world api (handler_config v d) (failing_accept :: 'i \<Rightarrow> 's \<Rightarrow> _) (Inr ()) bound stream service" bound
    "failing_outline client" stopped
  for api :: "'n notify_api" and v d and bound client :: 'a and stream service
proof
  let ?w = "ready_world api (handler_config v d) (failing_accept :: 'i \<Rightarrow> 's \<Rightarrow> _) (Inr ()) bound stream service"
  let ?o = "failing_outline client :: ('a, 'n, ('i \<times> 's) io_result option, 'i \<times> 's, 'i \<times> 's, unit) outline"
  show "wd_bind ?w = Inr ()" "wd_addr ?w = Inr bound" by simp_all
  show "outline_next ?o stopped (harness_start ?w (map fst ?o))"
    by (simp add: failing_outline_def fresh_def harness_start_def signalled_def tls_start_def sys_start_def handle_simps)
  have look: "looking (from_millis 10) client s" if "served_at (failing client) client 0 s"
    for s :: "('a, 'n, ('i \<times> 's) io_result option, 'i \<times> 's, 'i \<times> 's, unit) harness"
    using that by (simp add: served_at_def looking_def)
  have call: "handler_calls (hn_state s) = [(Some client, acceptor_failed)]" "called client (test_next ops s)"
    if "called client s" for s :: "('a, 'n, ('i \<times> 's) io_result option, 'i \<times> 's, 'i \<times> 's, unit) harness" and ops
    using that by (simp_all add: called_def)
  show "outline_ok ?w (sound ?w bound) ?o stopped"
    unfolding failing_outline_def
  proof (intro outline_listen failing_silent.outline_connect_client outline_poll kept_looking kept_called refl
      outline_assert outline_end)
  qed (auto simp: outline_facts one_second call look acceptor_failed_def io_other_def
      intro: looking_calls looking_sleeps looking_wakes)
qed

text \<open>
  C30. The test \<open>accept_error_handler_is_called\<close> passes, however the tasks are scheduled: with an
  acceptor that fails, the handler is called exactly once, with the error of the acceptor and
  the address of a client, before the loop of the test is over; and after \<open>shutdown\<close> the
  server returns \<open>Ok\<close> within a second.
\<close>

theorem accept_error_handler_called:
  assumes "server = failing_server api bd addr handler handle hp"
    and "w = ready_world api (server_config server) failing_accept (Inr ()) bound stream service"
    and "harness_reachable w (accept_error_handler_is_called client) s"
  shows "\<not> hn_failed s \<and> (idle w s \<longrightarrow> hn_script s = [] \<or> deadlines w s \<noteq> []) \<and>
    (hn_script s = [] \<longrightarrow> server_result is_ok (hn_state s))"
proof -
  have cfg: "server_config server = handler_config None None"
    by (simp add: assms(1) failing_server_def server_bind_def accept_error_handler_def server_config_def
        server_handle_def server_acceptor_def handle_alloc_def)
  have "map fst (failing_outline client) = accept_error_handler_is_called client"
    "\<forall>P. TestAwait P \<in> set (accept_error_handler_is_called client) \<longrightarrow> P = listening_ready"
    by (simp_all add: failing_outline_def accept_error_handler_is_called_def)
  from failing_test.test_passes [OF assms(3) [unfolded assms(2) cfg] this]
  show ?thesis unfolding assms(2) cfg by (simp add: stopped_def)
qed

definition toy_failing_server :: "(unit, nat, nat, nat, nat) server" where
  "toy_failing_server = failing_server toy_api toy_builder (0 :: nat) 7 0 []"

definition toy_failing_world :: "(nat, toy_notify, nat, nat, nat \<times> nat) ready_world" where
  "toy_failing_world = ready_world toy_api (server_config toy_failing_server) failing_accept (Inr ()) 80 1 2"

definition failing_run :: "harness_action list" where
  "failing_run = listens @ [HnTest] @ replicate 6 (HnConn 0) @ [HnTick] @ replicate 6 HnTest @ [HnServe, HnTest, HnTest]"

theorem accept_error_handler_called_witness:
  "\<exists>s. harness_run toy_failing_world failing_run
       (harness_start toy_failing_world (accept_error_handler_is_called 5)) = Some s \<and>
     hn_script s = [] \<and> \<not> hn_failed s \<and> handler_calls (hn_state s) = [(Some 5, IoError Other ''acceptor failed'')] \<and>
     server_result is_ok (hn_state s)"
proof -
  obtain s where s: "harness_run toy_failing_world failing_run
      (harness_start toy_failing_world (accept_error_handler_is_called 5)) = Some s"
    "hn_script s = []" "handler_calls (hn_state s) = [(Some 5, IoError Other ''acceptor failed'')]"
    by (simp add: failing_run_def ready_run_simps toy_failing_world_def toy_failing_server_def
        failing_server_def accept_error_handler_def accept_error_handler_is_called_def
        failing_accept_def acceptor_failed_def handler_calls_def)
  from accept_error_handler_called [OF toy_failing_server_def toy_failing_world_def harness_start_reachable [OF s(1)]] s
  show ?thesis by auto
qed

section \<open>Binding fails\<close>

text \<open>\<open>serve\<close> tells the handle that there is no address, and returns the error; there are no clients.\<close>

fun unbound_serve :: "io_error \<Rightarrow> ('a, 'n) handle_inner \<Rightarrow> 'a serve_pc \<Rightarrow> bool" where
  "unbound_serve e h SvBind = True"
| "unbound_serve e h (SvSetAddr a k) = (a = None \<and> k = BindFailed e)"
| "unbound_serve e h (SvNotifyAddr k) = (hi_addr h = None \<and> k = BindFailed e)"
| "unbound_serve e h (SvReturned r) = (r = Inl e \<and> hi_addr h = None \<and> is_notified (hi_addr_notify h))"
| "unbound_serve e h pc = False"

definition unbound :: "io_error \<Rightarrow> ('a, 'n, 'f, 'fe, 'out, 'h) harness \<Rightarrow> bool" where
  "unbound e s \<longleftrightarrow> unbound_serve e (sy_handle (hn_state s)) (sy_serve (hn_state s)) \<and>
     sy_conns (hn_state s) = [] \<and> TestShutdown \<notin> set (hn_script s)"

definition test_listening_returns_none_on_bind_failure :: "('a, 'n) test_op list" where
  "test_listening_returns_none_on_bind_failure =
     [TestAwait server_finished, TestAssert (server_result (\<lambda>r. \<not> is_ok r)),
      TestTimeout (from_secs 1) listening_ready, TestAssert (listening_is (\<lambda>a. a = None))]"

definition bind_failure_server where
  "bind_failure_server api bd addr handle hp =
     (let (server, hp) = server_bind api bd addr hp in server_handle handle server)"

text \<open>While it waits for the server the clock does not move, as no timer runs.\<close>

definition finished :: "('a, 'n, 'f, 'fe, 'out, 'h) harness \<Rightarrow> bool" where
  "finished s \<longleftrightarrow> server_finished (hn_state s)"

definition bind_failure_outline where
  "bind_failure_outline =
     [(TestAwait server_finished, \<lambda>s. True), (TestAssert (server_result (\<lambda>r. \<not> is_ok r)), finished),
      (TestTimeout (from_secs 1) listening_ready, finished), (TestAssert (listening_is (\<lambda>a. a = None)), finished)]"

lemma unbound_finished:
  assumes "unbound e s" and "finished s"
  shows "sy_serve (hn_state s) = SvReturned (Inl e)" "hi_addr (sy_handle (hn_state s)) = None"
    "is_notified (hi_addr_notify (sy_handle (hn_state s)))"
  using assms by (cases "sy_serve (hn_state s)"; simp add: unbound_def finished_def server_finished_def)+

lemma finished_next: "finished (test_next ops s) = finished s"
  by (simp add: finished_def)

lemma test_step_script: "set (hn_script (test_step w s)) \<subseteq> set (hn_script s)"
  by (auto simp: test_step.simps test_timer_def split: list.split test_op.split option.split)

lemma unbound_step:
  assumes "wd_bind w = Inl e" and "unbound e s" and "harness_moves w s t"
  shows "unbound e t"
proof -
  from assms(3) obtain b where step: "harness_step w b s = Some t" by (auto simp: harness_moves_iff)
  from assms(2) have u: "unbound_serve e (sy_handle (hn_state s)) (sy_serve (hn_state s))"
    "sy_conns (hn_state s) = []" "TestShutdown \<notin> set (hn_script s)" by (simp_all add: unbound_def)
  show ?thesis
  proof (cases b)
    case HnServe
    note t = harness_serve_step [OF step [unfolded HnServe]]
    show ?thesis
      using u assms(1) by (cases "sy_serve (hn_state s)") (auto simp: unbound_def t serve_world_def handle_simps)
  next
    case (HnConn i)
    from harness_conn_step [OF step [unfolded HnConn]] u(2) show ?thesis by simp
  next
    case HnTest
    then have t: "t = test_step w s" using step by (simp add: harness_step.simps)
    have "hn_sys t = hn_sys s"
      using u(3) unfolding t test_step.simps
      by (auto simp: test_timer_def split: list.split test_op.split option.split)
    with u test_step_script [of w s] show ?thesis by (auto simp: unbound_def t)
  next
    case HnTick
    with tick_same(1) [of w s t] others_leave_test [of w b s t] step u show ?thesis by (simp add: unbound_def)
  qed
qed

lemma finished_stays: "finished s \<Longrightarrow> b \<noteq> HnTest \<Longrightarrow> harness_step w b s = Some t \<Longrightarrow> finished t"
proof (cases b)
  case HnServe
  assume "finished s" "harness_step w b s = Some t"
  with harness_serve_step(2) [of w s t] HnServe show ?thesis
    by (cases "sy_serve (hn_state s)") (simp_all add: finished_def server_finished_def serve_goto_def)
next
  case (HnConn i)
  assume "finished s" "harness_step w b s = Some t"
  with harness_conn_step [of w i s t] HnConn show ?thesis by (auto simp: finished_def server_finished_def)
next
  case HnTick
  assume "finished s" "harness_step w b s = Some t"
  with tick_same(1) [of w s t] HnTick show ?thesis by (simp add: finished_def)
qed simp

interpretation bind_failure: outlined_test "ready_world api cfg accept (Inl e) bound stream service" "unbound e"
    bind_failure_outline finished
  for api :: "'n notify_api" and cfg and accept :: "'i \<Rightarrow> 's \<Rightarrow> 'out io_result" and e and bound :: 'a and stream service
proof
  let ?w = "ready_world api cfg accept (Inl e) bound stream service"
  let ?o = "bind_failure_outline :: ('a, 'n, 'out io_result option, 'i \<times> 's, 'out, unit) outline"
  show "unbound e (harness_start ?w (map fst ?o))"
    by (simp add: unbound_def harness_start_def tls_start_def sys_start_def bind_failure_outline_def)
  show "unbound e t" if "unbound e s" "harness_moves ?w s t" for s t
    using unbound_step [OF _ that] by simp
  show "outline_next ?o finished (harness_start ?w (map fst ?o))" by (simp add: bind_failure_outline_def)
  have kept: "kept_by_others ?w (unbound e) ops finished" "kept_by_others ?w (unbound e) ops (\<lambda>s. True)" for ops
    using finished_stays by (auto simp: kept_by_others_def)
  have over: "server_result (\<lambda>r. \<not> is_ok r) (hn_state s)" "listening_is (\<lambda>a. a = None) (hn_state s)"
      "is_notified (hi_addr_notify (sy_handle (hn_state s)))"
    if "unbound e s" "finished s" for s :: "('a, 'n, 'out io_result option, 'i \<times> 's, 'out, unit) harness"
    using unbound_finished [OF that] by (simp_all add: server_result_def listening_is_def)
  show "outline_ok ?w (unbound e) ?o finished"
    unfolding bind_failure_outline_def
  proof (intro outline_await outline_assert outline_timeout)
  qed (auto simp: kept over finished_next finished_def)
qed

text \<open>
  The test \<open>test_listening_returns_none_on_bind_failure\<close> passes, however the tasks are
  scheduled: when the listener cannot be bound, awaiting the server gives an error, after
  which \<open>listening()\<close> does not hang and gives no address; the error is that of binding.
\<close>

theorem bind_failure_passes:
  assumes "server = bind_failure_server api bd addr handle hp"
    and "w = ready_world api (server_config server) accept (Inl e) bound stream service"
    and "harness_reachable w test_listening_returns_none_on_bind_failure s"
  shows "\<not> hn_failed s \<and> (idle w s \<longrightarrow> hn_script s = [] \<or> deadlines w s \<noteq> []) \<and>
    (hn_script s = [] \<longrightarrow> sy_serve (hn_state s) = SvReturned (Inl e))"
proof -
  have reach: "harness_reachable (ready_world api (server_config server) accept (Inl e) bound stream service)
      (map fst bind_failure_outline) s"
    using assms(3) by (simp add: assms(2) bind_failure_outline_def test_listening_returns_none_on_bind_failure_def)
  note passes = bind_failure.passes [OF reach]
  have "server_finished (hn_state s)" if "idle w s"
    using that passes by (cases "sy_serve (hn_state s)")
      (auto simp: idle_def unbound_def server_finished_def elim!: unbound_serve.elims)
  then have "deadlines w s \<noteq> []" if "idle w s" "hn_script s \<noteq> []"
    using bind_failure.never_stuck [OF reach] that by (auto simp: assms(2) bind_failure_outline_def)
  moreover have "sy_serve (hn_state s) = SvReturned (Inl e)" if "hn_script s = []"
    using unbound_finished(1) at_outline_end [of _ finished] passes that by blast
  ultimately show ?thesis using passes by blast
qed

definition toy_unbound_server :: "(unit, nat, nat, nat, nat) server" where
  "toy_unbound_server = bind_failure_server toy_api toy_builder (0 :: nat) 0 []"

definition toy_unbound_world :: "(nat, toy_notify, nat, nat, nat \<times> nat) ready_world" where
  "toy_unbound_world = ready_world toy_api (server_config toy_unbound_server) default_accept
     (Inl (IoError (OsError 98) ''Address already in use'')) 80 1 2"

theorem bind_failure_passes_witness:
  "\<exists>s. harness_run toy_unbound_world (replicate 3 HnServe @ replicate 4 HnTest)
       (harness_start toy_unbound_world test_listening_returns_none_on_bind_failure) = Some s \<and>
     hn_script s = [] \<and> \<not> hn_failed s \<and>
     sy_serve (hn_state s) = SvReturned (Inl (IoError (OsError 98) ''Address already in use''))"
proof -
  obtain s where s: "harness_run toy_unbound_world (replicate 3 HnServe @ replicate 4 HnTest)
      (harness_start toy_unbound_world test_listening_returns_none_on_bind_failure) = Some s"
    "hn_script s = []"
    by (simp add: ready_run_simps toy_unbound_world_def toy_unbound_server_def bind_failure_server_def
        test_listening_returns_none_on_bind_failure_def)
  from bind_failure_passes [OF toy_unbound_server_def toy_unbound_world_def harness_start_reachable [OF s(1)]] s
  show ?thesis by auto
qed

end
