(* ===== verification/UnitTests.thy ===== *)
theory UnitTests
  imports RustlsConfig "HOL-Library.Sublist"
begin

text \<open>
  The tests of \<open>src/src/tls_rustls/mod.rs\<close>, \<open>src/src/accept.rs\<close> and \<open>src/src/handle.rs\<close> that
  need no server, as functions that say whether the test passes; what they rely on (the files
  of the repository as the libraries read them, the socket options) are hypotheses.
\<close>

section \<open>The files\<close>

definition cert_pem :: string where "cert_pem = ''examples/self-signed-certs/cert.pem''"
definition key_pem :: string where "key_pem = ''examples/self-signed-certs/key.pem''"
definition encrypted_key_pem :: string where "encrypted_key_pem = ''examples/self-signed-certs/encrypted-key.pem''"
definition missing_pem :: string where "missing_pem = ''examples/self-signed-certs/missing.pem''"

text \<open>\<open>fs_err\<close> reads as \<open>std\<close> does and puts the path into the error.\<close>

definition fs_err_documented :: "(string \<Rightarrow> bytes io_result) \<Rightarrow> (string \<Rightarrow> bytes io_result) \<Rightarrow> bool" where
  "fs_err_documented read std \<longleftrightarrow>
     (\<forall>p. read p = map_err (\<lambda>e. IoError (err_kind e)
        (''failed to read from file `'' @ p @ ''`: '' @ err_msg e)) (std p))"

text \<open>What the files hold: a certificate chain, its key, and the same key encrypted with a password.\<close>

definition example_files ::
  "('cfg, 'c, 'k, 'g, 'r, 'enc, 'v) rustls_api \<Rightarrow> (string \<Rightarrow> bytes io_result) \<Rightarrow> bool" where
  "example_files ru std \<longleftrightarrow>
     std missing_pem = Inl (IoError NotFound ''No such file or directory (os error 2)'') \<and>
     (\<exists>cert certs key k enc doc info der cfg cfg'. std cert_pem = Inr cert \<and>
        collect_results (ru_pem_certs ru cert) = Inr certs \<and>
        std key_pem = Inr key \<and> ru_pem_keys ru key = [Inr k] \<and> ru_key_from_pem ru key = Inr k \<and>
        ru_single_cert ru certs k = Inr cfg \<and>
        std encrypted_key_pem = Inr enc \<and> utf8_valid enc \<and>
        ru_document_from_pem ru enc = Inr (''ENCRYPTED PRIVATE KEY'', doc) \<and>
        ru_encrypted_from_der ru doc = Inr info \<and> ru_decrypt ru (byte_string ''axum-server'') info = Inr der \<and>
        (\<exists>e. ru_decrypt ru (byte_string ''wrong-password'') info = Inl e) \<and>
        ru_single_cert ru certs (ru_pkcs8_key ru der) = Inr cfg')"

section \<open>Loading configurations\<close>

text \<open>\<open>err.kind()\<close> and \<open>err.to_string()\<close> of \<open>unwrap_err\<close>.\<close>

fun fails_with :: "error_kind \<Rightarrow> string \<Rightarrow> 'a io_result \<Rightarrow> bool" where
  "fails_with k msg (Inl e) = (err_kind e = k \<and> err_msg e = msg)"
| "fails_with k msg (Inr x) = False"

definition missing_message :: string where
  "missing_message = ''failed to read from file `examples/self-signed-certs/missing.pem`: No such file or directory (os error 2)''"

definition from_pem_file_not_found where
  "from_pem_file_not_found ru sw read h =
     (let (r1, h) = rustls_from_pem_file ru sw read missing_pem key_pem h;
          (r2, h) = rustls_from_pem_file ru sw read cert_pem missing_pem h
      in fails_with NotFound missing_message r1 \<and> fails_with NotFound missing_message r2)"

definition from_pem_file_chain_file_not_found where
  "from_pem_file_chain_file_not_found ru sw read h =
     (let (r1, h) = rustls_from_pem_chain_file ru sw read missing_pem key_pem h;
          (r2, h) = rustls_from_pem_chain_file ru sw read cert_pem missing_pem h
      in fails_with NotFound missing_message r1 \<and> fails_with NotFound missing_message r2)"

definition from_pem_chain_file_sets_alpn where
  "from_pem_chain_file_sets_alpn ru sw read h =
     (case rustls_from_pem_chain_file ru sw read cert_pem key_pem h of
        (Inl e, h) \<Rightarrow> False
      | (Inr config, h) \<Rightarrow>
          ru_alpn ru (rustls_get_inner sw config h) = [byte_string ''h2'', byte_string ''http/1.1''])"

definition wrong_password_is_rejected where
  "wrong_password_is_rejected ru sw read h =
     (case rustls_from_pem_file_with_password ru sw read cert_pem encrypted_key_pem (byte_string ''wrong-password'') h of
        (Inl error, h) \<Rightarrow> sublist ''decrypt'' (err_msg error)
      | (Inr config, h) \<Rightarrow> False)"

definition reload_from_pem_file_with_password_works where
  "reload_from_pem_file_with_password_works ru sw read h =
     (case rustls_from_pem_file ru sw read cert_pem key_pem h of
        (Inl e, h) \<Rightarrow> False
      | (Inr config, h) \<Rightarrow>
          (case rustls_reload_from_pem_file_with_password ru sw config read cert_pem encrypted_key_pem
                  (byte_string ''axum-server'') h of
             (Inl e, h) \<Rightarrow> False
           | (Inr u, h) \<Rightarrow> True))"

subsection \<open>The tests pass\<close>

lemma missing_read:
  "fs_err_documented read std \<Longrightarrow> example_files ru std \<Longrightarrow> read missing_pem = Inl (IoError NotFound missing_message)"
  by (simp add: fs_err_documented_def example_files_def missing_message_def missing_pem_def)

lemma example_reads:
  assumes "fs_err_documented read std" and "example_files ru std"
  obtains cert certs key k enc der cfg cfg' where
    "read cert_pem = Inr cert" "certificates_from_pem ru cert = Inr certs"
    "read key_pem = Inr key" "private_key_from_pem ru key = Inr k" "ru_key_from_pem ru key = Inr k"
    "config_from_cert_and_key ru certs k = Inr cfg"
    "read encrypted_key_pem = Inr enc"
    "config_from_pem_with_password ru cert enc (byte_string ''axum-server'') = Inr cfg'"
    "config_from_pem_with_password ru cert enc (byte_string ''wrong-password'') =
      Inl (io_other ''failed to decrypt private key; is the password correct?'')"
    "cfg = set_alpn ru der"
proof -
  from assms(2) obtain cert certs key k enc doc info der cfg cfg' e where
    f: "std cert_pem = Inr cert" "collect_results (ru_pem_certs ru cert) = Inr certs"
      "std key_pem = Inr key" "ru_pem_keys ru key = [Inr k]" "ru_key_from_pem ru key = Inr k"
      "ru_single_cert ru certs k = Inr cfg" "std encrypted_key_pem = Inr enc" "utf8_valid enc"
      "ru_document_from_pem ru enc = Inr (''ENCRYPTED PRIVATE KEY'', doc)" "ru_encrypted_from_der ru doc = Inr info"
      "ru_decrypt ru (byte_string ''axum-server'') info = Inr der" "ru_decrypt ru (byte_string ''wrong-password'') info = Inl e"
      "ru_single_cert ru certs (ru_pkcs8_key ru der) = Inr cfg'"
    unfolding example_files_def by blast
  have certs: "certificates_from_pem ru cert = Inr certs" using f(2) by (simp add: certificates_from_pem_def)
  have "read cert_pem = Inr cert" "read key_pem = Inr key" "read encrypted_key_pem = Inr enc"
    using assms(1) f by (simp_all add: fs_err_documented_def)
  moreover have "private_key_from_pem ru key = Inr k" using f(4) by (simp add: private_key_from_pem_def)
  moreover have "config_from_cert_and_key ru certs k = Inr (set_alpn ru cfg)"
    using f(6) by (simp add: config_from_cert_and_key_def)
  moreover have "config_from_pem_with_password ru cert enc (byte_string ''axum-server'') = Inr (set_alpn ru cfg')"
    "config_from_pem_with_password ru cert enc (byte_string ''wrong-password'') =
      Inl (io_other ''failed to decrypt private key; is the password correct?'')"
    using f certs by (simp_all add: config_from_pem_with_password_def from_utf8_def config_from_cert_and_key_def)
  ultimately show thesis using that certs f(5) by blast
qed

text \<open>
  The tests of the configuration files pass on the files of the repository: a file that
  is missing is reported with the kind \<open>NotFound\<close> and its path, whichever of the two it is
  and by both loaders; a chain file gives a configuration that offers HTTP/2 and HTTP/1.1; a
  wrong password is an error that speaks of decryption; and reloading with an encrypted key
  works.
\<close>

theorem configuration_tests_pass:
  assumes "swap_documented sw live" and "fs_err_documented read std" and "example_files ru std"
    and "\<forall>ps c. ru_alpn ru (ru_set_alpn ru ps c) = ps"
  shows "from_pem_file_not_found ru sw read h \<and> from_pem_file_chain_file_not_found ru sw read h \<and>
    from_pem_chain_file_sets_alpn ru sw read h \<and> wrong_password_is_rejected ru sw read h \<and>
    reload_from_pem_file_with_password_works ru sw read h"
proof -
  note missing = missing_read [OF assms(2,3)]
  obtain cert certs key k enc der cfg cfg' where f:
    "read cert_pem = Inr cert" "certificates_from_pem ru cert = Inr certs"
    "read key_pem = Inr key" "private_key_from_pem ru key = Inr k" "ru_key_from_pem ru key = Inr k"
    "config_from_cert_and_key ru certs k = Inr cfg" "read encrypted_key_pem = Inr enc"
    "config_from_pem_with_password ru cert enc (byte_string ''axum-server'') = Inr cfg'"
    "config_from_pem_with_password ru cert enc (byte_string ''wrong-password'') =
      Inl (io_other ''failed to decrypt private key; is the password correct?'')" "cfg = set_alpn ru der"
    using example_reads [OF assms(2,3)] .
  have "from_pem_file_not_found ru sw read h" "from_pem_file_chain_file_not_found ru sw read h"
    using missing f(1,2)
    by (simp_all add: from_pem_file_not_found_def from_pem_file_chain_file_not_found_def rustls_from_pem_file_def
        rustls_from_pem_chain_file_def config_from_pem_file_def config_from_pem_chain_file_def rustls_create_def
        swap_create_def)
  moreover have "from_pem_chain_file_sets_alpn ru sw read h"
  proof -
    have cfg: "config_from_pem_chain_file ru read cert_pem key_pem = Inr cfg"
      using f by (simp add: config_from_pem_chain_file_def)
    obtain i h' where new: "sw_new sw cfg h = (i, h')" by fastforce
    with assms(1) have "sw_load_full sw i h' = cfg" by (simp add: swap_documented_def)
    with assms(4) f(10) cfg new show ?thesis
      by (simp add: from_pem_chain_file_sets_alpn_def rustls_from_pem_chain_file_def rustls_create_def swap_create_def
          rustls_get_inner_def set_alpn_def alpn_protocols_def)
  qed
  moreover have "wrong_password_is_rejected ru sw read h"
  proof -
    have "''failed to decrypt private key; is the password correct?'' =
        ''failed to '' @ ''decrypt'' @ '' private key; is the password correct?''" by simp
    then have "sublist ''decrypt'' ''failed to decrypt private key; is the password correct?''"
      unfolding sublist_def by blast
    with f(1,7,9) show ?thesis
      by (simp add: wrong_password_is_rejected_def rustls_from_pem_file_with_password_def
          rustls_from_pem_with_password_def rustls_create_def swap_create_def io_other_def)
  qed
  moreover have "reload_from_pem_file_with_password_works ru sw read h"
    using f by (auto simp: reload_from_pem_file_with_password_works_def rustls_from_pem_file_def config_from_pem_file_def
        config_from_pem_def rustls_create_def swap_create_def rustls_reload_from_pem_file_with_password_def
        rustls_reload_from_pem_with_password_def rustls_reload_def swap_reload_def split: prod.split)
  ultimately show ?thesis by blast
qed

text \<open>Files of one byte; the key is the byte 2, encrypted as 3.\<close>

definition toy_files :: "string \<Rightarrow> bytes io_result" where
  "toy_files p =
     (if p = cert_pem then Inr [1] else if p = key_pem then Inr [2] else if p = encrypted_key_pem then Inr [3]
      else Inl (IoError NotFound ''No such file or directory (os error 2)''))"

definition toy_fs_err :: "string \<Rightarrow> bytes io_result" where
  "toy_fs_err p = map_err (\<lambda>e. IoError (err_kind e)
     (''failed to read from file `'' @ p @ ''`: '' @ err_msg e)) (toy_files p)"

definition toy_pkcs8 :: "(toy_cfg, bytes, bytes, bytes, (string \<times> bytes list \<times> bytes) list, bytes, nat) rustls_api" where
  "toy_pkcs8 = toy_rustls\<lparr>ru_decrypt := (\<lambda>pw e. if pw = byte_string ''axum-server'' then Inr e else Inl ''bad password'')\<rparr>"

theorem configuration_tests_pass_witness:
  "from_pem_file_not_found toy_pkcs8 toy_swap toy_fs_err [] \<and>
   from_pem_file_chain_file_not_found toy_pkcs8 toy_swap toy_fs_err [] \<and>
   from_pem_chain_file_sets_alpn toy_pkcs8 toy_swap toy_fs_err [] \<and>
   wrong_password_is_rejected toy_pkcs8 toy_swap toy_fs_err [] \<and>
   reload_from_pem_file_with_password_works toy_pkcs8 toy_swap toy_fs_err []"
proof -
  have paths: "key_pem \<noteq> cert_pem" "encrypted_key_pem \<noteq> cert_pem" "encrypted_key_pem \<noteq> key_pem"
    "missing_pem \<noteq> cert_pem" "missing_pem \<noteq> key_pem" "missing_pem \<noteq> encrypted_key_pem"
    by (simp_all add: key_pem_def cert_pem_def encrypted_key_pem_def missing_pem_def)
  have "fs_err_documented toy_fs_err toy_files" by (simp add: fs_err_documented_def toy_fs_err_def)
  moreover have "example_files toy_pkcs8 toy_files"
    using paths by (simp add: example_files_def toy_files_def toy_pkcs8_def toy_rustls_def byte_string_def utf8_valid.simps)
  moreover have "\<forall>ps c. ru_alpn toy_pkcs8 (ru_set_alpn toy_pkcs8 ps c) = ps"
    by (simp add: toy_pkcs8_def toy_rustls_def split: prod.split)
  ultimately show ?thesis using configuration_tests_pass [OF toy_swap_documented] by blast
qed

section \<open>The socket options\<close>

text \<open>What can be read back from a socket; \<open>linux\<close> is the \<open>cfg\<close> of the test.\<close>

definition applies_nodelay_and_keepalive where
  "applies_nodelay_and_keepalive api platform linux nodelay keepalive_time_of server =
     (let config = socket_keepalive (keepalive_time (from_secs 30) keepalive_new)
            (socket_nodelay True socket_config_new)
      in case tcp_config_accept api platform config server () of
           Inl e \<Rightarrow> False
         | Inr (stream, _) \<Rightarrow>
             nodelay stream = (Inr True :: bool io_result) \<and>
             (linux \<longrightarrow> keepalive_time_of stream = (Inr (from_secs 30) :: duration io_result)))"

text \<open>Setting an option succeeds, and is what is then read; the options are independent.\<close>

definition socket_documented where
  "socket_documented api time_of nodelay keepalive_time_of \<longleftrightarrow>
     (\<forall>b s. \<exists>s'. tcp_set_nodelay api b s = (Inr (), s') \<and> nodelay s' = (Inr b :: bool io_result)) \<and>
     (\<forall>k s. \<exists>s'. tcp_set_keepalive api k s = (Inr (), s') \<and> nodelay s' = nodelay s \<and>
        keepalive_time_of s' = (Inr (time_of k) :: duration io_result)) \<and>
     (\<forall>d k. time_of (ka_with_time api d k) = d)"

theorem socket_options_test_passes:
  assumes "socket_documented api time_of nodelay keepalive_time_of"
  shows "applies_nodelay_and_keepalive api platform linux nodelay keepalive_time_of server"
proof -
  from assms obtain s where s: "tcp_set_nodelay api True server = (Inr (), s)" "nodelay s = Inr True"
    unfolding socket_documented_def by meson
  let ?k = "ka_with_time api (from_secs 30) (ka_new api)"
  from assms obtain s' where s': "tcp_set_keepalive api ?k s = (Inr (), s')" "nodelay s' = nodelay s"
      "keepalive_time_of s' = Inr (from_secs 30)"
    unfolding socket_documented_def by metis
  from s s' show ?thesis
    by (simp add: applies_nodelay_and_keepalive_def tcp_config_accept_def socket_keepalive_def socket_nodelay_def
        socket_config_new_def keepalive_time_def keepalive_new_def Let_def)
qed

section \<open>Listening\<close>

text \<open>One poll of \<open>handle.listening()\<close>, under a timeout that has not elapsed.\<close>

definition listening_poll :: "('a, 'n) handle_inner \<Rightarrow> 'a option poll" where
  "listening_poll h =
     (case listening_step (listening_step LiWait h) h of LiDone a \<Rightarrow> Ready a | _ \<Rightarrow> Pending)"

definition listening_returns_none_after_bind_failure :: "'n notify_api \<Rightarrow> bool" where
  "listening_returns_none_after_bind_failure api =
     (let handle = (handle_new api :: (nat, 'n) handle_inner); handle = notify_listening api None handle
      in case listening_poll handle of Ready addr \<Rightarrow> addr = None | Pending \<Rightarrow> False)"

definition listening_returns_addr_after_successful_bind :: "'n notify_api \<Rightarrow> 'a \<Rightarrow> bool" where
  "listening_returns_addr_after_successful_bind api addr =
     (let handle = handle_new api; handle = notify_listening api (Some addr) handle
      in case listening_poll handle of Ready resolved \<Rightarrow> resolved = Some addr | Pending \<Rightarrow> False)"

theorem listening_tests_pass:
  "listening_returns_none_after_bind_failure api \<and> listening_returns_addr_after_successful_bind api addr"
  by (simp add: listening_returns_none_after_bind_failure_def listening_returns_addr_after_successful_bind_def
      listening_poll_def notify_listening_def handle_simps)

end
