(* ===== verification/OpensslServing.thy ===== *)
theory OpensslServing
  imports TlsServing
begin

text \<open>
  A server with \<open>OpenSSLAcceptor\<close> (\<open>src/src/tls_openssl\<close>) in the composed system: which
  acceptor a connection is served with after reloads, what becomes of a connection, and that
  no handshake blocks a shutdown. The three rest on the contract \<open>handshaking_server\<close>.
\<close>

section \<open>The acceptor after some reloads\<close>

definition openssl_latest_acceptor where
  "openssl_latest_acceptor os config xs acceptor =
     fold (\<lambda>x acceptor. case openssl_op_acceptor os x of
         Inl e \<Rightarrow> acceptor
       | Inr new \<Rightarrow> if openssl_op_target x = config then new else acceptor) xs acceptor"

lemma openssl_latest_get:
  assumes "swap_documented sw live" and "live h (oc_acceptor config)"
    and "\<forall>x \<in> set xs. live h (oc_acceptor (openssl_op_target x))"
  shows "openssl_get_inner sw config (fold (openssl_op_step os sw) xs h) =
    openssl_latest_acceptor os config xs (openssl_get_inner sw config h)"
  using openssl_cells.attempts_get [OF assms(1), of "map (\<lambda>x. (openssl_op_target x, openssl_op_acceptor os x)) xs" h config]
    assms(2,3)
  by (auto simp: openssl_ops_attempts openssl_latest_acceptor_def fold_map comp_def openssl_latest)

lemma openssl_shake_accepted:
  "openssl_shake ss timeout acc stream service env = Ready (Inr (tls, w)) \<longleftrightarrow>
    tls = ssl_stream_of ss acc stream \<and> oe_poll_accept env tls = Ready (Inr ()) \<and>
    w = tls_service_new service (openssl_tls_info ss tls)"
  by (auto simp: openssl_shake_def Let_def split: poll.splits sum.splits)

section \<open>Properties\<close>

text \<open>
  C6. Reloading a running server with OpenSSL: whatever the interleaving of reloads, connections,
  signals and everything else, a connection that the server serves runs over a TLS stream that
  was made with the acceptor of the last reload that had succeeded when its inner acceptor
  became ready, its handshake on that stream has completed, and its service carries what
  OpenSSL says of that stream.
\<close>

theorem openssl_serves_reloaded:
  assumes "ssl_documented ss" and "swap_documented sw live" and "live store (oc_acceptor (oa_config acceptor))"
    and "\<forall>x \<in> set (tls_reloads bs). live store (oc_acceptor (openssl_op_target x))"
    and "tls_run api cfg (openssl_server os sw ss acceptor) bs (tls_start api store) = Some s"
    and "i < length (sy_conns (ts_sys s))"
    and "ac_accepted (ts_accepts s ! i) = Some (tls, service)"
  shows "\<exists>before fenv env after stream inner poll. bs = before @ TaConn i fenv env # after \<and>
    oe_inner fenv = Ready (Inr (stream, inner)) \<and>
    tls = ssl_stream_of ss (openssl_latest_acceptor os (oa_config acceptor) (tls_reloads before)
        (openssl_get_inner sw (oa_config acceptor) store)) stream \<and>
    poll \<in> set (ac_polls (ts_accepts s ! i)) \<and> oe_poll_accept poll tls = Ready (Inr ()) \<and>
    service = tls_service_new inner (openssl_tls_info ss tls)"
proof -
  from openssl_serving.accepted_store [OF assms(1,5-7)] obtain before fenv env after q stream inner where
      b: "bs = before @ TaConn i fenv env # after" "q \<in> set (ac_polls (ts_accepts s ! i))"
        "oe_inner fenv = Ready (Inr (stream, inner))"
    and shake: "tls = ssl_stream_of ss (openssl_get_inner sw (oa_config acceptor)
        (fold (openssl_op_step os sw) (tls_reloads before) store)) stream"
      "oe_poll_accept q tls = Ready (Inr ())" "service = tls_service_new inner (openssl_tls_info ss tls)"
    by (auto simp: openssl_shake_accepted)
  with assms(4) have "\<forall>x \<in> set (tls_reloads before). live store (oc_acceptor (openssl_op_target x))" by auto
  from b shake(1) [unfolded openssl_latest_get [OF assms(2,3) this]] shake(2,3) show ?thesis by blast
qed

text \<open>A connection is accepted, the certificate is replaced, the handshake completes.\<close>

type_synonym toy_ssl_action =
  "(nat, (nat, nat, toy_ssl_builder \<times> nat, toy_ssl_builder list) openssl_env, (toy_ssl_builder, bytes) openssl_op) tls_action"

definition toy_ssl_done :: "(nat, nat, toy_ssl_builder \<times> nat, toy_ssl_builder list) openssl_env" where
  "toy_ssl_done = (toy_ssl_env False)\<lparr>oe_poll_accept := (\<lambda>_. Ready (Inr ()))\<rparr>"

definition toy_openssl_server where
  "toy_openssl_server = openssl_server toy_openssl toy_swap (toy_ssl []) (openssl_acceptor_new \<lparr>oc_acceptor = 0\<rparr>)"

definition tc_ssl_reload :: "toy_ssl_action list" where
  "tc_ssl_reload = tc_connect @ [TaReload (OsReloadPem \<lparr>oc_acceptor = 0\<rparr> [1, 2] [2, 1])] @
     replicate 3 (TaConn 0 toy_ssl_done env_accepts)"

lemma openssl_poll_stages:
  "openssl_poll sw ss env \<lparr>of_inner = OfInnerAccepting timeout, of_config = Some config\<rparr> =
    (case oe_inner env of
       Ready (Inr (stream, service)) \<Rightarrow>
         (case ss_new ss (openssl_get_inner sw config (oe_store env)) of
            Inl e \<Rightarrow> (Panics ''called Result::unwrap() on an Err value'',
              \<lparr>of_inner = OfInnerAccepting timeout, of_config = None\<rparr>)
          | Inr ssl \<Rightarrow>
              (case ss_stream ss ssl stream of
                 Inl e \<Rightarrow> (Panics ''called Result::unwrap() on an Err value'',
                   \<lparr>of_inner = OfInnerAccepting timeout, of_config = None\<rparr>)
               | Inr tls \<Rightarrow> openssl_poll sw ss env
                   \<lparr>of_inner = OfTlsAccepting (Some tls) timeout (Some service), of_config = None\<rparr>))
     | Ready (Inl e) \<Rightarrow> (Returns (Ready (Inl e)), \<lparr>of_inner = OfInnerAccepting timeout, of_config = Some config\<rparr>)
     | Pending \<Rightarrow> (Returns Pending, \<lparr>of_inner = OfInnerAccepting timeout, of_config = Some config\<rparr>))"
  "openssl_poll sw ss env \<lparr>of_inner = OfTlsAccepting (Some tls) timeout (Some service), of_config = c\<rparr> =
    (case ss_timeout ss timeout (oe_elapsed env)
        (case oe_poll_accept env tls of
           Ready (Inr _) \<Rightarrow> Ready (Inr tls) | Ready (Inl e) \<Rightarrow> Ready (Inl (io_other e)) | Pending \<Rightarrow> Pending) of
       Ready (Inr (Inr stream)) \<Rightarrow>
         (Returns (Ready (Inr (stream, tls_service_new service (openssl_tls_info ss stream)))),
          \<lparr>of_inner = OfTlsAccepting (snd (tls_accept_poll env (Some tls))) timeout None, of_config = c\<rparr>)
     | Ready (Inr (Inl e)) \<Rightarrow> (Returns (Ready (Inl e)),
         \<lparr>of_inner = OfTlsAccepting (snd (tls_accept_poll env (Some tls))) timeout (Some service), of_config = c\<rparr>)
     | Ready (Inl msg) \<Rightarrow> (Returns (Ready (Inl (IoError TimedOut msg))),
         \<lparr>of_inner = OfTlsAccepting (snd (tls_accept_poll env (Some tls))) timeout (Some service), of_config = c\<rparr>)
     | Pending \<Rightarrow> (Returns Pending,
         \<lparr>of_inner = OfTlsAccepting (snd (tls_accept_poll env (Some tls))) timeout (Some service), of_config = c\<rparr>))"
  by (subst openssl_poll.simps; auto simp: tls_accept_poll_def Let_def split: poll.split sum.split)+

lemmas tc_ssl_simps =
  run_simps tc_connect_def tls_start_def accepting_new_def accept_call_def accept_poll_def tls_conn_step_def toy_ssl_env_def
  toy_ssl_done_def openssl_accept_def openssl_acceptor_new_def openssl_future_new_def openssl_poll_stages
  tls_accept_poll_def toy_ssl_def openssl_get_inner_def

lemma toy_ssl_reload:
  "snd (openssl_reload_from_pem toy_openssl toy_swap \<lparr>oc_acceptor = 0\<rparr> [1, 2] [2, 1] [([], [], None)]) =
     [([1, 2], [2, 1], Some (alpn_select toy_openssl))]"
  by (simp add: openssl_reload_from_pem_def openssl_reload_def swap_reload_def openssl_config_from_pem_def
      toy_openssl_def toy_swap_def)

theorem openssl_serves_reloaded_witness:
  "\<exists>s tls service. tls_run toy_api toy_config toy_openssl_server tc_ssl_reload (tls_start toy_api [([], [], None)]) = Some s \<and>
     ac_accepted (ts_accepts s ! 0) = Some (tls, service) \<and> fst tls = ([1, 2], [2, 1], Some (alpn_select toy_openssl)) \<and>
     (\<exists>before fenv env after stream inner. tc_ssl_reload = before @ TaConn 0 fenv env # after \<and>
        oe_inner fenv = Ready (Inr (stream, inner)) \<and>
        tls = ssl_stream_of (toy_ssl []) (openssl_latest_acceptor toy_openssl \<lparr>oc_acceptor = 0\<rparr> (tls_reloads before)
          ([], [], None)) stream)"
proof -
  let ?acc = "openssl_acceptor_new \<lparr>oc_acceptor = 0\<rparr>" and ?store = "[([], [], None)] :: toy_ssl_builder list"
  let ?sv = "openssl_server toy_openssl toy_swap (toy_ssl []) ?acc"
  let ?r = "tls_run toy_api toy_config ?sv tc_ssl_reload (tls_start toy_api ?store)"
  obtain s tls service where run: "?r = Some s" and len: "0 < length (sy_conns (ts_sys s))"
    and acc: "ac_accepted (ts_accepts s ! 0) = Some (tls, service)"
      "fst tls = ([1, 2], [2, 1], Some (alpn_select toy_openssl))"
    by (simp add: tc_ssl_reload_def tc_ssl_simps toy_ssl_reload) (simp add: toy_swap_def)
  have "oc_acceptor (oa_config ?acc) < length ?store"
    and "\<forall>x \<in> set (tls_reloads tc_ssl_reload). oc_acceptor (openssl_op_target x) < length ?store"
    by (simp_all add: tc_ssl_reload_def tc_connect_def sc_listen_def sc_accept_def openssl_acceptor_new_def replicate_numeral)
  from openssl_serves_reloaded [OF toy_ssl_documented toy_swap_documented this run len acc(1)]
  obtain before fenv env after stream inner where w: "tc_ssl_reload = before @ TaConn 0 fenv env # after"
      "oe_inner fenv = Ready (Inr (stream, inner))"
      "tls = ssl_stream_of (toy_ssl []) (openssl_latest_acceptor toy_openssl \<lparr>oc_acceptor = 0\<rparr> (tls_reloads before)
        ([], [], None)) stream"
    by (auto simp: openssl_acceptor_new_def openssl_get_inner_def toy_swap_def)
  with acc run show ?thesis unfolding toy_openssl_server_def by blast
qed

text \<open>
  C36. On a server OpenSSL keeps the certificate of the client, the leaf, apart from the chain,
  which holds only what the client sent after it. Then in every reachable state the requests of
  a connection that is served over OpenSSL reach the user's service with exactly the
  certificates after the leaf in their TLS information, in order: the leaf itself, which the
  client presented first, is missing, whatever the client presented.
\<close>

theorem openssl_info_omits_leaf:
  assumes "ssl_documented ss" and "ext_documented ext"
    and "tls_reachable api cfg (openssl_server os sw ss acceptor) store s"
    and "i < length (sy_conns (ts_sys s))"
    and "ac_accepted (ts_accepts s ! i) = Some (tls, w)"
    and "ss_peer_certificate ss tls = Some leaf" and "ss_peer_cert_chain ss tls = Some issuers"
    and "\<forall>c \<in> set (leaf # issuers). ss_to_der ss c = Inr (der c)"
    and "svc_run (tls_service_ops ext ops) xs w = (outs, w')"
  shows "\<exists>p \<in> set (ac_polls (ts_accepts s ! i)). \<exists>stream service change.
    oe_inner p = Ready (Inr (stream, service)) \<and>
    svc_run ops (map (map_svc_op change) xs) service = (outs, tsv_inner w') \<and>
    (\<forall>req. \<exists>info. ex_tls_info ext (change req) = Some info \<and> ti_peer_certificates info = map der issuers \<and>
      map der (leaf # issuers) = der leaf # ti_peer_certificates info)"
proof -
  from openssl_serving.accepted_polls [OF assms(1,3-5)] obtain p stream service where
      p: "p \<in> set (ac_polls (ts_accepts s ! i))" "oe_inner p = Ready (Inr (stream, service))"
    and w: "w = tls_service_new service (openssl_tls_info ss tls)"
    unfolding openssl_shake_accepted by blast
  let ?info = "openssl_tls_info ss tls"
  have run: "svc_run ops (map (map_svc_op (ex_insert_tls_info ext ?info)) xs) service = (outs, tsv_inner w')"
    using tls_layer.layer_run [OF assms(9)] by (simp add: w tls_service_new_def)
  have "List.map_filter (\<lambda>cert. res_ok (ss_to_der ss cert)) cs = map der cs"
    if "set cs \<subseteq> set issuers" for cs
    using that assms(8) by (induction cs) (auto simp: List.map_filter_simps)
  then have "ti_peer_certificates ?info = map der issuers"
    using assms(7) by (simp add: openssl_tls_info_def tls_info_new_def)
  moreover have "ex_tls_info ext (ex_insert_tls_info ext ?info req) = Some ?info" for req
    using assms(2) by (simp add: ext_documented_def)
  ultimately have "\<forall>req. \<exists>info. ex_tls_info ext (ex_insert_tls_info ext ?info req) = Some info \<and>
      ti_peer_certificates info = map der issuers \<and> map der (leaf # issuers) = der leaf # ti_peer_certificates info"
    by simp
  with p run show ?thesis by blast
qed

text \<open>The client presents the certificates 5 and 7.\<close>

definition tc_ssl_served :: "toy_ssl_action list" where
  "tc_ssl_served = tc_connect @ replicate 3 (TaConn 0 toy_ssl_done env_accepts)"

theorem openssl_info_omits_leaf_witness:
  "\<exists>s tls w. \<exists>change :: toy_request \<Rightarrow> toy_request. tls_run toy_api toy_config
       (openssl_server toy_openssl toy_swap (toy_ssl [7]) (openssl_acceptor_new \<lparr>oc_acceptor = 0\<rparr>)) tc_ssl_served
       (tls_start toy_api [([], [], None)]) = Some s \<and>
     ac_accepted (ts_accepts s ! 0) = Some (tls, w) \<and>
     (\<exists>info. ex_tls_info toy_ext (change (None, None)) = Some info \<and> ti_peer_certificates info = [[7 :: 8 word]])"
proof -
  let ?sv = "openssl_server toy_openssl toy_swap (toy_ssl [7]) (openssl_acceptor_new \<lparr>oc_acceptor = 0\<rparr>)"
  let ?r = "tls_run toy_api toy_config ?sv tc_ssl_served (tls_start toy_api [([], [], None)])"
  obtain s tls w where run: "?r = Some s" and len: "0 < length (sy_conns (ts_sys s))"
    and acc: "ac_accepted (ts_accepts s ! 0) = Some (tls, w)"
    by (simp add: tc_ssl_served_def tc_ssl_simps)
  obtain outs w' where use: "svc_run (tls_service_ops toy_ext toy_service) [] w = (outs, w')" by fastforce
  have certs: "ss_peer_certificate (toy_ssl [7]) tls = Some 5" "ss_peer_cert_chain (toy_ssl [7]) tls = Some [7]"
    "\<forall>c \<in> set (5 # [7]). ss_to_der (toy_ssl [7]) c = Inr ((\<lambda>c. [of_nat c]) c)"
    by (simp_all add: toy_ssl_def)
  from openssl_info_omits_leaf [OF toy_ssl_documented toy_ext_documented tls_start_reachable [OF run] len acc certs use]
  obtain change :: "toy_request \<Rightarrow> toy_request" where
    "\<forall>req. \<exists>info. ex_tls_info toy_ext (change req) = Some info \<and> ti_peer_certificates info = map (\<lambda>c. [of_nat c]) [7]"
    by blast
  from this [rule_format, of "(None, None)"]
  have "\<exists>info. ex_tls_info toy_ext (change (None, None)) = Some info \<and> ti_peer_certificates info = [[7 :: 8 word]]" by simp
  with run acc show ?thesis by blast
qed

text \<open>
  What becomes of a connection over OpenSSL, in every reachable state: nothing is reported
  while its acceptor is at work, exactly its error once it has failed, and it is served exactly
  with the stream and service that the acceptor gave.
\<close>

theorem openssl_connection_outcome:
  assumes "ssl_documented ss" and "tls_reachable api cfg (openssl_server os sw ss acceptor) store s"
    and "i < length (sy_conns (ts_sys s))"
  shows "let c = sy_conns (ts_sys s) ! i; a = ts_accepts s ! i;
      result = two_stage_result oe_inner (\<lambda>env. openssl_get_inner sw (oa_config acceptor) (oe_store env))
        (openssl_shake ss (oa_handshake_timeout acceptor)) (ac_polls a)
    in (conn_phase c = PhAccept \<longrightarrow> result = Pending) \<and>
       cn_log c = (case result of
           Ready (Inl e) \<Rightarrow> call_handler (cc_error_handler cfg) (Some (cn_remote c)) e []
         | _ \<Rightarrow> []) \<and>
       ac_accepted a = (case result of Ready (Inr out) \<Rightarrow> Some out | _ \<Rightarrow> None) \<and>
       (cn_serve c \<noteq> None \<longleftrightarrow> ac_accepted a \<noteq> None) \<and>
       (cn_serve c = None \<and> conn_phase c \<noteq> PhAccept \<longrightarrow> conn_phase c = PhDrop \<and> \<not> cn_stream_open c)"
  by (rule openssl_serving.outcome [OF assms])

text \<open>No stalled OpenSSL handshake blocks a shutdown.\<close>

theorem openssl_shutdown_not_blocked:
  assumes "ssl_documented ss"
    and "tls_reachable api cfg (openssl_server os sw ss acceptor
      :: (_, _, _, _, ('acc, 'p) openssl_op) tls_server) store s"
    and "is_notified (hi_shutdown (sy_handle (ts_sys s)))"
    and "tls_run api cfg (openssl_server os sw ss acceptor) (bs :: (_, _, ('acc, 'p) openssl_op) tls_action list) s = Some t"
    and "length (sy_conns (ts_sys t)) = length (sy_conns (ts_sys s))"
    and "length (sy_conns (ts_sys t)) < 2 ^ 64"
    and "\<forall>i < length (sy_conns (ts_sys t)). 8 \<le> count_if (tls_moves_conn i) bs"
  shows "(\<forall>c \<in> set (sy_conns (ts_sys t)). conn_done c \<and> \<not> cn_stream_open c) \<and>
    connection_count (sy_handle (ts_sys t)) = 0"
  by (rule openssl_serving.shutdown_ends [OF assms])

end
