(* ===== verification/CertificateHarness.thy ===== *)
theory CertificateHarness
  imports RustlsTests OpensslServing
begin

text \<open>
  A second harness, for the tests whose client looks at the certificate of the server
  (\<open>test_reload\<close> of both TLS modules, \<open>sni_pem_files_select_certificate_by_server_name\<close>): a
  test task that connects, waits for its handshake, reloads the configuration and compares
  certificates, next to the server of the theory \<open>TlsSystem\<close>. No operation of it waits for a
  timer, and its clients answer, so there is no clock.

  What such a test has to give is computed by a sequential reference, \<open>certs_run\<close>, which
  knows nothing of tasks; the locale \<open>certificate_server\<close> is the interface to the two TLS
  acceptors, and its lemma says that the test agrees with the reference in every interleaving.
\<close>

section \<open>The test\<close>

text \<open>
  The operations: \<open>listening().await.unwrap()\<close>; \<open>get_first_cert_for(addr, name).await\<close>, with
  the address the client connects from; a reload with \<open>unwrap\<close>; an assertion about the
  certificates seen so far; \<open>shutdown\<close>.
\<close>

datatype ('a, 'name, 'op, 'cert) cert_op =
    CtListening
  | CtFirstCert 'a 'name
  | CtReload 'op
  | CtAssert "'cert list \<Rightarrow> bool"
  | CtShutdown

text \<open>
  What does not change: \<open>cw_fenv name done\<close> is what the future of the acceptor is polled with
  when the client that asks for that name has answered, or not yet; \<open>cw_offer name\<close> is the
  certificate that this client has been shown, once there is one; \<open>cw_reload_ok\<close> is whether a
  reload returns \<open>Ok\<close>.
\<close>

record ('a, 'n, 'f, 'fe, 'out, 'h, 'op, 'name, 'cert) cert_world =
  cw_api :: "'n notify_api"
  cw_cfg :: conn_config
  cw_server :: "('fe, 'f, 'out, 'h, 'op) tls_server"
  cw_store :: 'h
  cw_addr :: 'a
  cw_fenv :: "'name \<Rightarrow> bool \<Rightarrow> 'fe"
  cw_offer :: "'name \<Rightarrow> ('f, 'fe, 'out) accepting \<Rightarrow> 'cert option"
  cw_reload_ok :: "'op \<Rightarrow> bool"

text \<open>
  \<open>ct_backlog\<close>: the connections the listener has not handed out; \<open>ct_names\<close>: the names the
  clients ask for, in the order they connected; \<open>ct_waiting\<close>: the last one is in its handshake.
\<close>

record ('a, 'n, 'f, 'fe, 'out, 'h, 'op, 'name, 'cert) cert_test =
  ct_sys :: "('a, 'n, 'f, 'fe, 'out, 'h) tls_sys"
  ct_backlog :: "'a list"
  ct_names :: "'name list"
  ct_script :: "('a, 'name, 'op, 'cert) cert_op list"
  ct_waiting :: bool
  ct_certs :: "'cert list"
  ct_failed :: bool

definition cert_start where
  "cert_start w ops = \<lparr>ct_sys = tls_start (cw_api w) (cw_store w), ct_backlog = [], ct_names = [],
     ct_script = ops, ct_waiting = False, ct_certs = [], ct_failed = False\<rparr>"

text \<open>
  The client of the last connection: nothing yet, its certificate, or \<open>unwrap\<close> on an error
  when the server has dropped it before its handshake was done.
\<close>

datatype 'cert client_sees = SeesNothing | SeesCert 'cert | SeesError

definition last_client :: "('a, 'n, 'f, 'fe, 'out, 'h, 'op, 'name, 'cert) cert_world \<Rightarrow>
   ('a, 'n, 'f, 'fe, 'out, 'h, 'op, 'name, 'cert) cert_test \<Rightarrow> 'cert client_sees" where
  "last_client w s =
     (let i = length (ct_names s) - 1; y = ts_sys (ct_sys s); a = ts_accepts (ct_sys s) ! i
      in if length (sy_conns y) \<le> i then SeesNothing
         else if conn_phase (sy_conns y ! i) = PhDrop \<and> ac_accepted a = None then SeesError
         else case cw_offer w (last (ct_names s)) a of None \<Rightarrow> SeesNothing | Some cert \<Rightarrow> SeesCert cert)"

definition cert_sys_step where
  "cert_sys_step w b s = map_option (\<lambda>t. s\<lparr>ct_sys := t\<rparr>)
     (tls_sys_step (cw_api w) (cw_cfg w) (cw_server w) b (ct_sys s))"

fun cert_test_step :: "('a, 'n, 'f, 'fe, 'out, 'h, 'op, 'name, 'cert) cert_world \<Rightarrow>
   ('a, 'n, 'f, 'fe, 'out, 'h, 'op, 'name, 'cert) cert_test \<Rightarrow>
   ('a, 'n, 'f, 'fe, 'out, 'h, 'op, 'name, 'cert) cert_test" where
  "cert_test_step w s =
     (case ct_script s of
        [] \<Rightarrow> s
      | CtListening # ops \<Rightarrow>
          if \<not> listening_ready (ts_sys (ct_sys s)) then s
          else if listening_is (\<lambda>a. a \<noteq> None) (ts_sys (ct_sys s)) then s\<lparr>ct_script := ops\<rparr>
          else s\<lparr>ct_failed := True\<rparr>
      | CtFirstCert a name # ops \<Rightarrow>
          if \<not> ct_waiting s
          then s\<lparr>ct_backlog := ct_backlog s @ [a], ct_names := ct_names s @ [name], ct_waiting := True\<rparr>
          else (case last_client w s of
                  SeesNothing \<Rightarrow> s
                | SeesError \<Rightarrow> s\<lparr>ct_failed := True\<rparr>
                | SeesCert cert \<Rightarrow> s\<lparr>ct_certs := ct_certs s @ [cert], ct_waiting := False, ct_script := ops\<rparr>)
      | CtReload x # ops \<Rightarrow>
          (case cert_sys_step w (TaReload x) s of
             None \<Rightarrow> s
           | Some t \<Rightarrow> if cw_reload_ok w x then t\<lparr>ct_script := ops\<rparr> else t\<lparr>ct_failed := True\<rparr>)
      | CtAssert P # ops \<Rightarrow> if P (ct_certs s) then s\<lparr>ct_script := ops\<rparr> else s\<lparr>ct_failed := True\<rparr>
      | CtShutdown # ops \<Rightarrow>
          (case cert_sys_step w (TaSys ActShutdown) s of None \<Rightarrow> s | Some t \<Rightarrow> t\<lparr>ct_script := ops\<rparr>))"

text \<open>
  A step of the server, a poll of a connection's task, its client having answered or not and
  Hyper, the timer and the oneshot of the task doing anything, or a step of the test.
\<close>

datatype cert_action = CtServe | CtConn nat bool conn_env | CtTest

fun cert_step :: "('a, 'n, 'f, 'fe, 'out, 'h, 'op, 'name, 'cert) cert_world \<Rightarrow> cert_action \<Rightarrow>
   ('a, 'n, 'f, 'fe, 'out, 'h, 'op, 'name, 'cert) cert_test \<Rightarrow>
   ('a, 'n, 'f, 'fe, 'out, 'h, 'op, 'name, 'cert) cert_test option" where
  "cert_step w CtServe s =
     map_option (\<lambda>t. t\<lparr>ct_backlog := (if sy_serve (ts_sys (ct_sys s)) = SvLoop (LpAccept AfStream)
         then tl (ct_backlog s) else ct_backlog s)\<rparr>)
       (cert_sys_step w (TaSys (ActServe (backlog_env (Inr ()) (Inr (cw_addr w)) (ct_backlog s)))) s)"
| "cert_step w (CtConn i answered env) s =
     cert_sys_step w (TaConn i (cw_fenv w (ct_names s ! i) answered) env) s"
| "cert_step w CtTest s = Some (if ct_failed s then s else cert_test_step w s)"

inductive cert_moves for w where
  cert_moves: "cert_step w b s = Some t \<Longrightarrow> cert_moves w s t"

inductive_simps cert_moves_iff: "cert_moves w s t"

abbreviation cert_reachable where
  "cert_reachable w ops \<equiv> reach (\<lambda>s. s = cert_start w ops) (cert_moves w)"

fun cert_test_run where
  "cert_test_run w [] s = Some s"
| "cert_test_run w (b # bs) s = (case cert_step w b s of None \<Rightarrow> None | Some t \<Rightarrow> cert_test_run w bs t)"

lemma cert_run_reachable:
  "cert_reachable w ops s \<Longrightarrow> cert_test_run w bs s = Some t \<Longrightarrow> cert_reachable w ops t"
proof (induction bs arbitrary: s)
  case (Cons b bs)
  from Cons.prems(2) obtain u where "cert_step w b s = Some u" and "cert_test_run w bs u = Some t"
    by (auto split: option.splits)
  then show ?case using Cons.IH [OF reach_step [OF Cons.prems(1) cert_moves]] by blast
qed simp

lemma cert_start_reachable: "cert_test_run w bs (cert_start w ops) = Some t \<Longrightarrow> cert_reachable w ops t"
  by (rule cert_run_reachable [OF reach_start]) simp_all

lemma cert_sys_step_sys:
  "cert_sys_step w b s = Some t \<Longrightarrow> tls_sys_step (cw_api w) (cw_cfg w) (cw_server w) b (ct_sys s) = Some (ct_sys t)"
  by (auto simp: cert_sys_step_def simp del: tls_sys_step.simps)

lemma cert_test_step_sys:
  "ct_sys (cert_test_step w s) = ct_sys s \<or>
   (\<exists>b. tls_sys_step (cw_api w) (cw_cfg w) (cw_server w) b (ct_sys s) = Some (ct_sys (cert_test_step w s)))"
proof (cases "ct_script s")
  case (Cons x ops)
  then show ?thesis
  proof (cases x)
    case (CtReload y)
    with Cons show ?thesis by (cases "cert_sys_step w (TaReload y) s") (auto dest: cert_sys_step_sys)
  next
    case CtShutdown
    with Cons show ?thesis by (cases "cert_sys_step w (TaSys ActShutdown) s") (auto dest: cert_sys_step_sys)
  qed (simp_all split: client_sees.split)
qed simp

interpretation cert_system: simulation "\<lambda>t. t = tls_start (cw_api w) (cw_store w)"
    "tls_moves (cw_api w) (cw_cfg w) (cw_server w)" "\<lambda>s. s = cert_start w ops" "cert_moves w" ct_sys
  for w :: "('a, 'n, 'f, 'fe, 'out, 'h, 'op, 'name, 'cert) cert_world" and ops
proof
  show "ct_sys s = tls_start (cw_api w) (cw_store w)" if "s = cert_start w ops"
    for s :: "('a, 'n, 'f, 'fe, 'out, 'h, 'op, 'name, 'cert) cert_test"
    using that by (simp add: cert_start_def)
  show "tls_moves (cw_api w) (cw_cfg w) (cw_server w) (ct_sys s) (ct_sys t) \<or> ct_sys t = ct_sys s"
    if "cert_moves w s t" for s t :: "('a, 'n, 'f, 'fe, 'out, 'h, 'op, 'name, 'cert) cert_test"
  proof -
    from that obtain b where step: "cert_step w b s = Some t" by (auto simp: cert_moves_iff)
    then show ?thesis
    proof (cases b)
      case CtTest
      with step cert_test_step_sys [of w s] show ?thesis
        by (auto simp: tls_moves_iff simp del: cert_test_step.simps)
    next
      case CtServe
      with step show ?thesis by (auto simp: tls_moves_iff simp del: tls_sys_step.simps dest!: cert_sys_step_sys)
    next
      case (CtConn i answered env)
      with step show ?thesis by (auto simp: tls_moves_iff simp del: tls_sys_step.simps dest!: cert_sys_step_sys)
    qed
  qed
qed

text \<open>No task can get on: the server and the acceptors of clients that have answered wait, and so does the test.\<close>

definition acceptor_waits where
  "acceptor_waits w s i \<longleftrightarrow> conn_phase (sy_conns (ts_sys (ct_sys s)) ! i) = PhAccept \<longrightarrow>
     (case fst (accept_poll (cw_server w) (ts_store (ct_sys s)) (cw_fenv w (ct_names s ! i) True)
        (ts_accepts (ct_sys s) ! i)) of Returns Pending \<Rightarrow> True | _ \<Rightarrow> False)"

definition cert_test_waits where
  "cert_test_waits w s \<longleftrightarrow> ct_failed s \<or>
     (case ct_script s of
        [] \<Rightarrow> True
      | CtListening # _ \<Rightarrow> \<not> listening_ready (ts_sys (ct_sys s))
      | CtFirstCert a name # _ \<Rightarrow> ct_waiting s \<and> last_client w s = SeesNothing
      | _ \<Rightarrow> False)"

definition cert_idle where
  "cert_idle w s \<longleftrightarrow>
     serve_blocked (sy_handle (ts_sys (ct_sys s))) (ct_backlog s) (sy_serve (ts_sys (ct_sys s))) \<and>
     list_all (acceptor_waits w s) [0..<length (sy_conns (ts_sys (ct_sys s)))] \<and> cert_test_waits w s"

section \<open>The sequential reference\<close>

text \<open>
  The certificates that the test sees, if it passes: \<open>loaded\<close> is the configuration in the
  store, \<open>presents\<close> the certificate that it has for a name.
\<close>

fun certs_run :: "('h \<Rightarrow> 'cfg) \<Rightarrow> ('cfg \<Rightarrow> 'name \<Rightarrow> 'cert) \<Rightarrow> ('op \<Rightarrow> 'h \<Rightarrow> 'h) \<Rightarrow> ('op \<Rightarrow> bool) \<Rightarrow> 'h \<Rightarrow>
   ('a, 'name, 'op, 'cert) cert_op list \<Rightarrow> 'cert list \<Rightarrow> 'cert list option" where
  "certs_run loaded presents reload ok h [] certs = Some certs"
| "certs_run loaded presents reload ok h (CtListening # ops) certs = certs_run loaded presents reload ok h ops certs"
| "certs_run loaded presents reload ok h (CtFirstCert a name # ops) certs =
     certs_run loaded presents reload ok h ops (certs @ [presents (loaded h) name])"
| "certs_run loaded presents reload ok h (CtReload x # ops) certs =
     (if ok x then certs_run loaded presents reload ok (reload x h) ops certs else None)"
| "certs_run loaded presents reload ok h (CtAssert P # ops) certs =
     (if P certs then certs_run loaded presents reload ok h ops certs else None)"
| "certs_run loaded presents reload ok h (CtShutdown # ops) certs = (if ops = [] then Some certs else None)"

section \<open>The contract of the acceptor\<close>

text \<open>
  \<open>ok\<close> stands for the documented behaviour of the TLS library; \<open>shaking c f\<close>: the future is in a
  handshake with the configuration \<open>c\<close>.
\<close>

locale certificate_server =
  fixes ok :: bool and w :: "('a, 'n, 'f, 'fe, 'out, 'h, 'op, 'name, 'cert) cert_world"
    and loaded :: "'h \<Rightarrow> 'cfg" and presents :: "'cfg \<Rightarrow> 'name \<Rightarrow> 'cert" and shaking :: "'cfg \<Rightarrow> 'f \<Rightarrow> bool"
  assumes lazy: "lazy_call (cw_server w)"
    and starts: "ok \<Longrightarrow> accept_poll (cw_server w) h (cw_fenv w name answered) a = (r, b) \<Longrightarrow>
      ac_future a = tv_start (cw_server w) \<Longrightarrow>
      (if answered then (\<exists>out. r = Returns (Ready (Inr out))) \<and> cw_offer w name b = Some (presents (loaded h) name)
       else r = Returns Pending \<and> shaking (loaded h) (ac_future b))"
    and shakes: "ok \<Longrightarrow> accept_poll (cw_server w) h (cw_fenv w name answered) a = (r, b) \<Longrightarrow> shaking c (ac_future a) \<Longrightarrow>
      (if answered then (\<exists>out. r = Returns (Ready (Inr out))) \<and> cw_offer w name b = Some (presents c name)
       else r = Returns Pending \<and> shaking c (ac_future b))"
    and offers: "ok \<Longrightarrow> ac_accepted a = None \<Longrightarrow> shaking c (ac_future a) \<Longrightarrow> cw_offer w name a = Some (presents c name)"
    and offers_not: "ok \<Longrightarrow> ac_accepted a = None \<Longrightarrow> ac_future a = tv_start (cw_server w) \<Longrightarrow> cw_offer w name a = None"

begin

text \<open>The connections whose clients have been shown \<open>cert\<close>, and one that was not polled yet.\<close>

definition client_view where
  "client_view cert name c a \<longleftrightarrow>
     conn_phase c = PhAccept \<and> ac_accepted a = None \<and> (\<exists>k. shaking k (ac_future a) \<and> presents k name = cert) \<or>
     conn_phase c \<noteq> PhAccept \<and> ac_accepted a \<noteq> None \<and> cw_offer w name a = Some cert"

definition untouched where
  "untouched c a \<longleftrightarrow> conn_phase c = PhAccept \<and> ac_accepted a = None \<and> ac_future a = tv_start (cw_server w)"

lemma conn_step_quiet:
  assumes "\<not> is_notified (hi_shutdown h)" and "\<not> is_notified (hi_graceful h)"
    and "tls_conn_step (cw_api w) (cw_cfg w) (cw_server w) store (cw_fenv w name answered) env h c a = (h', c', a')" and ok: "ok"
  shows "client_view cert name c a \<Longrightarrow> client_view cert name c' a'"
    and "untouched c a \<Longrightarrow> untouched c' a' \<or> client_view (presents (loaded store) name) name c' a'"
proof -
  obtain r b where poll: "accept_poll (cw_server w) store (cw_fenv w name answered) a = (r, b)" by fastforce
  have accepted: "ac_accepted b = Some out" if "r = Returns (Ready (Inr out))" for out
    using poll that by (auto simp: accept_poll_def split: prod.splits)
  have pending: "ac_accepted b = None" if "r = Returns Pending"
    using poll that by (auto simp: accept_poll_def split: prod.splits)
  have keep: "ac_accepted a' = ac_accepted a \<and> ac_future a' = ac_future a \<and> conn_phase c' = PhAccept \<or> a' = b \<and>
      (r = Returns Pending \<and> conn_phase c' = PhAccept \<or> (\<exists>out. r = Returns (Ready (Inr out))) \<and> conn_phase c' \<noteq> PhAccept)"
    if "conn_phase c = PhAccept" "(\<exists>out. r = Returns (Ready (Inr out))) \<or> r = Returns Pending"
    using accept_keeps [OF that(1) assms(1-3), of "[]"] that(2) poll
    by (auto simp: lazy_future [OF lazy] split: if_splits)
  show "client_view cert name c' a'" if view: "client_view cert name c a"
  proof (cases "conn_phase c = PhAccept")
    case True
    with view obtain k where k: "shaking k (ac_future a)" "presents k name = cert" "ac_accepted a = None"
      by (auto simp: client_view_def)
    note shake = shakes [OF ok poll k(1)]
    from keep [OF True] shake k accepted pending show ?thesis
      by (cases answered) (auto simp: client_view_def)
  next
    case False
    then have "cn_pc c \<noteq> AccAccept" "cn_pc c \<noteq> AccShutdown" by (auto simp: conn_phase_def)
    with assms(3) have "a' = a" "c' = snd (conn_step (cw_api w) (cw_cfg w) env h c)"
      by (simp_all add: tls_conn_step_other)
    moreover have "conn_phase c' \<noteq> PhAccept"
      using conn_step_phase [of c "cw_api w" "cw_cfg w" env h] False calculation(2)
      by (cases "conn_phase c") (auto simp: less_eq_phase_def)
    ultimately show ?thesis using view False by (auto simp: client_view_def)
  qed
  show "untouched c' a' \<or> client_view (presents (loaded store) name) name c' a'" if un: "untouched c a"
  proof -
    from un have c: "conn_phase c = PhAccept" "ac_future a = tv_start (cw_server w)" by (simp_all add: untouched_def)
    from keep [OF c(1)] starts [OF ok poll c(2)] un accepted pending show ?thesis
      by (cases answered) (auto simp: client_view_def untouched_def)
  qed
qed

text \<open>
  Before shutdown: the connections that were made are those with a task, the one that \<open>serve\<close>
  holds and the backlog; the clients were shown what the test has noted, and the last one,
  while the test waits for it, what the store has now.
\<close>

definition expected where
  "expected s = ct_certs s @
     (if ct_waiting s then [presents (loaded (ts_store (ct_sys s))) (last (ct_names s))] else [])"

definition queues where
  "queues y backlog n \<longleftrightarrow> \<not> is_notified (hi_shutdown (sy_handle y)) \<and> \<not> is_notified (hi_graceful (sy_handle y)) \<and>
     serve_steady (cw_addr w) (sy_handle y) (sy_serve y) \<and>
     n = length (sy_conns y) + length (serve_holds (sy_serve y)) + length backlog"

definition clients where
  "clients s \<longleftrightarrow> (\<forall>i < length (sy_conns (ts_sys (ct_sys s))).
     (let c = sy_conns (ts_sys (ct_sys s)) ! i; a = ts_accepts (ct_sys s) ! i
      in client_view (expected s ! i) (ct_names s ! i) c a \<or>
         ct_waiting s \<and> i = length (ct_certs s) \<and> untouched c a))"

definition going where
  "going s \<longleftrightarrow> queues (ts_sys (ct_sys s)) (ct_backlog s) (length (ct_names s)) \<and>
     length (ts_accepts (ct_sys s)) = length (sy_conns (ts_sys (ct_sys s))) \<and>
     length (ct_names s) = length (expected s) \<and>
     length (ct_certs s) \<le> length (sy_conns (ts_sys (ct_sys s))) \<and>
     (ct_waiting s \<longrightarrow> (\<exists>a ops. ct_script s = CtFirstCert a (last (ct_names s)) # ops)) \<and> clients s"

lemma last_name:
  assumes "going s" and "ct_waiting s"
  shows "length (ct_names s) = Suc (length (ct_certs s))" and "ct_names s ! length (ct_certs s) = last (ct_names s)"
proof -
  show len: "length (ct_names s) = Suc (length (ct_certs s))" using assms by (simp add: going_def expected_def)
  then have "ct_names s \<noteq> []" by auto
  with len show "ct_names s ! length (ct_certs s) = last (ct_names s)" by (simp add: last_conv_nth)
qed

lemma going_conn:
  assumes "going s" and "cert_step w (CtConn i answered env) s = Some t" and ok: "ok"
  shows "going t \<and> ct_script t = ct_script s \<and> ct_certs t = ct_certs s \<and> ct_failed t = ct_failed s \<and>
    ts_store (ct_sys t) = ts_store (ct_sys s)"
proof -
  from assms(2) obtain u where u: "tls_sys_step (cw_api w) (cw_cfg w) (cw_server w)
      (TaConn i (cw_fenv w (ct_names s ! i) answered) env) (ct_sys s) = Some u" and t: "t = s\<lparr>ct_sys := u\<rparr>"
    by (auto simp: cert_sys_step_def simp del: tls_sys_step.simps)
  let ?y = "ts_sys (ct_sys s)"
  from tls_conn_poll [OF u] obtain h c a where
      step: "tls_conn_step (cw_api w) (cw_cfg w) (cw_server w) (ts_store (ct_sys s)) (cw_fenv w (ct_names s ! i) answered)
        env (sy_handle ?y) (sy_conns ?y ! i) (ts_accepts (ct_sys s) ! i) = (h, c, a)"
    and i: "i < length (sy_conns ?y)" and h: "same_signals (sy_handle ?y) h"
    and u': "u = (ct_sys s)\<lparr>ts_sys := ?y\<lparr>sy_handle := h, sy_conns := (sy_conns ?y)[i := c]\<rparr>,
          ts_accepts := (ts_accepts (ct_sys s))[i := a]\<rparr>" by blast
  have same: "expected t = expected s" by (simp add: expected_def t u')
  have "queues (ts_sys (ct_sys t)) (ct_backlog t) (length (ct_names t))"
    using assms(1) h serve_steady_signals [OF h] by (simp add: going_def queues_def t u' same_signals_def)
  moreover have "clients t"
    unfolding clients_def
  proof (intro allI impI)
    fix j assume j: "j < length (sy_conns (ts_sys (ct_sys t)))"
    have old: "let c = sy_conns ?y ! j; a = ts_accepts (ct_sys s) ! j
      in client_view (expected s ! j) (ct_names s ! j) c a \<or> ct_waiting s \<and> j = length (ct_certs s) \<and> untouched c a"
      using assms(1) j by (simp add: going_def clients_def t u')
    have quiet: "\<not> is_notified (hi_shutdown (sy_handle ?y))" "\<not> is_notified (hi_graceful (sy_handle ?y))"
      using assms(1) by (simp_all add: going_def queues_def)
    have last: "expected s ! j = presents (loaded (ts_store (ct_sys s))) (ct_names s ! j)"
      if "ct_waiting s" "j = length (ct_certs s)"
      using last_name(2) [OF assms(1) that(1)] that by (simp add: expected_def)
    show "let c = sy_conns (ts_sys (ct_sys t)) ! j; a = ts_accepts (ct_sys t) ! j
      in client_view (expected t ! j) (ct_names t ! j) c a \<or> ct_waiting t \<and> j = length (ct_certs t) \<and> untouched c a"
    proof (cases "i = j")
      case False
      with old show ?thesis by (simp add: t u' same [unfolded t u'])
    next
      case True
      with i assms(1) have now: "sy_conns (ts_sys (ct_sys t)) ! j = c" "ts_accepts (ct_sys t) ! j = a"
        by (simp_all add: t u' going_def)
      from old conn_step_quiet [OF quiet step ok] True last show ?thesis
        unfolding same Let_def now by (auto simp: t)
    qed
  qed
  ultimately show ?thesis using assms(1) same by (auto simp: going_def t u')
qed

lemma going_serve:
  assumes "going s" and "cert_step w CtServe s = Some t"
  shows "going t \<and> ct_script t = ct_script s \<and> ct_certs t = ct_certs s \<and> ct_failed t = ct_failed s \<and>
    ts_store (ct_sys t) = ts_store (ct_sys s)"
proof -
  let ?y = "ts_sys (ct_sys s)"
  define out where "out = serve_step (cw_api w) (cw_cfg w)
    (backlog_env (Inr ()) (Inr (cw_addr w)) (ct_backlog s)) (sy_handle ?y) (sy_serve ?y)"
  from assms(1) have st: "serve_steady (cw_addr w) (sy_handle ?y) (sy_serve ?y)"
    "\<not> is_notified (hi_graceful (sy_handle ?y))" "\<not> is_notified (hi_shutdown (sy_handle ?y))"
    by (simp_all add: going_def queues_def)
  have t: "ct_sys t = (ct_sys s)\<lparr>ts_sys := ?y\<lparr>sy_handle := so_handle out, sy_serve := so_pc out,
        sy_conns := sy_conns ?y @ so_spawn out, sy_log := sy_log ?y @ so_log out\<rparr>,
      ts_accepts := ts_accepts (ct_sys s) @ replicate (length (so_spawn out)) (accepting_new (cw_server w))\<rparr>"
    "ct_backlog t = (if sy_serve ?y = SvLoop (LpAccept AfStream) then tl (ct_backlog s) else ct_backlog s)"
    "ct_names t = ct_names s" "ct_script t = ct_script s" "ct_waiting t = ct_waiting s" "ct_certs t = ct_certs s"
    "ct_failed t = ct_failed s"
    using assms(2) by (auto simp: cert_sys_step_def out_def Let_def)
  note steady = serve_step_steady [OF st(1,2) out_def t(2)]
  have signals: "hi_shutdown (so_handle out) = hi_shutdown (sy_handle ?y)"
    "hi_graceful (so_handle out) = hi_graceful (sy_handle ?y)"
    by (simp_all add: out_def serve_step_shutdown [OF st(1)] serve_step_signals del: backlog_env_def)
  have on: "\<not> serve_over (so_pc out)"
    using steady signals st(3) by (cases "so_pc out") auto
  with steady have "map cn_remote (so_spawn out) @ serve_holds (so_pc out) @ ct_backlog t = serve_holds (sy_serve ?y) @ ct_backlog s"
    by simp
  then have lengths: "length (so_spawn out) + length (serve_holds (so_pc out)) + length (ct_backlog t) =
      length (serve_holds (sy_serve ?y)) + length (ct_backlog s)"
    by (metis add.assoc length_append length_map)
  have same: "expected t = expected s" by (simp add: expected_def t)
  have "clients t"
    unfolding clients_def
  proof (intro allI impI)
    fix i assume i: "i < length (sy_conns (ts_sys (ct_sys t)))"
    show "let c = sy_conns (ts_sys (ct_sys t)) ! i; a = ts_accepts (ct_sys t) ! i
      in client_view (expected t ! i) (ct_names t ! i) c a \<or> ct_waiting t \<and> i = length (ct_certs t) \<and> untouched c a"
    proof (cases "i < length (sy_conns ?y)")
      case True
      with assms(1) show ?thesis by (simp add: going_def clients_def t same [unfolded t] nth_append Let_def)
    next
      case False
      let ?k = "i - length (sy_conns ?y)"
      from False i have k: "?k < length (so_spawn out)" by (simp add: t)
      from spawned_new [OF nth_mem [OF k, unfolded out_def]] obtain r where "so_spawn out ! ?k = conn_spawn r"
        unfolding out_def by blast
      then have "untouched (sy_conns (ts_sys (ct_sys t)) ! i) (ts_accepts (ct_sys t) ! i)"
        using False k assms(1)
        by (simp add: untouched_def t nth_append going_def accepting_new_def conn_spawn_def conn_phase_def)
      moreover have "ct_waiting s \<and> i = length (ct_certs s)"
        using False k lengths assms(1) by (auto simp: going_def queues_def expected_def split: if_splits)
      ultimately show ?thesis by (simp add: t Let_def)
    qed
  qed
  with assms(1) steady signals lengths same st show ?thesis
    by (auto simp: going_def queues_def t)
qed

text \<open>A step of the test.\<close>

definition reference where
  "reference s = certs_run loaded presents (tv_reload (cw_server w)) (cw_reload_ok w) (ts_store (ct_sys s))
     (ct_script s) (ct_certs s)"

lemma last_client_cert:
  assumes "going s" and "ct_waiting s" and ok: "ok"
  shows "last_client w s = SeesNothing \<or>
    last_client w s = SeesCert (presents (loaded (ts_store (ct_sys s))) (last (ct_names s))) \<and>
      length (sy_conns (ts_sys (ct_sys s))) = length (ct_names s) \<and>
      \<not> untouched (sy_conns (ts_sys (ct_sys s)) ! length (ct_certs s)) (ts_accepts (ct_sys s) ! length (ct_certs s))"
proof -
  let ?y = "ts_sys (ct_sys s)" and ?i = "length (ct_certs s)"
  note len = last_name(1) [OF assms(1,2)] and n = last_name(2) [OF assms(1,2)]
  show ?thesis
  proof (cases "length (sy_conns ?y) \<le> ?i")
    case True
    with len show ?thesis by (simp add: last_client_def Let_def)
  next
    case False
    then have "?i < length (sy_conns ?y)" by simp
    with assms(1) have "let c = sy_conns ?y ! ?i; a = ts_accepts (ct_sys s) ! ?i
      in client_view (expected s ! ?i) (ct_names s ! ?i) c a \<or> ct_waiting s \<and> ?i = ?i \<and> untouched c a"
      unfolding going_def clients_def by blast
    with assms(2) have view: "client_view (presents (loaded (ts_store (ct_sys s))) (last (ct_names s)))
        (last (ct_names s)) (sy_conns ?y ! ?i) (ts_accepts (ct_sys s) ! ?i) \<or>
        untouched (sy_conns ?y ! ?i) (ts_accepts (ct_sys s) ! ?i)"
      by (auto simp: expected_def n Let_def)
    have "length (ct_names s) = length (sy_conns ?y) + length (serve_holds (sy_serve ?y)) + length (ct_backlog s)"
      using assms(1) by (simp add: going_def queues_def)
    with False len have "length (sy_conns ?y) = length (ct_names s)" by linarith
    with view False len offers [OF ok] offers_not [OF ok] show ?thesis
      by (auto simp: last_client_def client_view_def untouched_def Let_def split: option.splits)
  qed
qed

lemma listening_has_address:
  assumes "going s" and "listening_ready (ts_sys (ct_sys s))"
  shows "listening_is (\<lambda>a. a \<noteq> None) (ts_sys (ct_sys s))"
proof -
  have "hi_addr (sy_handle (ts_sys (ct_sys s))) = Some (cw_addr w)"
    using assms by (cases "sy_serve (ts_sys (ct_sys s))") (auto simp: going_def queues_def)
  then show ?thesis by (simp add: listening_is_def)
qed

definition ended where
  "ended final s \<longleftrightarrow> is_notified (hi_shutdown (sy_handle (ts_sys (ct_sys s)))) \<and> ct_script s = [] \<and> ct_certs s = final"

definition agrees where
  "agrees final s \<longleftrightarrow> \<not> ct_failed s \<and> (going s \<and> reference s = Some final \<or> ended final s)"

lemma going_test:
  assumes "going s" and "reference s = Some final" and "\<not> ct_failed s" and ok: "ok"
  shows "agrees final (cert_test_step w s)"
proof (cases "ct_script s")
  case Nil
  with assms show ?thesis by (simp add: agrees_def)
next
  case (Cons x ops)
  show ?thesis
  proof (cases x)
    case CtListening
    with assms Cons listening_has_address [OF assms(1)] show ?thesis
      by (auto simp: agrees_def reference_def going_def clients_def expected_def)
  next
    case (CtFirstCert a name)
    show ?thesis
    proof (cases "ct_waiting s")
      case False
      let ?t = "s\<lparr>ct_backlog := ct_backlog s @ [a], ct_names := ct_names s @ [name], ct_waiting := True\<rparr>"
      have "length (sy_conns (ts_sys (ct_sys s))) \<le> length (ct_names s)" "length (ct_names s) = length (ct_certs s)"
        using assms(1) False by (simp_all add: going_def queues_def expected_def)
      then have "going ?t"
        using assms(1) False Cons CtFirstCert
        by (auto simp: going_def queues_def clients_def expected_def nth_append Let_def)
      with assms False Cons CtFirstCert show ?thesis by (simp add: agrees_def reference_def)
    next
      case True
      let ?cert = "presents (loaded (ts_store (ct_sys s))) (last (ct_names s))"
      let ?t = "s\<lparr>ct_certs := ct_certs s @ [?cert], ct_waiting := False, ct_script := ops\<rparr>"
      have name: "name = last (ct_names s)" using assms(1) True Cons CtFirstCert by (simp add: going_def)
      have "going ?t" if "last_client w s = SeesCert ?cert" "length (sy_conns (ts_sys (ct_sys s))) = length (ct_names s)"
        "\<not> untouched (sy_conns (ts_sys (ct_sys s)) ! length (ct_certs s)) (ts_accepts (ct_sys s) ! length (ct_certs s))"
        using assms(1) True that(2,3) last_name(1) [OF assms(1) True]
        by (auto simp: going_def clients_def expected_def Let_def)
      with assms True Cons CtFirstCert name last_client_cert [OF assms(1) True ok] show ?thesis
        by (auto simp: agrees_def reference_def)
    qed
  next
    case (CtReload y)
    with assms Cons show ?thesis
      by (auto simp: agrees_def reference_def cert_sys_step_def going_def clients_def expected_def split: if_splits)
  next
    case (CtAssert P)
    with assms Cons show ?thesis
      by (auto simp: agrees_def reference_def going_def clients_def expected_def split: if_splits)
  next
    case CtShutdown
    with assms Cons show ?thesis
      by (auto simp: agrees_def reference_def cert_sys_step_def ended_def handle_simps split: if_splits)
  qed
qed

text \<open>After shutdown nothing of the test changes any more.\<close>

lemma ended_step:
  assumes "ended final s" and "cert_step w b s = Some t"
  shows "ended final t \<and> ct_failed t = ct_failed s"
proof (cases "b = CtTest")
  case True
  with assms show ?thesis by (auto simp: ended_def split: if_splits)
next
  case False
  from assms(2) False obtain x u where u: "tls_sys_step (cw_api w) (cw_cfg w) (cw_server w) x (ct_sys s) = Some u"
      "ct_sys t = u" "ct_script t = ct_script s" "ct_certs t = ct_certs s" "ct_failed t = ct_failed s"
    by (cases b) (auto simp: cert_sys_step_def simp del: tls_sys_step.simps)
  from tls_step_label [OF u(1)] have "ts_sys u = ts_sys (ct_sys s) \<or> (\<exists>y. sys_step (cw_api w) (cw_cfg w) y (ts_sys (ct_sys s)) = Some (ts_sys u))"
    by (auto split: option.splits simp del: sys_step.simps)
  then have "latches_grow (sy_handle (ts_sys (ct_sys s))) (sy_handle (ts_sys u))" using sys_step_grow by auto
  with assms(1) u show ?thesis by (auto simp: ended_def latches_grow_def)
qed

lemma agrees_step:
  assumes "agrees final s" and "cert_step w b s = Some t" and ok: "ok"
  shows "agrees final t"
proof (cases "ended final s")
  case True
  with ended_step [OF True assms(2)] assms(1) show ?thesis by (simp add: agrees_def)
next
  case False
  with assms(1) have on: "going s" "reference s = Some final" "\<not> ct_failed s" by (simp_all add: agrees_def)
  show ?thesis
  proof (cases b)
    case CtServe
    from going_serve [OF on(1) assms(2) [unfolded CtServe]] on show ?thesis by (simp add: agrees_def reference_def)
  next
    case (CtConn i answered env)
    from going_conn [OF on(1) assms(2) [unfolded CtConn] ok] on show ?thesis by (simp add: agrees_def reference_def)
  next
    case CtTest
    with assms(2) on going_test [OF on ok] show ?thesis by (simp del: cert_test_step.simps)
  qed
qed

lemma agrees_start:
  assumes "certs_run loaded presents (tv_reload (cw_server w)) (cw_reload_ok w) (cw_store w) ops [] = Some final"
  shows "agrees final (cert_start w ops)"
  using assms
  by (simp add: agrees_def going_def queues_def clients_def expected_def reference_def cert_start_def tls_start_def
      sys_start_def handle_simps)

text \<open>The test never waits in vain.\<close>

lemma idle_done:
  assumes "agrees final s" and "cert_idle w s" and ok: "ok"
  shows "ct_script s = []"
proof (rule ccontr)
  assume script: "ct_script s \<noteq> []"
  let ?y = "ts_sys (ct_sys s)"
  from assms(1) script have on: "going s" "\<not> ct_failed s" by (auto simp: agrees_def ended_def)
  have "serve_blocked (sy_handle ?y) (ct_backlog s) (sy_serve ?y)" using assms(2) by (simp add: cert_idle_def)
  then have served: "serve_holds (sy_serve ?y) = [] \<and> ct_backlog s = [] \<and> listening_ready ?y"
    using on(1)
    by (cases "(sy_handle ?y, ct_backlog s, sy_serve ?y)" rule: serve_blocked.cases) (auto simp: going_def queues_def)
  from assms(2) have waits: "cert_test_waits w s" by (simp add: cert_idle_def)
  with script on(2) served have "ct_waiting s" "last_client w s = SeesNothing"
    by (auto simp: cert_test_waits_def split: list.splits cert_op.splits)
  with served on(1) last_name [OF on(1)] have i: "length (ct_certs s) < length (sy_conns ?y)"
    by (simp add: going_def queues_def)
  let ?c = "sy_conns ?y ! length (ct_certs s)" and ?a = "ts_accepts (ct_sys s) ! length (ct_certs s)"
  let ?name = "last (ct_names s)"
  note name = last_name [OF on(1) \<open>ct_waiting s\<close>]
  have "client_view (presents (loaded (ts_store (ct_sys s))) ?name) ?name ?c ?a \<or> untouched ?c ?a"
    using on(1) i \<open>ct_waiting s\<close> name by (auto simp: going_def clients_def expected_def Let_def)
  with \<open>last_client w s = SeesNothing\<close> i name offers [OF ok] have "untouched ?c ?a"
    by (auto simp: last_client_def client_view_def Let_def split: option.splits)
  moreover obtain r b where poll: "accept_poll (cw_server w) (ts_store (ct_sys s)) (cw_fenv w ?name True) ?a = (r, b)"
    by fastforce
  moreover have "acceptor_waits w s (length (ct_certs s))"
    using assms(2) i by (simp add: cert_idle_def list_all_iff)
  ultimately show False using starts [OF ok poll] name by (auto simp: untouched_def acceptor_waits_def)
qed

lemma test_agrees:
  assumes "cert_reachable w ops s"
    and "certs_run loaded presents (tv_reload (cw_server w)) (cw_reload_ok w) (cw_store w) ops [] = Some final" and ok: "ok"
  shows "\<not> ct_failed s \<and> (cert_idle w s \<longrightarrow> ct_script s = []) \<and> (ct_script s = [] \<longrightarrow> ct_certs s = final)"
proof -
  from assms(1,2) have "agrees final s"
    by (induction rule: reach.induct) (auto simp: cert_moves_iff agrees_start intro: agrees_step [OF _ _ ok])
  with idle_done [OF this _ ok] show ?thesis by (auto simp: agrees_def reference_def ended_def)
qed

end

end
