(* ===== verification/CertificateTests.thy ===== *)
theory CertificateTests
  imports CertificateHarness UnitTests
begin

text \<open>
  The tests that look at the certificate of the server, in the harness of the theory
  \<open>CertificateHarness\<close>: \<open>test_reload\<close> and \<open>sni_pem_files_select_certificate_by_server_name\<close> of
  \<open>src/src/tls_rustls/mod.rs\<close> and \<open>test_reload\<close> of \<open>src/src/tls_openssl/mod.rs\<close>. What the TLS
  libraries present to a client is a parameter with their documented behaviour; the
  certificates are those of the files as the code reads them.
\<close>

declare tls_sys_step.simps [simp del] cert_test_step.simps [simp del]

section \<open>A rustls server\<close>

text \<open>
  A client that answers: once it has, the handshake completes with the session that rustls
  makes of the configuration and the name. It has been shown the certificate when the server
  has started its handshake.
\<close>

definition answering_client ::
  "'i \<Rightarrow> 's \<Rightarrow> 'h \<Rightarrow> ('cfg \<Rightarrow> 'name \<Rightarrow> 'tls) \<Rightarrow> 'name \<Rightarrow> bool \<Rightarrow> ('cfg, 'i, 's, 'tls, 'h) rustls_env" where
  "answering_client stream service store session name answered =
     \<lparr>re_inner = Ready (default_accept stream service), re_store = store,
      re_handshake = (\<lambda>cfg _ _. if answered then Ready (Inr (Inr (session cfg name))) else Pending)\<rparr>"

definition rustls_offer where
  "rustls_offer presents name a =
     (case rf_inner (ac_future a) of
        RfAccept cfg io timeout service \<Rightarrow> Some (presents cfg name)
      | RfInner timeout \<Rightarrow> None)"

definition rustls_cert_world where
  "rustls_cert_world api ru sw conn presents cfg acceptor store bound stream service session =
     \<lparr>cw_api = api, cw_cfg = cfg, cw_server = rustls_server ru sw conn acceptor, cw_store = store,
      cw_addr = bound, cw_fenv = answering_client stream service store session,
      cw_offer = rustls_offer presents, cw_reload_ok = (\<lambda>x. is_ok (rustls_op_config ru x))\<rparr>"

lemma rustls_cert_world_simps [simp]:
  "cw_server (rustls_cert_world api ru sw conn presents cfg acceptor store bound stream service session) =
    rustls_server ru sw conn acceptor"
  "cw_fenv (rustls_cert_world api ru sw conn presents cfg acceptor store bound stream service session) =
    answering_client stream service store session"
  "cw_offer (rustls_cert_world api ru sw conn presents cfg acceptor store bound stream service session) =
    rustls_offer presents"
  "cw_store (rustls_cert_world api ru sw conn presents cfg acceptor store bound stream service session) = store"
  "cw_reload_ok (rustls_cert_world api ru sw conn presents cfg acceptor store bound stream service session) =
    (\<lambda>x. is_ok (rustls_op_config ru x))"
  by (simp_all add: rustls_cert_world_def)

interpretation rustls_certs: certificate_server True
    "rustls_cert_world api ru sw conn presents cfg acceptor store bound stream service session"
    "rustls_get_inner sw (ra_config acceptor)" presents
    "\<lambda>c f. f = \<lparr>rf_inner = RfAccept c stream (ra_handshake_timeout acceptor) (Some service), rf_config = None\<rparr>"
  for api :: "'n notify_api" and ru and sw :: "('cfg, 'h) swap_api" and conn :: "'tls conn_api"
    and presents :: "'cfg \<Rightarrow> 'name \<Rightarrow> 'cert" and cfg acceptor store and bound :: 'a and stream service session
  by unfold_locales
    (auto simp: accept_poll_def answering_client_def default_accept_def rustls_accept_def rustls_future_new_def
      rustls_poll_stages rustls_offer_def split: if_splits prod.splits)

section \<open>An OpenSSL server\<close>

definition openssl_client ::
  "'i \<Rightarrow> 's \<Rightarrow> 'h \<Rightarrow> 'name \<Rightarrow> bool \<Rightarrow> ('i, 's, 'st, 'h) openssl_env" where
  "openssl_client stream service store name answered =
     \<lparr>oe_inner = Ready (default_accept stream service), oe_store = store,
      oe_poll_accept = (\<lambda>_. if answered then Ready (Inr ()) else Pending), oe_elapsed = False\<rparr>"

text \<open>\<open>seen\<close>: the certificate of the peer on the client's side of a TLS stream.\<close>

definition openssl_offer where
  "openssl_offer seen name a =
     (case ac_accepted a of
        Some (tls, service) \<Rightarrow> Some (seen tls)
      | None \<Rightarrow>
          (case of_inner (ac_future a) of
             OfTlsAccepting (Some tls) timeout service \<Rightarrow> Some (seen tls)
           | _ \<Rightarrow> None))"

definition openssl_cert_world where
  "openssl_cert_world api os sw ss seen cfg acceptor store bound stream service =
     \<lparr>cw_api = api, cw_cfg = cfg, cw_server = openssl_server os sw ss acceptor, cw_store = store,
      cw_addr = bound, cw_fenv = openssl_client stream service store,
      cw_offer = openssl_offer seen, cw_reload_ok = (\<lambda>x. is_ok (openssl_op_acceptor os x))\<rparr>"

lemma openssl_cert_world_simps [simp]:
  "cw_server (openssl_cert_world api os sw ss seen cfg acceptor store bound stream service) =
    openssl_server os sw ss acceptor"
  "cw_fenv (openssl_cert_world api os sw ss seen cfg acceptor store bound stream service) =
    openssl_client stream service store"
  "cw_offer (openssl_cert_world api os sw ss seen cfg acceptor store bound stream service) = openssl_offer seen"
  "cw_store (openssl_cert_world api os sw ss seen cfg acceptor store bound stream service) = store"
  "cw_reload_ok (openssl_cert_world api os sw ss seen cfg acceptor store bound stream service) =
    (\<lambda>x. is_ok (openssl_op_acceptor os x))"
  by (simp_all add: openssl_cert_world_def)

text \<open>
  OpenSSL shows the client the certificate of the acceptor that the stream was made with, and
  \<open>timeout\<close> does not elapse before its time has come.
\<close>

definition stream_documented where
  "stream_documented ss seen presents \<longleftrightarrow> ssl_documented ss \<and>
     (\<forall>acc ssl i tls. ss_new ss acc = Inr ssl \<and> ss_stream ss ssl i = Inr tls \<longrightarrow> seen tls = presents acc) \<and>
     (\<forall>d. ss_timeout ss d False Pending = Pending)"

lemma stream_documented_of:
  assumes "stream_documented ss seen presents"
  obtains ssl where "ss_new ss acc = Inr ssl" and "ss_stream ss ssl i = Inr (ssl_stream_of ss acc i)"
    and "seen (ssl_stream_of ss acc i) = presents acc"
proof -
  from assms have "ssl_documented ss" by (simp add: stream_documented_def)
  from ssl_stream_of [OF this, of acc i] obtain ssl where
    s: "ss_new ss acc = Inr ssl" "ss_stream ss ssl i = Inr (ssl_stream_of ss acc i)" .
  moreover from this assms have "seen (ssl_stream_of ss acc i) = presents acc"
    unfolding stream_documented_def by blast
  ultimately show ?thesis by (rule that)
qed

lemma openssl_client_polls:
  assumes "stream_documented ss seen presents"
  shows "openssl_poll sw ss ((openssl_client stream service store name answered)\<lparr>oe_store := h\<rparr>)
      \<lparr>of_inner = OfTlsAccepting (Some tls) timeout (Some sv), of_config = c\<rparr> =
    (if answered
     then (Returns (Ready (Inr (tls, tls_service_new sv (openssl_tls_info ss tls)))),
           \<lparr>of_inner = OfTlsAccepting None timeout None, of_config = c\<rparr>)
     else (Returns Pending, \<lparr>of_inner = OfTlsAccepting (Some tls) timeout (Some sv), of_config = c\<rparr>))"
    and "openssl_poll sw ss ((openssl_client stream service store name answered)\<lparr>oe_store := h\<rparr>) (openssl_accept acceptor) =
    openssl_poll sw ss ((openssl_client stream service store name answered)\<lparr>oe_store := h\<rparr>)
      \<lparr>of_inner = OfTlsAccepting (Some (ssl_stream_of ss (openssl_get_inner sw (oa_config acceptor) h) stream))
         (oa_handshake_timeout acceptor) (Some service), of_config = None\<rparr>"
proof -
  from assms have doc: "ssl_documented ss" "\<And>d. ss_timeout ss d False Pending = Pending"
    "\<And>d b r. ss_timeout ss d b (Ready r) = Ready (Inr r)"
    by (auto simp: stream_documented_def ssl_documented_def)
  then show "openssl_poll sw ss ((openssl_client stream service store name answered)\<lparr>oe_store := h\<rparr>)
      \<lparr>of_inner = OfTlsAccepting (Some tls) timeout (Some sv), of_config = c\<rparr> =
    (if answered
     then (Returns (Ready (Inr (tls, tls_service_new sv (openssl_tls_info ss tls)))),
           \<lparr>of_inner = OfTlsAccepting None timeout None, of_config = c\<rparr>)
     else (Returns Pending, \<lparr>of_inner = OfTlsAccepting (Some tls) timeout (Some sv), of_config = c\<rparr>))"
    by (simp add: openssl_poll_stages openssl_client_def tls_accept_poll_def)
  show "openssl_poll sw ss ((openssl_client stream service store name answered)\<lparr>oe_store := h\<rparr>) (openssl_accept acceptor) =
    openssl_poll sw ss ((openssl_client stream service store name answered)\<lparr>oe_store := h\<rparr>)
      \<lparr>of_inner = OfTlsAccepting (Some (ssl_stream_of ss (openssl_get_inner sw (oa_config acceptor) h) stream))
         (oa_handshake_timeout acceptor) (Some service), of_config = None\<rparr>"
    using openssl_handshake.start_ready [OF doc(1), of "(openssl_client stream service store name answered)\<lparr>oe_store := h\<rparr>"]
    by (simp add: openssl_accept_def openssl_client_def default_accept_def)
qed

lemma openssl_seen: "stream_documented ss seen presents \<Longrightarrow> seen (ssl_stream_of ss acc i) = presents acc"
  by (rule stream_documented_of)

lemma openssl_accept_stage: "of_inner (openssl_accept acceptor) = OfInnerAccepting (oa_handshake_timeout acceptor)"
  by (simp add: openssl_accept_def openssl_future_new_def)

interpretation openssl_certs: certificate_server "stream_documented ss seen presents"
    "openssl_cert_world api os sw ss seen cfg acceptor store bound stream service"
    "openssl_get_inner sw (oa_config acceptor)" "\<lambda>acc name. presents acc"
    "\<lambda>acc f. f = \<lparr>of_inner = OfTlsAccepting (Some (ssl_stream_of ss acc stream)) (oa_handshake_timeout acceptor)
        (Some service), of_config = None\<rparr>"
  for api :: "'n notify_api" and os and sw :: "('acc, 'h) swap_api" and ss and seen :: "'st \<Rightarrow> 'cert" and presents
    and cfg acceptor store and bound :: 'a and stream service
  by unfold_locales
    (auto simp: accept_poll_def openssl_client_polls openssl_seen openssl_offer_def openssl_accept_stage
      split: if_splits prod.splits)

section \<open>The tests\<close>

definition reload_cert_pem :: string where "reload_cert_pem = ''examples/self-signed-certs/reload/cert.pem''"
definition reload_key_pem :: string where "reload_key_pem = ''examples/self-signed-certs/reload/key.pem''"

text \<open>
  The clients connect from the addresses \<open>client 0\<close>, \<open>client 1\<close> and so on; \<open>cert_a\<close> is the
  first certificate, \<open>cert_b\<close> the last one.
\<close>

definition reload_script where
  "reload_script client reload again =
     [CtListening, CtFirstCert (client 0) ''localhost'', CtFirstCert (client 1) ''localhost'',
      CtAssert (\<lambda>certs. hd certs = last certs),
      CtReload reload, CtFirstCert (client 2) ''localhost'', CtAssert (\<lambda>certs. hd certs \<noteq> last certs),
      CtReload again, CtFirstCert (client (3 :: nat)) ''localhost'', CtAssert (\<lambda>certs. hd certs = last certs)]"

definition rustls_test_reload where
  "rustls_test_reload client config read =
     reload_script client (ReloadPemFile config read reload_cert_pem reload_key_pem)
       (ReloadPemFile config read cert_pem key_pem)"

definition sni_files :: "(string \<times> string \<times> string) list" where
  "sni_files =
     [(''localhost'', ''examples/self-signed-certs/sni/localhost-cert.pem'', ''examples/self-signed-certs/sni/localhost-key.pem''),
      (''other.test'', ''examples/self-signed-certs/sni/other-test-cert.pem'', ''examples/self-signed-certs/sni/other-test-key.pem'')]"

text \<open>The result of the last line of the test, \<open>timeout(.., server_task).await\<close>, is not used.\<close>

definition sni_pem_files_select_certificate_by_server_name where
  "sni_pem_files_select_certificate_by_server_name client =
     [CtListening, CtFirstCert (client 0) ''localhost'', CtFirstCert (client (1 :: nat)) ''other.test'',
      CtAssert (\<lambda>certs. hd certs \<noteq> last certs), CtShutdown]"

text \<open>Under \<open>cfg(test)\<close> the handshake timeout is one second.\<close>

definition openssl_acceptor_new_test :: "openssl_config \<Rightarrow> unit openssl_acceptor" where
  "openssl_acceptor_new_test config = \<lparr>oa_inner = (), oa_config = config, oa_handshake_timeout = from_secs 1\<rparr>"

definition openssl_test_server where
  "openssl_test_server api bd addr config handle hp =
     (let acceptor = openssl_acceptor_new_test config;
          (server, hp) = server_bind api bd addr hp
      in server_handle handle (server_acceptor server acceptor))"

definition openssl_test_reload where
  "openssl_test_reload client config =
     reload_script client (OsReloadPemFile config reload_cert_pem reload_key_pem)
       (OsReloadPemFile config cert_pem key_pem)"

text \<open>What a reload test has to see, when the two reloads change the configuration as they should.\<close>

lemma reload_script_run:
  assumes "ok reload" and "ok again"
    and "presents (loaded h) ''localhost'' = a" and "presents (loaded (step reload h)) ''localhost'' = b"
    and "presents (loaded (step again (step reload h))) ''localhost'' = a" and "a \<noteq> b"
  shows "certs_run loaded presents step ok h (reload_script client reload again) [] = Some [a, a, b, a]"
  using assms by (simp add: reload_script_def)

section \<open>Certificates of the files\<close>

definition rustls_first_cert where
  "rustls_first_cert ru read path =
     (case res_bind (read path) (certificates_from_pem ru) of Inr (c # cs) \<Rightarrow> Some c | _ \<Rightarrow> None)"

text \<open>
  rustls refuses an empty chain, and presents the first certificate of the chain to everybody,
  whatever its protocols are set to.
\<close>

definition single_cert_documented where
  "single_cert_documented ru presents \<longleftrightarrow>
     (\<forall>key. \<exists>e. ru_single_cert ru [] key = Inl e) \<and>
     (\<forall>c cs key cfg ps name. ru_single_cert ru (c # cs) key = Inr cfg \<longrightarrow>
        presents (ru_set_alpn ru ps cfg) name = c)"

lemma pem_file_presents:
  assumes "single_cert_documented ru presents" and "config_from_pem_file ru read cert key = Inr cfg"
  shows "rustls_first_cert ru read cert = Some (presents cfg name)"
proof -
  from assms(2) obtain bytes certs k d where c: "read cert = Inr bytes" "certificates_from_pem ru bytes = Inr certs"
      "ru_single_cert ru certs k = Inr d" "cfg = set_alpn ru d"
    by (auto simp: config_from_pem_file_def config_from_pem_def config_from_cert_and_key_def)
  show ?thesis
  proof (cases certs)
    case Nil
    with c(3) assms(1) show ?thesis unfolding single_cert_documented_def by (metis Inl_Inr_False)
  next
    case (Cons x xs)
    with c(3,4) assms(1) have "presents cfg name = x" unfolding single_cert_documented_def set_alpn_def by blast
    with Cons c(1,2) show ?thesis by (simp add: rustls_first_cert_def)
  qed
qed

text \<open>
  The resolver by server name: \<open>lookup\<close> is what was added last under a name; a chain that is
  added is not empty.
\<close>

definition resolver_documented where
  "resolver_documented ru presents lookup \<longleftrightarrow>
     (\<forall>name cert key r r'. ru_resolver_add ru name (cert, key) r = Inr r' \<longrightarrow>
        cert \<noteq> [] \<and> lookup r' = (lookup r)(name \<mapsto> hd cert)) \<and>
     (\<forall>r ps name c. lookup r name = Some c \<longrightarrow> presents (ru_set_alpn ru ps (ru_cert_resolver ru r)) name = c)"

lemma sni_loop_step:
  assumes "resolver_documented ru presents lookup"
    and "sni_loop ru provider read ((name, cert, key) # files) r = Inr r'"
  shows "\<exists>r1 c. sni_loop ru provider read files r1 = Inr r' \<and> lookup r1 = (lookup r)(name \<mapsto> c) \<and>
    rustls_first_cert ru read cert = Some c"
proof -
  from assms(2) obtain bytes certs signing r1 where l: "read cert = Inr bytes" "certificates_from_pem ru bytes = Inr certs"
      "ru_resolver_add ru name (certs, signing) r = Inr r1" "sni_loop ru provider read files r1 = Inr r'"
    by (auto split: prod.splits)
  with assms(1) have "certs \<noteq> []" "lookup r1 = (lookup r)(name \<mapsto> hd certs)"
    unfolding resolver_documented_def by blast+
  with l show ?thesis by (cases certs) (auto simp: rustls_first_cert_def)
qed

text \<open>
  OpenSSL: \<open>holds\<close> is the certificate that was set on a builder last, \<open>file_cert\<close> that of a file.
\<close>

definition builder_documented where
  "builder_documented os presents holds file_cert \<longleftrightarrow>
     (\<forall>p b b'. os_set_certificate_file os p PemFile b = Inr b' \<longrightarrow> holds b' = Some (file_cert p)) \<and>
     (\<forall>p b b'. os_set_private_key_file os p PemFile b = Inr b' \<longrightarrow> holds b' = holds b) \<and>
     (\<forall>f b. holds (os_set_alpn_select_callback os f b) = holds b) \<and>
     (\<forall>b c. holds b = Some c \<longrightarrow> presents (os_build os b) = c)"

lemma openssl_file_presents:
  assumes "builder_documented os presents holds file_cert" and "openssl_config_from_pem_file os cert key = Inr acc"
  shows "presents acc = file_cert cert"
  using assms by (auto simp: openssl_config_from_pem_file_def builder_documented_def)

section \<open>Properties\<close>

text \<open>
  C13. The test \<open>test_reload\<close> of the rustls module passes, however the tasks are scheduled and
  whenever the clients answer: no assertion fails, the test never waits in vain, and at its end
  the four clients were shown the certificate of the first file, again that one, the one of the
  reloaded file, and after the second reload the first one again.
\<close>

theorem rustls_reload_test_passes:
  assumes "swap_documented sw live" and "single_cert_documented ru presents"
    and "rustls_from_pem_file ru sw read cert_pem key_pem h = (Inr config, store)"
    and "config_from_pem_file ru read reload_cert_pem reload_key_pem = Inr new"
    and "rustls_first_cert ru read cert_pem \<noteq> rustls_first_cert ru read reload_cert_pem"
    and "server = start_server_with_config api bd addr config handle hp"
    and "w = rustls_cert_world api ru sw conn presents (server_config server) (sv_acceptor server) store bound
      stream service session"
    and "cert_reachable w (rustls_test_reload client config read) s"
  shows "\<not> ct_failed s \<and> (cert_idle w s \<longrightarrow> ct_script s = []) \<and>
    (ct_script s = [] \<longrightarrow> map Some (ct_certs s) =
       map (rustls_first_cert ru read) [cert_pem, cert_pem, reload_cert_pem, cert_pem])"
proof -
  have acceptor: "ra_config (sv_acceptor server) = config"
    using assms(6) by (simp add: start_server_with_config_def rustls_acceptor_new_test_def case_prod_beta Let_def)
  from rustls_cells.create_gets [OF assms(1) assms(3) [unfolded rustls_from_pem_file_def]]
  have live: "live store (rc_inner config)" and old: "config_from_pem_file ru read cert_pem key_pem = Inr (rustls_get_inner sw config store)"
    by simp_all
  define there where "there = rustls_op_step ru sw (ReloadPemFile config read reload_cert_pem reload_key_pem) store"
  define again where "again = rustls_op_step ru sw (ReloadPemFile config read cert_pem key_pem) there"
  have there: "rustls_get_inner sw config there = new" "live there (rc_inner config)"
    using rustls_cells.reload_gets [OF assms(1) live, of new]
      rustls_cells.reload_frame [OF assms(1) live, of new _ _ config] live assms(4)
    by (cases "rustls_reload sw config (Inr new) store"; simp add: there_def rustls_reload_from_pem_file_def)+
  have again: "rustls_get_inner sw config again = rustls_get_inner sw config store"
    using rustls_latest_get [OF assms(1) there(2), of "[ReloadPemFile config read cert_pem key_pem]" ru] old there(2)
    by (simp add: again_def rustls_latest_config_def)
  let ?a = "presents (rustls_get_inner sw config store) ''localhost''" and ?b = "presents new ''localhost''"
  note certs = pem_file_presents [OF assms(2) old, of "''localhost''"] pem_file_presents [OF assms(2,4), of "''localhost''"]
  have "certs_run (rustls_get_inner sw config) presents (rustls_op_step ru sw) (\<lambda>x. is_ok (rustls_op_config ru x)) store
      (rustls_test_reload client config read) [] = Some [?a, ?a, ?b, ?a]"
    unfolding rustls_test_reload_def
    using certs assms(4,5) old there again
    by (intro reload_script_run) (simp_all add: there_def again_def)
  with rustls_certs.test_agrees [OF assms(8) [unfolded assms(7)]] certs show ?thesis
    unfolding assms(7) by (simp add: acceptor)
qed

text \<open>
  C14. The test \<open>sni_pem_files_select_certificate_by_server_name\<close> passes in every interleaving: a
  client that asks for \<open>localhost\<close> and one that asks for \<open>other.test\<close> are shown the certificates
  of the files that were given for these names.
\<close>

theorem sni_test_passes:
  assumes "swap_documented sw live" and "resolver_documented ru presents lookup"
    and "rustls_from_sni_pem_files ru sw build read sni_files installed h = (Returns (Inr config), installed', store)"
    and "rustls_first_cert ru read ''examples/self-signed-certs/sni/localhost-cert.pem'' \<noteq>
      rustls_first_cert ru read ''examples/self-signed-certs/sni/other-test-cert.pem''"
    and "server = start_server_with_config api bd addr config handle hp"
    and "w = rustls_cert_world api ru sw conn presents (server_config server) (sv_acceptor server) store bound
      stream service session"
    and "cert_reachable w (sni_pem_files_select_certificate_by_server_name client) s"
  shows "\<not> ct_failed s \<and> (cert_idle w s \<longrightarrow> ct_script s = []) \<and>
    (ct_script s = [] \<longrightarrow> map Some (ct_certs s) =
       map (rustls_first_cert ru read) [''examples/self-signed-certs/sni/localhost-cert.pem'',
         ''examples/self-signed-certs/sni/other-test-cert.pem''])"
proof -
  have acceptor: "ra_config (sv_acceptor server) = config"
    using assms(5) by (simp add: start_server_with_config_def rustls_acceptor_new_test_def case_prod_beta Let_def)
  from assms(3) obtain provider where "rustls_sni_create ru sw provider read sni_files h = (Inr config, store)"
    by (auto simp: rustls_from_sni_pem_files_def Let_def split: panicking.splits prod.splits)
  from rustls_cells.create_gets [OF assms(1) this [unfolded rustls_sni_create_def]]
  have "sni_config ru provider read sni_files = Inr (rustls_get_inner sw config store)" by simp
  then obtain r where loop: "sni_loop ru provider read sni_files (ru_resolver_new ru) = Inr r"
    and cfg: "rustls_get_inner sw config store = set_alpn ru (ru_cert_resolver ru r)"
    by (auto simp: sni_config_def)
  from sni_loop_step [OF assms(2) loop [unfolded sni_files_def]] obtain r1 a where
      1: "sni_loop ru provider read (tl sni_files) r1 = Inr r" "lookup r1 = (lookup (ru_resolver_new ru))(''localhost'' \<mapsto> a)"
        "rustls_first_cert ru read ''examples/self-signed-certs/sni/localhost-cert.pem'' = Some a"
    by (auto simp: sni_files_def)
  from sni_loop_step [OF assms(2) 1(1) [unfolded sni_files_def list.sel]] obtain b where
      2: "lookup r = (lookup r1)(''other.test'' \<mapsto> b)"
        "rustls_first_cert ru read ''examples/self-signed-certs/sni/other-test-cert.pem'' = Some b"
    by auto
  from assms(2) have "\<And>name c. lookup r name = Some c \<Longrightarrow> presents (rustls_get_inner sw config store) name = c"
    unfolding cfg set_alpn_def resolver_documented_def by blast
  with 1(2) 2(1) have shown: "presents (rustls_get_inner sw config store) ''localhost'' = a"
    "presents (rustls_get_inner sw config store) ''other.test'' = b" by simp_all
  have "\<not> ct_failed s \<and> (cert_idle w s \<longrightarrow> ct_script s = []) \<and> (ct_script s = [] \<longrightarrow> ct_certs s = [a, b])"
    unfolding assms(6) using assms(4) 1(3) 2(2) shown
    by (intro rustls_certs.test_agrees [OF assms(7) [unfolded assms(6)]])
      (simp_all add: sni_pem_files_select_certificate_by_server_name_def acceptor)
  with 1(3) 2(2) show ?thesis by simp
qed

text \<open>
  C15. The test \<open>test_reload\<close> of the OpenSSL module passes in every interleaving: the clients are
  shown the certificate of the first file twice, then that of the reloaded file, then the first
  one again.
\<close>

theorem openssl_reload_test_passes:
  assumes "swap_documented sw live" and "stream_documented ss seen presents"
    and "builder_documented os presents holds file_cert"
    and "openssl_from_pem_file os sw cert_pem key_pem h = (Inr config, store)"
    and "openssl_config_from_pem_file os reload_cert_pem reload_key_pem = Inr new"
    and "file_cert cert_pem \<noteq> file_cert reload_cert_pem"
    and "server = openssl_test_server api bd addr config handle hp"
    and "w = openssl_cert_world api os sw ss seen (server_config server) (sv_acceptor server) store bound stream service"
    and "cert_reachable w (openssl_test_reload client config) s"
  shows "\<not> ct_failed s \<and> (cert_idle w s \<longrightarrow> ct_script s = []) \<and>
    (ct_script s = [] \<longrightarrow> ct_certs s = map file_cert [cert_pem, cert_pem, reload_cert_pem, cert_pem])"
proof -
  have acceptor: "oa_config (sv_acceptor server) = config"
    using assms(7) by (simp add: openssl_test_server_def openssl_acceptor_new_test_def case_prod_beta Let_def)
  from openssl_cells.create_gets [OF assms(1) assms(4) [unfolded openssl_from_pem_file_def]]
  have live: "live store (oc_acceptor config)"
    and old: "openssl_config_from_pem_file os cert_pem key_pem = Inr (openssl_get_inner sw config store)" by simp_all
  define there where "there = openssl_op_step os sw (OsReloadPemFile config reload_cert_pem reload_key_pem) store"
  define again where "again = openssl_op_step os sw (OsReloadPemFile config cert_pem key_pem) there"
  obtain r where "openssl_reload_from_pem_file os sw config reload_cert_pem reload_key_pem store = (r, there)"
    by (cases "openssl_reload_from_pem_file os sw config reload_cert_pem reload_key_pem store") (simp add: there_def)
  with assms(5) have r: "openssl_reload sw config (Inr new) store = (r, there)"
    by (simp add: openssl_reload_from_pem_file_def)
  from openssl_cells.reload_gets [OF assms(1) live r] openssl_cells.reload_frame [OF assms(1) live r live]
  have there: "openssl_get_inner sw config there = new" "live there (oc_acceptor config)" by simp_all
  have again: "openssl_get_inner sw config again = openssl_get_inner sw config store"
    using openssl_latest_get [OF assms(1) there(2), of "[OsReloadPemFile config cert_pem key_pem]" os] old there(2)
    by (simp add: again_def openssl_latest_acceptor_def)
  note certs = openssl_file_presents [OF assms(3) old] openssl_file_presents [OF assms(3,5)]
  have "certs_run (openssl_get_inner sw config) (\<lambda>acc name. presents acc) (openssl_op_step os sw)
      (\<lambda>x. is_ok (openssl_op_acceptor os x)) store (openssl_test_reload client config) [] =
    Some [file_cert cert_pem, file_cert cert_pem, file_cert reload_cert_pem, file_cert cert_pem]"
    unfolding openssl_test_reload_def
    using certs assms(5,6) old there again
    by (intro reload_script_run) (simp_all add: there_def again_def)
  with openssl_certs.test_agrees [OF assms(9) [unfolded assms(8)] _ assms(2)] show ?thesis
    unfolding assms(8) by (simp add: acceptor)
qed

section \<open>Runs\<close>

text \<open>
  A library in which certificates are numbers and a configuration is one certificate, or one
  for each name; the files hold one byte each.
\<close>

type_synonym toy_cert_cfg = "nat option \<times> (string \<times> nat) list"

definition toy_cert_api :: "(toy_cert_cfg, nat, nat, nat, (string \<times> nat) list, unit, nat) rustls_api" where
  "toy_cert_api = \<lparr>ru_cert_from = length, ru_key_try_from = (\<lambda>b. Inr (length b)),
     ru_pem_certs = map (\<lambda>b. Inr (unat b)), ru_pem_keys = map (\<lambda>b. Inr (unat b)),
     ru_key_from_pem = (\<lambda>b. Inr (length b)),
     ru_single_cert = (\<lambda>cs k. case cs of [] \<Rightarrow> Inl ''no certificate'' | c # _ \<Rightarrow> Inr (Some c, [])),
     ru_cert_resolver = (\<lambda>r. (None, r)), ru_set_alpn = (\<lambda>ps c. c), ru_alpn = (\<lambda>c. []),
     ru_load_private_key = (\<lambda>_. Inr), ru_resolver_new = [],
     ru_resolver_add = (\<lambda>n (cs, k) r. case cs of [] \<Rightarrow> Inl ''no certificate'' | c # _ \<Rightarrow> Inr ((n, c) # r)),
     ru_document_from_pem = (\<lambda>b. Inr ([], b)), ru_encrypted_from_der = (\<lambda>_. Inr ()),
     ru_decrypt = (\<lambda>pw _. Inr pw), ru_pkcs8_key = length\<rparr>"

fun toy_presents :: "toy_cert_cfg \<Rightarrow> string \<Rightarrow> nat" where
  "toy_presents (Some c, m) name = c"
| "toy_presents (None, m) name = (case map_of m name of Some c \<Rightarrow> c | None \<Rightarrow> 0)"

definition toy_cert_files :: "string \<Rightarrow> bytes io_result" where
  "toy_cert_files p = Inr [if p = cert_pem then 1 else if p = reload_cert_pem then 2
     else if p = ''examples/self-signed-certs/sni/localhost-cert.pem'' then 3
     else if p = ''examples/self-signed-certs/sni/other-test-cert.pem'' then 4 else 5]"

definition toy_cert_conn :: "toy_cert_cfg conn_api" where
  "toy_cert_conn = \<lparr>tc_server_name = (\<lambda>_. None), tc_alpn_protocol = (\<lambda>_. None), tc_peer_certificates = (\<lambda>_. None)\<rparr>"

lemma toy_cert_documented:
  "single_cert_documented toy_cert_api toy_presents" "resolver_documented toy_cert_api toy_presents map_of"
  by (auto simp: single_cert_documented_def resolver_documented_def toy_cert_api_def split: list.splits)

lemma toy_cert_paths [simp]:
  "reload_cert_pem \<noteq> cert_pem" "key_pem \<noteq> cert_pem" "reload_key_pem \<noteq> cert_pem"
  "key_pem \<noteq> reload_cert_pem" "reload_key_pem \<noteq> reload_cert_pem"
  by (simp_all add: cert_pem_def key_pem_def reload_cert_pem_def reload_key_pem_def)

lemma toy_cert_configs:
  "config_from_pem_file toy_cert_api toy_cert_files cert_pem key_pem = Inr (Some 1, [])"
  "config_from_pem_file toy_cert_api toy_cert_files reload_cert_pem reload_key_pem = Inr (Some 2, [])"
  "rustls_first_cert toy_cert_api toy_cert_files cert_pem = Some 1"
  "rustls_first_cert toy_cert_api toy_cert_files reload_cert_pem = Some 2"
  by (simp_all add: config_from_pem_file_def config_from_pem_def certificates_from_pem_def private_key_from_pem_def
      config_from_cert_and_key_def set_alpn_def toy_cert_api_def toy_cert_files_def rustls_first_cert_def)

definition toy_cert_server :: "(unit rustls_acceptor, nat, nat, nat, nat) server" where
  "toy_cert_server = start_server_with_config toy_api toy_builder (0 :: nat) \<lparr>rc_inner = 0\<rparr> 0 []"

type_synonym toy_cert_world =
  "(nat, toy_notify, (toy_cert_cfg, nat, nat) rustls_future,
    (toy_cert_cfg, nat, nat, toy_cert_cfg, toy_cert_cfg list) rustls_env, toy_cert_cfg \<times> nat tls_service,
    toy_cert_cfg list, (toy_cert_cfg, string) rustls_op, string, nat) cert_world"

definition toy_cert_world :: "toy_cert_cfg list \<Rightarrow> toy_cert_world" where
  "toy_cert_world store = rustls_cert_world toy_api toy_cert_api toy_swap toy_cert_conn toy_presents
     (server_config toy_cert_server) (sv_acceptor toy_cert_server) store 80 1 2 (\<lambda>cfg name. cfg)"

text \<open>A client connects, its connection is accepted, the acceptor polled once, and the client goes on.\<close>

definition cert_visit :: "nat \<Rightarrow> cert_action list" where
  "cert_visit i = CtTest # replicate 7 CtServe @ replicate 3 (CtConn i True env_accepts) @ [CtTest]"

lemmas cert_run_simps =
  test_run_simps cert_step.simps cert_test_step.simps cert_sys_step_def tls_sys_step.simps cert_start_def
  last_client_def cert_visit_def rustls_poll_stages rustls_accept_def rustls_future_new_def rustls_get_inner_def
  rustls_offer_def answering_client_def rustls_cert_world_def rustls_server_def start_server_with_config_def
  rustls_acceptor_new_test_def toy_swap_def

definition reload_run :: "cert_action list" where
  "reload_run = replicate 3 CtServe @ [CtTest] @ cert_visit 0 @ cert_visit 1 @ [CtTest, CtTest] @ cert_visit 2 @
     [CtTest, CtTest] @ cert_visit 3 @ [CtTest]"

theorem rustls_reload_test_passes_witness:
  "\<exists>s. cert_test_run (toy_cert_world [(Some 1, [])]) reload_run (cert_start (toy_cert_world [(Some 1, [])])
       (rustls_test_reload id \<lparr>rc_inner = 0\<rparr> toy_cert_files)) = Some s \<and>
     ct_script s = [] \<and> \<not> ct_failed s \<and> ct_certs s = [1, 1, 2, 1]"
proof -
  obtain s where s: "cert_test_run (toy_cert_world [(Some 1, [])]) reload_run (cert_start (toy_cert_world [(Some 1, [])])
       (rustls_test_reload id \<lparr>rc_inner = 0\<rparr> toy_cert_files)) = Some s" "ct_script s = []"
    by (simp add: reload_run_def cert_run_simps rustls_test_reload_def reload_script_def toy_cert_world_def
        toy_cert_server_def rustls_reload_from_pem_file_def rustls_reload_def swap_reload_def toy_cert_configs)
  have start: "rustls_from_pem_file toy_cert_api toy_swap toy_cert_files cert_pem key_pem [] =
      (Inr \<lparr>rc_inner = 0\<rparr>, [(Some 1, [])])"
    by (simp add: rustls_from_pem_file_def toy_cert_configs rustls_create_def swap_create_def toy_swap_def)
  from rustls_reload_test_passes [OF toy_swap_documented toy_cert_documented(1) start toy_cert_configs(2) _
      toy_cert_server_def toy_cert_world_def cert_start_reachable [OF s(1)]] s
  show ?thesis by (auto simp: toy_cert_configs map_eq_Cons_conv)
qed

definition sni_run :: "cert_action list" where
  "sni_run = replicate 3 CtServe @ [CtTest] @ cert_visit 0 @ cert_visit 1 @ [CtTest, CtTest]"

theorem sni_test_passes_witness:
  "\<exists>store s. rustls_from_sni_pem_files toy_cert_api toy_swap id toy_cert_files sni_files (Some (0 :: nat)) [] =
       (Returns (Inr \<lparr>rc_inner = 0\<rparr>), Some 0, store) \<and>
     cert_test_run (toy_cert_world store) sni_run (cert_start (toy_cert_world store)
       (sni_pem_files_select_certificate_by_server_name id)) = Some s \<and>
     ct_script s = [] \<and> \<not> ct_failed s \<and> ct_certs s = [3, 4]"
proof -
  let ?store = "[(None, [(''other.test'', 4), (''localhost'', 3)])] :: toy_cert_cfg list"
  have paths: "''examples/self-signed-certs/sni/localhost-cert.pem'' \<notin> {cert_pem, reload_cert_pem}"
    "''examples/self-signed-certs/sni/other-test-cert.pem'' \<notin> {cert_pem, reload_cert_pem}"
    by (simp_all add: cert_pem_def reload_cert_pem_def)
  then have files: "rustls_first_cert toy_cert_api toy_cert_files ''examples/self-signed-certs/sni/localhost-cert.pem'' = Some 3"
    "rustls_first_cert toy_cert_api toy_cert_files ''examples/self-signed-certs/sni/other-test-cert.pem'' = Some 4"
    by (simp_all add: rustls_first_cert_def certificates_from_pem_def toy_cert_api_def toy_cert_files_def)
  from paths have created: "rustls_from_sni_pem_files toy_cert_api toy_swap id toy_cert_files sni_files (Some (0 :: nat)) [] =
      (Returns (Inr \<lparr>rc_inner = 0\<rparr>), Some 0, ?store)"
    by (simp add: rustls_from_sni_pem_files_def crypto_provider_def rustls_sni_create_def rustls_create_def swap_create_def
        toy_swap_def sni_config_def sni_files_def certificates_from_pem_def private_key_from_pem_def set_alpn_def
        toy_cert_api_def toy_cert_files_def)
  obtain s where s: "cert_test_run (toy_cert_world ?store) sni_run (cert_start (toy_cert_world ?store)
       (sni_pem_files_select_certificate_by_server_name id)) = Some s" "ct_script s = []"
    by (simp add: sni_run_def cert_run_simps sni_pem_files_select_certificate_by_server_name_def toy_cert_world_def
        toy_cert_server_def)
  from sni_test_passes [OF toy_swap_documented toy_cert_documented(2) created _
      toy_cert_server_def toy_cert_world_def cert_start_reachable [OF s(1)]] s created
  show ?thesis by (auto simp: files map_eq_Cons_conv)
qed

text \<open>An OpenSSL whose builders, acceptors and streams are the number of a certificate.\<close>

definition toy_file_cert :: "string \<Rightarrow> nat" where
  "toy_file_cert p = (if p = cert_pem then 1 else 2)"

definition toy_file_openssl :: "(string, nat, nat, nat, nat, string) openssl_api" where
  "toy_file_openssl = \<lparr>os_x509_from_der = (\<lambda>b. Inr (length b)), os_x509_from_pem = (\<lambda>b. Inr (length b)),
     os_key_from_der = (\<lambda>b. Inr (length b)), os_key_from_pem = (\<lambda>b. Inr (length b)),
     os_mozilla_modern_v5 = Inr 0, os_set_certificate = (\<lambda>c b. Inr c), os_set_private_key = (\<lambda>k b. Inr b),
     os_set_certificate_file = (\<lambda>p _ b. Inr (toy_file_cert p)),
     os_set_certificate_chain_file = (\<lambda>p b. Inr (toy_file_cert p)), os_set_private_key_file = (\<lambda>p _ b. Inr b),
     os_check_private_key = (\<lambda>b. Inr ()), os_set_alpn_select_callback = (\<lambda>f b. b), os_build = (\<lambda>b. b),
     os_select_next_proto = (\<lambda>s c. None)\<rparr>"

definition toy_cert_ssl :: "(nat, nat, nat, nat, nat, string) ssl_api" where
  "toy_cert_ssl = \<lparr>ss_new = Inr, ss_stream = (\<lambda>ssl i. Inr ssl),
     ss_timeout = (\<lambda>d elapsed p. case p of Ready r \<Rightarrow> Ready (Inr r)
       | Pending \<Rightarrow> if elapsed then Ready (Inl ''deadline has elapsed'') else Pending),
     ss_peer_cert_chain = (\<lambda>_. None), ss_peer_certificate = (\<lambda>_. None), ss_to_der = (\<lambda>c. Inr []),
     ss_servername = (\<lambda>_. None), ss_alpn_protocol = (\<lambda>_. None)\<rparr>"

lemma toy_file_documented:
  "builder_documented toy_file_openssl id Some toy_file_cert" "stream_documented toy_cert_ssl id id"
  by (simp_all add: builder_documented_def toy_file_openssl_def stream_documented_def ssl_documented_def toy_cert_ssl_def)

lemma toy_file_configs:
  "openssl_config_from_pem_file toy_file_openssl cert_pem key_pem = Inr 1"
  "openssl_config_from_pem_file toy_file_openssl reload_cert_pem reload_key_pem = Inr 2"
  by (simp_all add: openssl_config_from_pem_file_def toy_file_openssl_def toy_file_cert_def)

definition toy_openssl_test_server :: "(unit openssl_acceptor, nat, nat, nat, nat) server" where
  "toy_openssl_test_server = openssl_test_server toy_api toy_builder (0 :: nat) \<lparr>oc_acceptor = 0\<rparr> 0 []"

type_synonym toy_openssl_world =
  "(nat, toy_notify, (nat, nat) openssl_future, (nat, nat, nat, nat list) openssl_env, nat \<times> nat tls_service,
    nat list, (nat, string) openssl_op, string, nat) cert_world"

definition toy_openssl_world :: toy_openssl_world where
  "toy_openssl_world = openssl_cert_world toy_api toy_file_openssl toy_swap toy_cert_ssl id
     (server_config toy_openssl_test_server) (sv_acceptor toy_openssl_test_server) [1] 80 1 2"

theorem openssl_reload_test_passes_witness:
  "\<exists>s. cert_test_run toy_openssl_world reload_run (cert_start toy_openssl_world
       (openssl_test_reload id \<lparr>oc_acceptor = 0\<rparr>)) = Some s \<and>
     ct_script s = [] \<and> \<not> ct_failed s \<and> ct_certs s = [1, 1, 2, 1]"
proof -
  obtain s where s: "cert_test_run toy_openssl_world reload_run (cert_start toy_openssl_world
       (openssl_test_reload id \<lparr>oc_acceptor = 0\<rparr>)) = Some s" "ct_script s = []"
    by (simp add: reload_run_def cert_run_simps openssl_test_reload_def reload_script_def toy_openssl_world_def
        openssl_cert_world_def openssl_server_def toy_openssl_test_server_def openssl_test_server_def
        openssl_acceptor_new_test_def openssl_accept_def openssl_future_new_def openssl_poll_stages openssl_client_def
        openssl_offer_def openssl_get_inner_def tls_accept_poll_def toy_cert_ssl_def openssl_reload_from_pem_file_def
        openssl_reload_def swap_reload_def toy_file_configs)
  have start: "openssl_from_pem_file toy_file_openssl toy_swap cert_pem key_pem [] = (Inr \<lparr>oc_acceptor = 0\<rparr>, [1])"
    by (simp add: openssl_from_pem_file_def toy_file_configs openssl_create_def swap_create_def toy_swap_def)
  from openssl_reload_test_passes [OF toy_swap_documented toy_file_documented(2,1) start toy_file_configs(2) _
      toy_openssl_test_server_def toy_openssl_world_def cert_start_reachable [OF s(1)]] s
  show ?thesis by (auto simp: toy_file_cert_def)
qed

end
