(* ===== verification/RequestHarness.thy ===== *)
theory RequestHarness
  imports TestHarness Services
begin

text \<open>
  A third harness, for the tests whose clients send requests (\<open>start_and_request\<close> of
  \<open>src/src/server.rs\<close> and of both TLS modules, \<open>test_shutdown\<close>, \<open>test_http1_only\<close>,
  \<open>test_http2_only\<close>, \<open>first_request_timeout_keeps_established_connection\<close>,
  \<open>local_addr_acceptor_adds_extension\<close>, \<open>encrypted_key_starts_and_serves\<close>,
  \<open>tls_info_is_available_to_handlers\<close>). Hyper, on both sides of a connection, is a parameter
  with its documented behaviour: when the task of a connection polls it and a request has come,
  it calls the service, which is the \<open>FirstRequestService\<close> around the one that the acceptor gave,
  and sends the answer; it closes a connection that does not speak its version of HTTP; otherwise
  it keeps the connection alive. A request may come at any later poll, however slowly its body
  is sent. The clock is that of the theory \<open>TestHarness\<close>: it stands still as long as some task
  can move. No theorem here speaks of the time a request takes: the time limits of these tests
  are for servers that hang, and the theorems say that none does.
\<close>

section \<open>The harness\<close>

text \<open>
  \<open>rw_fenv answered\<close>: what the future of the acceptor is polled with when the client has
  answered its handshake, or not yet. \<open>rw_respond req out\<close>: what the service in \<open>out\<close> answers.
  \<open>rw_speaks kind i\<close>: a connection that the builder of the server serves as \<open>kind\<close> accepts the
  version of HTTP that the \<open>i\<close>-th client speaks. \<open>rw_current\<close>: the runtime has one thread, as that of \<open>#[tokio::test]\<close>, so that the test
  runs only while no other task is in the middle of a poll.
\<close>

record ('a, 'n, 'f, 'fe, 'out, 'h, 'op, 'req, 'resp) request_world =
  rw_api :: "'n notify_api"
  rw_cfg :: conn_config
  rw_server :: "('fe, 'f, 'out, 'h, 'op) tls_server"
  rw_store :: 'h
  rw_addr :: 'a
  rw_fenv :: "bool \<Rightarrow> 'fe"
  rw_respond :: "'req \<Rightarrow> 'out \<Rightarrow> 'resp"
  rw_speaks :: "serve_kind \<Rightarrow> nat \<Rightarrow> bool"
  rw_current :: bool

text \<open>
  The operations: \<open>listening().await.unwrap()\<close>, with what the test calls the address;
  \<open>connect(addr).await\<close>; sending a request on the \<open>i\<close>-th client and awaiting its answer (\<open>None\<close> is
  an error), with the assertion that follows; \<open>sleep\<close>; \<open>shutdown\<close>; awaiting the server, with the
  assertion about its result; awaiting the end of the \<open>i\<close>-th client's connection.
\<close>

datatype ('a, 'req, 'resp) req_op =
    RqListening 'a
  | RqConnect 'a
  | RqRequest nat 'req "'resp option \<Rightarrow> bool"
  | RqSleep duration
  | RqShutdown
  | RqServer "unit io_result \<Rightarrow> bool"
  | RqClosed nat

datatype ('req, 'resp) exchange = NoRequest | Sent 'req | Answered 'resp

fun is_sent :: "('req, 'resp) exchange \<Rightarrow> bool" where
  "is_sent (Sent req) = True"
| "is_sent _ = False"

text \<open>
  \<open>rq_since\<close>: when a connection entered the phase it is in; \<open>rq_first\<close>: the channel that its
  \<open>FirstRequestService\<close> has, if it has one; \<open>rq_timer\<close>: the deadline of the sleep of the test.
\<close>

record ('a, 'n, 'f, 'fe, 'out, 'h, 'req, 'resp) req_test =
  rq_sys :: "('a, 'n, 'f, 'fe, 'out, 'h) tls_sys"
  rq_backlog :: "'a list"
  rq_clients :: "('req, 'resp) exchange list"
  rq_script :: "('a, 'req, 'resp) req_op list"
  rq_waiting :: bool
  rq_now :: duration
  rq_since :: "duration list"
  rq_first :: "first_request_chan list"
  rq_timer :: "duration option"
  rq_failed :: bool

abbreviation rq_state :: "('a, 'n, 'f, 'fe, 'out, 'h, 'req, 'resp) req_test \<Rightarrow> ('a, 'n) sys" where
  "rq_state s \<equiv> ts_sys (rq_sys s)"

definition req_start ::
  "('a, 'n, 'f, 'fe, 'out, 'h, 'op, 'req, 'resp) request_world \<Rightarrow> ('a, 'req, 'resp) req_op list \<Rightarrow>
   ('a, 'n, 'f, 'fe, 'out, 'h, 'req, 'resp) req_test" where
  "req_start w ops = \<lparr>rq_sys = tls_start (rw_api w) (rw_store w), rq_backlog = [], rq_clients = [],
     rq_script = ops, rq_waiting = False, rq_now = 0, rq_since = [], rq_first = [],
     rq_timer = None, rq_failed = False\<rparr>"

text \<open>What the \<open>i\<close>-th client has got: an answer, or an error once its connection is closed.\<close>

definition conn_closed :: "nat \<Rightarrow> ('a, 'n) sys \<Rightarrow> bool" where
  "conn_closed i y \<longleftrightarrow> i < length (sy_conns y) \<and> \<not> cn_stream_open (sy_conns y ! i)"

definition client_gets :: "nat \<Rightarrow> ('a, 'n, 'f, 'fe, 'out, 'h, 'req, 'resp) req_test \<Rightarrow> 'resp option poll" where
  "client_gets i s =
     (case rq_clients s ! i of
        Answered r \<Rightarrow> Ready (Some r)
      | _ \<Rightarrow> if conn_closed i (rq_state s) then Ready None else Pending)"

definition req_sys_step where
  "req_sys_step w b s = map_option (\<lambda>t. s\<lparr>rq_sys := t\<rparr>)
     (tls_sys_step (rw_api w) (rw_cfg w) (rw_server w) b (rq_sys s))"

fun req_test_step ::
  "('a, 'n, 'f, 'fe, 'out, 'h, 'op, 'req, 'resp) request_world \<Rightarrow>
   ('a, 'n, 'f, 'fe, 'out, 'h, 'req, 'resp) req_test \<Rightarrow> ('a, 'n, 'f, 'fe, 'out, 'h, 'req, 'resp) req_test"
where
  "req_test_step w s =
     (case rq_script s of
        [] \<Rightarrow> s
      | RqListening addr # ops \<Rightarrow>
          if is_notified (hi_addr_notify (sy_handle (rq_state s)))
          then if hi_addr (sy_handle (rq_state s)) = Some addr then s\<lparr>rq_script := ops\<rparr> else s\<lparr>rq_failed := True\<rparr>
          else s
      | RqConnect a # ops \<Rightarrow>
          s\<lparr>rq_backlog := rq_backlog s @ [a], rq_clients := rq_clients s @ [NoRequest], rq_script := ops\<rparr>
      | RqRequest i req P # ops \<Rightarrow>
          if \<not> rq_waiting s then s\<lparr>rq_clients := (rq_clients s)[i := Sent req], rq_waiting := True\<rparr>
          else (case client_gets i s of
                  Pending \<Rightarrow> s
                | Ready r \<Rightarrow> if P r then s\<lparr>rq_waiting := False, rq_script := ops\<rparr> else s\<lparr>rq_failed := True\<rparr>)
      | RqSleep d # ops \<Rightarrow>
          (case rq_timer s of
             None \<Rightarrow> s\<lparr>rq_timer := Some (rq_now s + d)\<rparr>
           | Some t \<Rightarrow> if t \<le> rq_now s then s\<lparr>rq_timer := None, rq_script := ops\<rparr> else s)
      | RqShutdown # ops \<Rightarrow>
          (case req_sys_step w (TaSys ActShutdown) s of None \<Rightarrow> s | Some t \<Rightarrow> t\<lparr>rq_script := ops\<rparr>)
      | RqServer P # ops \<Rightarrow>
          (case sy_serve (rq_state s) of
             SvReturned r \<Rightarrow> if P r then s\<lparr>rq_script := ops\<rparr> else s\<lparr>rq_failed := True\<rparr>
           | _ \<Rightarrow> s)
      | RqClosed i # ops \<Rightarrow> if conn_closed i (rq_state s) then s\<lparr>rq_script := ops\<rparr> else s)"

text \<open>A task is suspended between two polls, each of which begins with the first branch of a \<open>select!\<close>.\<close>

fun pc_suspended :: "conn_pc \<Rightarrow> bool" where
  "pc_suspended AccShutdown = True"
| "pc_suspended FirstShutdown = True"
| "pc_suspended MainGraceful = True"
| "pc_suspended DrainShutdown = True"
| "pc_suspended (CpDrop d) = True"
| "pc_suspended _ = False"

fun pc_polls_hyper :: "conn_pc \<Rightarrow> bool" where
  "pc_polls_hyper FirstServe = True"
| "pc_polls_hyper MainServe = True"
| "pc_polls_hyper DrainServe = True"
| "pc_polls_hyper _ = False"

text \<open>The task is in a poll that has seen no shutdown and may come to Hyper.\<close>

fun pc_nears_hyper :: "conn_pc \<Rightarrow> bool" where
  "pc_nears_hyper FirstGraceful = True"
| "pc_nears_hyper FirstSleep = True"
| "pc_nears_hyper FirstRx = True"
| "pc_nears_hyper FirstServe = True"
| "pc_nears_hyper MainServe = True"
| "pc_nears_hyper DrainServe = True"
| "pc_nears_hyper _ = False"

text \<open>
  The setup of \<open>FirstRequestService\<close> for a connection, with 0 for its sender: what the service and
  its clones hold, and the channel; and whether the receiver is ready.
\<close>

definition first_setup where
  "first_setup w = first_request_setup (cc_first_request_timeout (rw_cfg w)) 0 () \<lparr>fc_cells = [], fc_sent = []\<rparr>"

definition first_notify where
  "first_notify w = frs_notify (fst (first_setup w))"

definition first_chan where
  "first_chan w = snd (snd (first_setup w))"

definition first_signalled :: "first_request_chan \<Rightarrow> bool" where
  "first_signalled ch = (0 \<in> set (fc_sent ch))"

text \<open>
  A poll of Hyper, when a request has arrived; \<open>t\<close> is the system after it: an answer is sent if
  the task has not dropped the stream.
\<close>

definition hyper_speaks where
  "hyper_speaks w i s \<longleftrightarrow>
     (case cn_serve (sy_conns (rq_state s) ! i) of Some kind \<Rightarrow> rw_speaks w kind i | None \<Rightarrow> False)"

definition hyper_fails where
  "hyper_fails w i s \<longleftrightarrow> is_sent (rq_clients s ! i) \<and> \<not> hyper_speaks w i s"

definition hyper_calls where
  "hyper_calls w i s t \<longleftrightarrow> is_sent (rq_clients s ! i) \<and> hyper_speaks w i s \<and>
     pc_polls_hyper (cn_pc (sy_conns (rq_state s) ! i)) \<and> cn_stream_open (sy_conns (ts_sys t) ! i)"

definition hyper_answers where
  "hyper_answers w i s t =
     (case (rq_clients s ! i, ac_accepted (ts_accepts (rq_sys s) ! i)) of
        (Sent req, Some out) \<Rightarrow>
          if hyper_calls w i s t then (rq_clients s)[i := Answered (rw_respond w req out)] else rq_clients s
      | _ \<Rightarrow> rq_clients s)"

definition hyper_signals where
  "hyper_signals w i s t =
     (if hyper_calls w i s t then (rq_first s)[i := first_request_notify (first_notify w) (rq_first s ! i)]
      else rq_first s)"

definition overdue where
  "overdue w i s = (case cc_first_request_timeout (rw_cfg w) of None \<Rightarrow> False | Some d \<Rightarrow> rq_since s ! i + d \<le> rq_now s)"

definition request_env where
  "request_env w i arrived s = \<lparr>ce_accept = Pending, ce_sleep = overdue w i s,
     ce_rx = (if first_signalled (rq_first s ! i) then Ready (Inr ()) else Pending),
     ce_serve = (arrived \<and> hyper_fails w i s)\<rparr>"

text \<open>Nothing can move: every task is suspended and waits, and so does the test.\<close>

definition conn_waits where
  "conn_waits w s i \<longleftrightarrow>
     (let h = sy_handle (rq_state s); c = sy_conns (rq_state s) ! i;
          quiet = (\<not> is_notified (hi_shutdown h) \<and> \<not> is_notified (hi_graceful h))
      in pc_suspended (cn_pc c) \<and>
         (case conn_phase c of
            PhAccept \<Rightarrow> quiet \<and> ac_called (ts_accepts (rq_sys s) ! i) \<noteq> None \<and>
              (case fst (accept_poll (rw_server w) (ts_store (rq_sys s)) (rw_fenv w True) (ts_accepts (rq_sys s) ! i)) of
                 Returns Pending \<Rightarrow> True | _ \<Rightarrow> False)
          | PhFirst \<Rightarrow> quiet \<and> \<not> is_sent (rq_clients s ! i) \<and> \<not> overdue w i s \<and> \<not> first_signalled (rq_first s ! i)
          | PhMain \<Rightarrow> quiet \<and> \<not> is_sent (rq_clients s ! i)
          | PhDrain \<Rightarrow> \<not> is_notified (hi_shutdown h) \<and> \<not> is_sent (rq_clients s ! i)
          | PhDrop \<Rightarrow> conn_done c))"

definition sleeping where
  "sleeping s \<longleftrightarrow> (case rq_timer s of None \<Rightarrow> False | Some t \<Rightarrow> rq_now s < t)"

definition req_test_waits where
  "req_test_waits s \<longleftrightarrow> rq_failed s \<or>
     (case rq_script s of
        [] \<Rightarrow> True
      | RqListening addr # _ \<Rightarrow> \<not> is_notified (hi_addr_notify (sy_handle (rq_state s)))
      | RqRequest i req P # _ \<Rightarrow> rq_waiting s \<and> client_gets i s = Pending
      | RqSleep d # _ \<Rightarrow> sleeping s
      | RqServer P # _ \<Rightarrow> \<not> serve_over (sy_serve (rq_state s))
      | RqClosed i # _ \<Rightarrow> \<not> conn_closed i (rq_state s)
      | _ \<Rightarrow> False)"

definition req_idle where
  "req_idle w s \<longleftrightarrow> serve_blocked (sy_handle (rq_state s)) (rq_backlog s) (sy_serve (rq_state s)) \<and>
     list_all (conn_waits w s) [0..<length (sy_conns (rq_state s))] \<and> req_test_waits s"

text \<open>
  The next timer: that of the test, or the first-request timeout of a connection. (A client that
  has answered its handshake leaves no timer running in the acceptor.) The runtime ends with the test.
\<close>

definition first_deadline where
  "first_deadline w s i =
     (if conn_phase (sy_conns (rq_state s) ! i) = PhFirst
      then map_option (\<lambda>d. rq_since s ! i + d) (cc_first_request_timeout (rw_cfg w)) else None)"

definition req_deadlines where
  "req_deadlines w s = filter (\<lambda>t. rq_now s < t)
     (List.map_filter (\<lambda>x. x) (rq_timer s # map (first_deadline w s) [0..<length (sy_conns (rq_state s))]))"

text \<open>
  A step of the server; a poll of a connection's task, its client having answered the handshake
  or not and its request having arrived or not; a step of the test; a step of the clock.
\<close>

datatype req_action = RqServe | RqConn nat bool bool | RqTest | RqTick

fun req_step ::
  "('a, 'n, 'f, 'fe, 'out, 'h, 'op, 'req, 'resp) request_world \<Rightarrow> req_action \<Rightarrow>
   ('a, 'n, 'f, 'fe, 'out, 'h, 'req, 'resp) req_test \<Rightarrow>
   ('a, 'n, 'f, 'fe, 'out, 'h, 'req, 'resp) req_test option"
where
  "req_step w RqServe s =
     map_option (\<lambda>t.
         let new = length (sy_conns (rq_state t)) - length (sy_conns (rq_state s))
         in t\<lparr>rq_backlog := (if sy_serve (rq_state s) = SvLoop (LpAccept AfStream) then tl (rq_backlog s) else rq_backlog s),
              rq_since := rq_since s @ replicate new (rq_now s), rq_first := rq_first s @ replicate new (first_chan w)\<rparr>)
       (req_sys_step w (TaSys (ActServe (backlog_env (Inr ()) (Inr (rw_addr w)) (rq_backlog s)))) s)"
| "req_step w (RqConn i answered arrived) s =
     map_option (\<lambda>t. t\<lparr>rq_clients := (if arrived then hyper_answers w i s (rq_sys t) else rq_clients s),
         rq_first := (if arrived then hyper_signals w i s (rq_sys t) else rq_first s),
         rq_since := (if conn_phase (sy_conns (rq_state t) ! i) = conn_phase (sy_conns (rq_state s) ! i)
                      then rq_since s else (rq_since s)[i := rq_now s])\<rparr>)
       (req_sys_step w (TaConn i (rw_fenv w answered) (request_env w i arrived s)) s)"
| "req_step w RqTest s =
     (if rw_current w \<and> \<not> list_all (\<lambda>c. pc_suspended (cn_pc c)) (sy_conns (rq_state s)) then None
      else Some (if rq_failed s then s else req_test_step w s))"
| "req_step w RqTick s =
     (if req_idle w s \<and> rq_script s \<noteq> [] \<and> req_deadlines w s \<noteq> []
      then Some (s\<lparr>rq_now := min_list (req_deadlines w s)\<rparr>) else None)"

inductive req_moves for w where
  req_moves: "req_step w b s = Some t \<Longrightarrow> req_moves w s t"

inductive_simps req_moves_iff: "req_moves w s t"

abbreviation req_reachable where
  "req_reachable w ops \<equiv> reach (\<lambda>s. s = req_start w ops) (req_moves w)"

fun req_run where
  "req_run w [] s = Some s"
| "req_run w (b # bs) s = (case req_step w b s of None \<Rightarrow> None | Some t \<Rightarrow> req_run w bs t)"

lemma req_run_reachable:
  "req_reachable w ops s \<Longrightarrow> req_run w bs s = Some t \<Longrightarrow> req_reachable w ops t"
proof (induction bs arbitrary: s)
  case (Cons b bs)
  from Cons.prems(2) obtain u where "req_step w b s = Some u" and "req_run w bs u = Some t"
    by (auto split: option.splits)
  then show ?case using Cons.IH [OF reach_step [OF Cons.prems(1) req_moves]] by blast
qed simp

lemma req_start_reachable: "req_run w bs (req_start w ops) = Some t \<Longrightarrow> req_reachable w ops t"
  by (rule req_run_reachable [OF reach_start]) simp_all

text \<open>The script of a test only gets shorter.\<close>

fun is_sleep :: "('a, 'req, 'resp) req_op \<Rightarrow> bool" where
  "is_sleep (RqSleep d) = True"
| "is_sleep _ = False"

lemma req_sys_step_sys:
  "req_sys_step w b s = Some t \<Longrightarrow> tls_sys_step (rw_api w) (rw_cfg w) (rw_server w) b (rq_sys s) = Some (rq_sys t)"
  "req_sys_step w b s = Some t \<Longrightarrow> rq_script t = rq_script s"
  by (auto simp: req_sys_step_def simp del: tls_sys_step.simps)

lemma req_test_step_script: "set (rq_script (req_test_step w s)) \<subseteq> set (rq_script s)"
  by (auto split: list.splits req_op.splits option.splits poll.splits serve_pc.splits if_splits)

lemma req_step_script:
  assumes "req_step w b s = Some t"
  shows "set (rq_script t) \<subseteq> set (rq_script s)"
proof (cases b)
  case RqTest
  with assms req_test_step_script [of w s] show ?thesis by (auto simp del: req_test_step.simps split: if_splits)
qed (use assms in \<open>auto simp: Let_def dest!: req_sys_step_sys(2) split: if_splits\<close>)

lemma req_script_suffix:
  assumes "req_reachable w ops s"
  shows "set (rq_script s) \<subseteq> set ops"
  using assms
proof (induction rule: reach.induct)
  case (reach_step s t)
  then show ?case using req_step_script by (fastforce simp: req_moves_iff)
qed (simp add: req_start_def)

section \<open>The sequential reference\<close>

text \<open>
  Whether the assertions of a script hold when requests are answered before shutdown and fail
  after it: \<open>n\<close> clients have connected, those in \<open>served\<close> have had an answer or an error, \<open>up\<close> says
  that shutdown was not called. A test sleeps when all its clients have been served, so that no
  timeout can close one of them. That a request after shutdown fails is true on one thread only.
\<close>

fun requests_run ::
  "(nat \<Rightarrow> bool) \<Rightarrow> ('req \<Rightarrow> 'resp) \<Rightarrow> bool \<Rightarrow> 'a \<Rightarrow> ('a, 'req, 'resp) req_op list \<Rightarrow> nat \<Rightarrow> nat set \<Rightarrow> bool \<Rightarrow> bool"
where
  "requests_run speaks answer current bound [] n served up = True"
| "requests_run speaks answer current bound (RqListening addr # ops) n served up =
     (up \<and> addr = bound \<and> requests_run speaks answer current bound ops n served up)"
| "requests_run speaks answer current bound (RqConnect a # ops) n served up =
     (up \<and> requests_run speaks answer current bound ops (Suc n) served up)"
| "requests_run speaks answer current bound (RqRequest i req P # ops) n served up =
     ((if up then i < n \<and> P (if speaks i then Some (answer req) else None) else current \<and> i \<in> served \<and> P None) \<and>
      requests_run speaks answer current bound ops n (insert i served) up)"
| "requests_run speaks answer current bound (RqSleep d # ops) n served up =
     (up \<and> (\<forall>i < n. i \<in> served) \<and> requests_run speaks answer current bound ops n served up)"
| "requests_run speaks answer current bound (RqShutdown # ops) n served up =
     (up \<and> requests_run speaks answer current bound ops n served False)"
| "requests_run speaks answer current bound (RqServer P # ops) n served up =
     (\<not> up \<and> P (Inr ()) \<and> requests_run speaks answer current bound ops n served up)"
| "requests_run speaks answer current bound (RqClosed i # ops) n served up =
     (\<not> up \<and> i \<in> served \<and> requests_run speaks answer current bound ops n served up)"

section \<open>The contract of the acceptor\<close>

text \<open>How the task of a connection has Hyper serve it.\<close>

definition serve_as :: "conn_config \<Rightarrow> serve_kind" where
  "serve_as cfg = (case cc_http_version cfg of Some _ \<Rightarrow> ServePlain | None \<Rightarrow> ServeUpgrades)"

text \<open>
  \<open>ok\<close> stands for the documented behaviour of the libraries; \<open>fresh f\<close>: the acceptor was called and
  its future waits for the client; \<open>answer\<close>: what the service that it gives answers.
\<close>

locale answering_server =
  fixes ok :: bool and w :: "('a, 'n, 'f, 'fe, 'out, 'h, 'op, 'req, 'resp) request_world"
    and fresh :: "'f \<Rightarrow> bool" and answer :: "'req \<Rightarrow> 'resp"
  assumes timeout_positive: "ok \<Longrightarrow> cc_first_request_timeout (rw_cfg w) \<noteq> Some 0"
    and starts: "ok \<Longrightarrow> fresh (tv_call (rw_server w) (tv_env (rw_server w) (rw_store w) (rw_fenv w answered))
      (tv_start (rw_server w)))"
    and polls: "ok \<Longrightarrow> accept_poll (rw_server w) (rw_store w) (rw_fenv w answered) a = (r, b) \<Longrightarrow> fresh (ac_future a) \<Longrightarrow>
      (\<exists>out. r = Returns (Ready (Inr out)) \<and> (\<forall>req. rw_respond w req out = answer req)) \<or>
      \<not> answered \<and> r = Returns Pending \<and> fresh (ac_future b)"
begin

abbreviation client_speaks where
  "client_speaks \<equiv> rw_speaks w (serve_as (rw_cfg w))"

text \<open>
  A connection at each point of a test: \<open>up\<close> as long as shutdown was not called. Its first-request
  timeout does not elapse. On one thread no task is on its way to Hyper after shutdown.
\<close>

definition answers where
  "answers a \<longleftrightarrow> (\<exists>out. ac_accepted a = Some out \<and> (\<forall>req. rw_respond w req out = answer req))"

definition conn_fine where
  "conn_fine up now i c a since \<longleftrightarrow>
     (case conn_phase c of
        PhAccept \<Rightarrow> cn_stream_open c \<and>
          (ac_called a = None \<longrightarrow> cn_pc c = AccShutdown \<and> ac_future a = tv_start (rw_server w)) \<and>
          (ac_called a \<noteq> None \<longrightarrow> fresh (ac_future a))
      | PhFirst \<Rightarrow> cn_stream_open c \<and> cn_serve c = Some (serve_as (rw_cfg w)) \<and> answers a \<and> (\<exists>d. cc_first_request_timeout (rw_cfg w) = Some d \<and> now < since + d)
      | PhMain \<Rightarrow> cn_stream_open c \<and> cn_serve c = Some (serve_as (rw_cfg w)) \<and> answers a
      | PhDrain \<Rightarrow> False
      | PhDrop \<Rightarrow> \<not> cn_stream_open c \<and> (up \<longrightarrow> \<not> client_speaks i)) \<and>
     (\<not> up \<and> rw_current w \<longrightarrow> \<not> pc_nears_hyper (cn_pc c))"

lemma conn_fine_step:
  assumes "conn_fine (\<not> is_notified (hi_shutdown h)) now i c a t0" and "\<not> is_notified (hi_graceful h)" and ok: "ok"
    and "tls_conn_step (rw_api w) (rw_cfg w) (rw_server w) (rw_store w) (rw_fenv w answered) env h c a = (h', c', a')"
    and "ce_serve env \<Longrightarrow> cn_serve c = Some (serve_as (rw_cfg w)) \<Longrightarrow> \<not> client_speaks i"
    and "ce_sleep env = (case cc_first_request_timeout (rw_cfg w) of None \<Rightarrow> False | Some d \<Rightarrow> t0 + d \<le> now)"
    and "ce_rx env \<noteq> Ready (Inl ())"
  shows "conn_fine (\<not> is_notified (hi_shutdown h)) now i c' a' (if conn_phase c' = conn_phase c then t0 else now)"
proof (cases "cn_pc c = AccAccept")
  case True
  obtain r b where poll: "accept_poll (rw_server w) (rw_store w) (rw_fenv w answered) a = (r, b)" by fastforce
  have accepted: "ac_accepted b = Some out" if "r = Returns (Ready (Inr out))" for out
    using poll that by (auto simp: accept_poll_def split: prod.splits)
  have called: "ac_called b = ac_called a" using poll by (auto simp: accept_poll_def split: prod.splits)
  from True assms(1) have fresh: "cn_stream_open c" "fresh (ac_future a)" "ac_called a \<noteq> None"
    by (auto simp: conn_fine_def conn_phase_def)
  from polls [OF ok poll fresh(2)] show ?thesis
  proof
    assume "\<exists>out. r = Returns (Ready (Inr out)) \<and> (\<forall>req. rw_respond w req out = answer req)"
    then obtain out where r: "r = Returns (Ready (Inr out))" "\<forall>req. rw_respond w req out = answer req" by blast
    with assms(4) True poll have "c' = conn_accepted (rw_cfg w) c" "a' = b"
      by (auto simp: tls_conn_step_accept conn_step_def)
    moreover have "0 < d" if "cc_first_request_timeout (rw_cfg w) = Some d" for d
      using timeout_positive [OF ok] that by (cases d) auto
    ultimately show ?thesis using r accepted fresh True
      by (auto simp: conn_fine_def conn_accepted_def conn_phase_def answers_def serve_as_def split: option.split)
  next
    assume "\<not> answered \<and> r = Returns Pending \<and> fresh (ac_future b)"
    moreover from this assms(4) True poll have "c' = conn_goto AccShutdown c" "a' = b"
      by (auto simp: tls_conn_step_accept conn_step_def)
    ultimately show ?thesis using fresh called True by (auto simp: conn_fine_def conn_goto_def conn_phase_def)
  qed
next
  case False
  with assms(4) have c': "c' = snd (conn_step (rw_api w) (rw_cfg w) env h c)"
    and a': "a' = (if cn_pc c = AccShutdown then accept_call (rw_server w) (rw_store w) (rw_fenv w answered) a else a)"
    by (auto simp: tls_conn_step_other)
  have "fresh (ac_future (accept_call (rw_server w) (rw_store w) (rw_fenv w answered) a))"
    if "conn_phase c = PhAccept"
    using assms(1) starts [OF ok] that
    by (cases "ac_called a") (auto simp: conn_fine_def accept_call_def Let_def)
  with assms c' a' False show ?thesis
    by (cases "cn_pc c")
      (auto simp: conn_fine_def conn_step_def conn_simps conn_phase_def
        split: poll.split sum.split if_splits prod.split option.splits)
qed

definition conns_fine where
  "conns_fine s \<longleftrightarrow> (\<forall>i < length (sy_conns (rq_state s)).
     conn_fine (\<not> is_notified (hi_shutdown (sy_handle (rq_state s)))) (rq_now s) i (sy_conns (rq_state s) ! i)
       (ts_accepts (rq_sys s) ! i) (rq_since s ! i))"

text \<open>A channel of \<open>FirstRequestService\<close> is new or was used; a call uses it.\<close>

definition chan_fine where
  "chan_fine ch \<longleftrightarrow> ch = first_chan w \<or> first_signalled ch"

definition first_done where
  "first_done ch \<longleftrightarrow> cc_first_request_timeout (rw_cfg w) = None \<or> first_signalled ch"

lemma notify_done:
  "chan_fine ch \<Longrightarrow> chan_fine (first_request_notify (first_notify w) ch)"
  "chan_fine ch \<Longrightarrow> first_done (first_request_notify (first_notify w) ch)"
  "first_done ch \<Longrightarrow> first_done (first_request_notify (first_notify w) ch)"
  by (cases "cc_first_request_timeout (rw_cfg w)";
      auto simp: chan_fine_def first_done_def first_signalled_def first_chan_def first_notify_def first_setup_def
        first_request_setup_def first_request_new_def first_request_notify_def split: option.split)+

text \<open>The request that the test waits for.\<close>

definition awaited where
  "awaited s \<longleftrightarrow> (rq_waiting s \<longrightarrow>
     (\<exists>i req P ops. rq_script s = RqRequest i req P # ops \<and> i < length (rq_clients s) \<and>
        (rq_clients s ! i = Sent req \<or>
         \<not> is_notified (hi_shutdown (sy_handle (rq_state s))) \<and> client_speaks i \<and> first_done (rq_first s ! i) \<and>
         i < length (sy_conns (rq_state s)) \<and> rq_clients s ! i = Answered (answer req))))"

definition server_fine where
  "server_fine s \<longleftrightarrow>
     (let y = rq_state s
      in \<not> is_notified (hi_graceful (sy_handle y)) \<and> serve_steady (rw_addr w) (sy_handle y) (sy_serve y) \<and>
         ts_store (rq_sys s) = rw_store w \<and> length (ts_accepts (rq_sys s)) = length (sy_conns y) \<and>
         length (rq_since s) = length (sy_conns y) \<and> length (rq_first s) = length (sy_conns y) \<and>
         list_all chan_fine (rq_first s) \<and> length (sy_conns y) \<le> length (rq_clients s) \<and>
         (\<not> serve_over (sy_serve y) \<longrightarrow>
            length (rq_clients s) = length (sy_conns y) + length (serve_holds (sy_serve y)) + length (rq_backlog s)))"

text \<open>The clients that have had an answer or an error.\<close>

definition served_fine where
  "served_fine s served \<longleftrightarrow> (\<forall>i \<in> served. i < length (sy_conns (rq_state s)) \<and>
     (is_notified (hi_shutdown (sy_handle (rq_state s))) \<or>
      (if client_speaks i then first_done (rq_first s ! i) else conn_phase (sy_conns (rq_state s) ! i) = PhDrop)))"

abbreviation reference where
  "reference s served \<equiv> requests_run client_speaks answer (rw_current w) (rw_addr w) (rq_script s) (length (rq_clients s))
     served (\<not> is_notified (hi_shutdown (sy_handle (rq_state s))))"

definition agrees where
  "agrees s \<longleftrightarrow> \<not> rq_failed s \<and> server_fine s \<and> conns_fine s \<and> awaited s \<and> (\<exists>served. served_fine s served \<and> reference s served)"

lemma agreesI:
  assumes "\<not> rq_failed t" and "server_fine t" and "conns_fine t" and "awaited t" and "served_fine t served"
    and "reference t served"
  shows "agrees t"
  using assms unfolding agrees_def by blast

lemma hyper_lengths [simp]:
  "length (hyper_answers w i s t) = length (rq_clients s)" "length (hyper_signals w i s t) = length (rq_first s)"
  by (simp_all add: hyper_answers_def hyper_signals_def split: exchange.split option.split)

text \<open>What a poll of Hyper does to the clients and to the channels.\<close>

lemma hyper_answers_nth:
  assumes "j < length (rq_clients s)"
  shows "hyper_answers w i s t ! j = rq_clients s ! j \<or>
    j = i \<and> hyper_calls w i s t \<and>
    (\<exists>req out. rq_clients s ! i = Sent req \<and> ac_accepted (ts_accepts (rq_sys s) ! i) = Some out \<and>
       hyper_answers w i s t ! j = Answered (rw_respond w req out))"
  using assms by (cases "j = i") (auto simp: hyper_answers_def split: exchange.split option.split)

lemma hyper_signals_fine:
  assumes "list_all chan_fine (rq_first s)"
  shows "list_all chan_fine (hyper_signals w i s t)"
    and "first_done (rq_first s ! j) \<Longrightarrow> j < length (rq_first s) \<Longrightarrow> first_done (hyper_signals w i s t ! j)"
    and "hyper_calls w i s t \<Longrightarrow> i < length (rq_first s) \<Longrightarrow> first_done (hyper_signals w i s t ! i)"
proof -
  have fine: "chan_fine (rq_first s ! k)" if "k < length (rq_first s)" for k
    using assms that by (simp add: list_all_length)
  show "list_all chan_fine (hyper_signals w i s t)"
    unfolding list_all_length
  proof (intro allI impI)
    fix n assume "n < length (hyper_signals w i s t)"
    with fine notify_done(1) show "chan_fine (hyper_signals w i s t ! n)"
      by (cases "n = i") (auto simp: hyper_signals_def split: if_splits)
  qed
  show "first_done (rq_first s ! j) \<Longrightarrow> j < length (rq_first s) \<Longrightarrow> first_done (hyper_signals w i s t ! j)"
    using notify_done(3) by (cases "i = j") (auto simp: hyper_signals_def)
  show "hyper_calls w i s t \<Longrightarrow> i < length (rq_first s) \<Longrightarrow> first_done (hyper_signals w i s t ! i)"
    using notify_done(2) [OF fine [of i]] by (simp add: hyper_signals_def)
qed

lemma polls_answers:
  assumes "conn_fine up now i c a t0" and "pc_polls_hyper (cn_pc c)"
  shows "(up \<or> \<not> rw_current w) \<and> answers a \<and> cn_serve c = Some (serve_as (rw_cfg w))"
  using assms by (cases "cn_pc c") (auto simp: conn_fine_def conn_phase_def)

lemma awaited_answers:
  assumes "agrees s" and i: "i < length (sy_conns (rq_state s))"
    and t: "rq_script t = rq_script s" "rq_waiting t = rq_waiting s" "rq_clients t = hyper_answers w i s u"
      "rq_first t = hyper_signals w i s u" "length (sy_conns (rq_state t)) = length (sy_conns (rq_state s))"
      "hi_shutdown (sy_handle (rq_state t)) = hi_shutdown (sy_handle (rq_state s))"
  shows "awaited t"
  unfolding awaited_def
proof (rule impI)
  assume "rq_waiting t"
  with assms(1) t(2) obtain j req P ops where j: "rq_script s = RqRequest j req P # ops" "j < length (rq_clients s)"
    and x: "rq_clients s ! j = Sent req \<or> \<not> is_notified (hi_shutdown (sy_handle (rq_state s))) \<and> client_speaks j \<and>
         first_done (rq_first s ! j) \<and> j < length (sy_conns (rq_state s)) \<and> rq_clients s ! j = Answered (answer req)"
    by (auto simp: agrees_def awaited_def)
  have current: "rw_current w" if "is_notified (hi_shutdown (sy_handle (rq_state s)))"
    using assms(1) that j(1) by (auto simp: agrees_def)
  have fine: "conn_fine (\<not> is_notified (hi_shutdown (sy_handle (rq_state s)))) (rq_now s) i (sy_conns (rq_state s) ! i)
      (ts_accepts (rq_sys s) ! i) (rq_since s ! i)"
    using assms(1) i by (simp add: agrees_def conns_fine_def)
  have first: "list_all chan_fine (rq_first s)" "length (rq_first s) = length (sy_conns (rq_state s))"
    using assms(1) by (simp_all add: agrees_def server_fine_def Let_def)
  note signals = hyper_signals_fine [OF first(1), where i = i and t = u, unfolded first(2)]
  have "rq_clients t ! j = Sent req \<or> \<not> is_notified (hi_shutdown (sy_handle (rq_state s))) \<and> client_speaks j \<and>
         first_done (rq_first t ! j) \<and> j < length (sy_conns (rq_state s)) \<and> rq_clients t ! j = Answered (answer req)"
  proof (cases "rq_clients t ! j = rq_clients s ! j")
    case True
    with x signals(2) show ?thesis unfolding t(4) by auto
  next
    case False
    with hyper_answers_nth [OF j(2), of i u] obtain req' out where call: "j = i" "hyper_calls w i s u"
      "rq_clients s ! i = Sent req'" "ac_accepted (ts_accepts (rq_sys s) ! i) = Some out"
      "rq_clients t ! j = Answered (rw_respond w req' out)" unfolding t(3) by auto
    from polls_answers [OF fine] call(2) have "\<not> is_notified (hi_shutdown (sy_handle (rq_state s))) \<or> \<not> rw_current w"
      "answers (ts_accepts (rq_sys s) ! i)" "cn_serve (sy_conns (rq_state s) ! i) = Some (serve_as (rw_cfg w))"
      by (simp_all add: hyper_calls_def)
    with call x current signals(3) [OF call(2) i] i show ?thesis
      unfolding t(4) by (auto simp: answers_def hyper_calls_def hyper_speaks_def)
  qed
  with j show "\<exists>i req P ops. rq_script t = RqRequest i req P # ops \<and> i < length (rq_clients t) \<and>
      (rq_clients t ! i = Sent req \<or> \<not> is_notified (hi_shutdown (sy_handle (rq_state t))) \<and> client_speaks i \<and>
         first_done (rq_first t ! i) \<and> i < length (sy_conns (rq_state t)) \<and> rq_clients t ! i = Answered (answer req))"
    by (auto simp: t)
qed

lemma agrees_conn:
  assumes "agrees s" and "req_step w (RqConn i answered arrived) s = Some t" and ok: "ok"
  shows "agrees t"
proof -
  let ?y = "rq_state s" and ?env = "request_env w i arrived s" and ?up = "\<not> is_notified (hi_shutdown (sy_handle (rq_state s)))"
  from assms(2) obtain u where u: "tls_sys_step (rw_api w) (rw_cfg w) (rw_server w)
      (TaConn i (rw_fenv w answered) ?env) (rq_sys s) = Some u"
    and t: "t = s\<lparr>rq_sys := u, rq_clients := (if arrived then hyper_answers w i s u else rq_clients s),
      rq_first := (if arrived then hyper_signals w i s u else rq_first s),
      rq_since := (if conn_phase (sy_conns (ts_sys u) ! i) = conn_phase (sy_conns ?y ! i)
                   then rq_since s else (rq_since s)[i := rq_now s])\<rparr>"
    by (auto simp: req_sys_step_def simp del: tls_sys_step.simps)
  from tls_conn_poll [OF u] obtain h c a where
      step: "tls_conn_step (rw_api w) (rw_cfg w) (rw_server w) (ts_store (rq_sys s)) (rw_fenv w answered)
        ?env (sy_handle ?y) (sy_conns ?y ! i) (ts_accepts (rq_sys s) ! i) = (h, c, a)"
    and i: "i < length (sy_conns ?y)" and h: "same_signals (sy_handle ?y) h"
    and u': "u = (rq_sys s)\<lparr>ts_sys := ?y\<lparr>sy_handle := h, sy_conns := (sy_conns ?y)[i := c]\<rparr>,
          ts_accepts := (ts_accepts (rq_sys s))[i := a]\<rparr>" by blast
  have signals: "hi_shutdown h = hi_shutdown (sy_handle ?y)" "hi_graceful h = hi_graceful (sy_handle ?y)"
    using h by (simp_all add: same_signals_def)
  have server: "server_fine s" using assms(1) by (simp add: agrees_def)
  then have first: "list_all chan_fine (rq_first s)" "length (rq_first s) = length (sy_conns ?y)"
    and lengths: "length (rq_since s) = length (sy_conns ?y)" "length (ts_accepts (rq_sys s)) = length (sy_conns ?y)"
    by (simp_all add: server_fine_def Let_def)
  have "server_fine t"
    using server serve_steady_signals [OF h] signals hyper_signals_fine(1) [OF first(1)]
    by (auto simp: server_fine_def Let_def t u')
  moreover have old: "conn_fine ?up (rq_now s) k (sy_conns ?y ! k) (ts_accepts (rq_sys s) ! k) (rq_since s ! k)"
    if "k < length (sy_conns ?y)" for k
    using assms(1) that by (simp add: agrees_def conns_fine_def)
  have new: "conn_fine ?up (rq_now s) i c a (if conn_phase c = conn_phase (sy_conns ?y ! i) then rq_since s ! i else rq_now s)"
  proof (rule conn_fine_step [OF old [OF i] _ ok])
    show "tls_conn_step (rw_api w) (rw_cfg w) (rw_server w) (rw_store w) (rw_fenv w answered) ?env (sy_handle ?y)
        (sy_conns ?y ! i) (ts_accepts (rq_sys s) ! i) = (h, c, a)"
      using step server by (simp add: server_fine_def Let_def)
    show "\<not> is_notified (hi_graceful (sy_handle ?y))" using server by (simp add: server_fine_def Let_def)
  qed (auto simp: request_env_def hyper_fails_def hyper_speaks_def overdue_def)
  have "conns_fine t"
    unfolding conns_fine_def
  proof (intro allI impI)
    fix j assume j: "j < length (sy_conns (rq_state t))"
    show "conn_fine (\<not> is_notified (hi_shutdown (sy_handle (rq_state t)))) (rq_now t) j
        (sy_conns (rq_state t) ! j) (ts_accepts (rq_sys t) ! j) (rq_since t ! j)"
    proof (cases "i = j")
      case True
      with new i lengths show ?thesis by (simp add: t u' signals split: if_splits)
    next
      case False
      with old [of j] j show ?thesis by (simp add: t u' signals)
    qed
  qed
  moreover have "awaited t"
  proof (cases arrived)
    case True
    then show ?thesis by (intro awaited_answers [OF assms(1) i]) (simp_all add: t u' signals)
  next
    case False
    with assms(1) show ?thesis by (simp add: agrees_def awaited_def t u' signals)
  qed
  moreover obtain served where served: "served_fine s served" "reference s served"
    using assms(1) by (auto simp: agrees_def)
  have "served_fine t served"
    unfolding served_fine_def
  proof (intro ballI)
    fix j assume "j \<in> served"
    with served(1) have j: "j < length (sy_conns ?y)" "\<not> ?up \<or>
        (if client_speaks j then first_done (rq_first s ! j) else conn_phase (sy_conns ?y ! j) = PhDrop)"
      by (auto simp: served_fine_def)
    have "first_done (rq_first t ! j)" if "first_done (rq_first s ! j)"
      using hyper_signals_fine(2) [OF first(1) that, where i = i and t = u] j(1) that first(2) by (simp add: t)
    moreover have "conn_phase (sy_conns (rq_state t) ! j) = PhDrop" if "conn_phase (sy_conns ?y ! j) = PhDrop"
    proof (cases "i = j")
      case True
      with that have "cn_pc (sy_conns ?y ! i) \<noteq> AccAccept" by (auto simp: conn_phase_def)
      with step have "c = snd (conn_step (rw_api w) (rw_cfg w) ?env (sy_handle ?y) (sy_conns ?y ! i))"
        by (simp add: tls_conn_step_other)
      with conn_step_phase [of "sy_conns ?y ! i" "rw_api w" "rw_cfg w" ?env "sy_handle ?y"] that True
      have "conn_phase c = PhDrop" by (cases "conn_phase c") (auto simp: less_eq_phase_def)
      with True i show ?thesis by (simp add: t u')
    next
      case False
      with that show ?thesis by (simp add: t u')
    qed
    ultimately show "j < length (sy_conns (rq_state t)) \<and> (is_notified (hi_shutdown (sy_handle (rq_state t))) \<or>
        (if client_speaks j then first_done (rq_first t ! j) else conn_phase (sy_conns (rq_state t) ! j) = PhDrop))"
      using j by (auto simp: t u' signals split: if_splits)
  qed
  ultimately show ?thesis
    using assms(1) served(2) by (intro agreesI [where served = served]) (simp_all add: agrees_def t u' signals)
qed

lemma agrees_serve:
  assumes "agrees s" and "req_step w RqServe s = Some t" and ok: "ok"
  shows "agrees t"
proof -
  let ?y = "rq_state s"
  define out where "out = serve_step (rw_api w) (rw_cfg w)
    (backlog_env (Inr ()) (Inr (rw_addr w)) (rq_backlog s)) (sy_handle ?y) (sy_serve ?y)"
  from assms(1) have st: "serve_steady (rw_addr w) (sy_handle ?y) (sy_serve ?y)"
    "\<not> is_notified (hi_graceful (sy_handle ?y))" by (simp_all add: agrees_def server_fine_def Let_def)
  have t: "rq_sys t = (rq_sys s)\<lparr>ts_sys := ?y\<lparr>sy_handle := so_handle out, sy_serve := so_pc out,
        sy_conns := sy_conns ?y @ so_spawn out, sy_log := sy_log ?y @ so_log out\<rparr>,
      ts_accepts := ts_accepts (rq_sys s) @ replicate (length (so_spawn out)) (accepting_new (rw_server w))\<rparr>"
    "rq_backlog t = (if sy_serve ?y = SvLoop (LpAccept AfStream) then tl (rq_backlog s) else rq_backlog s)"
    "rq_since t = rq_since s @ replicate (length (so_spawn out)) (rq_now s)"
    "rq_first t = rq_first s @ replicate (length (so_spawn out)) (first_chan w)"
    "rq_clients t = rq_clients s" "rq_script t = rq_script s" "rq_waiting t = rq_waiting s" "rq_failed t = rq_failed s"
    "rq_now t = rq_now s"
    using assms(2) by (auto simp: req_sys_step_def out_def Let_def)
  note steady = serve_step_steady [OF st out_def t(2)]
  have signals: "hi_shutdown (so_handle out) = hi_shutdown (sy_handle ?y)"
    "hi_graceful (so_handle out) = hi_graceful (sy_handle ?y)"
    by (simp_all add: out_def serve_step_shutdown [OF st(1)] serve_step_signals del: backlog_env_def)
  from assms(1) have server: "length (ts_accepts (rq_sys s)) = length (sy_conns ?y)" "ts_store (rq_sys s) = rw_store w"
    "length (rq_since s) = length (sy_conns ?y)" "length (rq_first s) = length (sy_conns ?y)" "list_all chan_fine (rq_first s)"
    "length (sy_conns ?y) \<le> length (rq_clients s)"
    "\<not> serve_over (sy_serve ?y) \<Longrightarrow>
      length (rq_clients s) = length (sy_conns ?y) + length (serve_holds (sy_serve ?y)) + length (rq_backlog s)"
    by (simp_all add: agrees_def server_fine_def Let_def)
  have lengths: "length (so_spawn out) + length (serve_holds (so_pc out)) + length (rq_backlog t) =
      length (serve_holds (sy_serve ?y)) + length (rq_backlog s)" if "\<not> serve_over (so_pc out)"
    using steady that by (metis add.assoc length_append length_map)
  have "list_all chan_fine (rq_first t)" using server(5) by (auto simp: t list_all_iff chan_fine_def)
  then have "server_fine t"
    using steady signals server lengths st
    by (cases "serve_over (so_pc out)") (auto simp: server_fine_def Let_def t)
  moreover have "conns_fine t"
    unfolding conns_fine_def
  proof (intro allI impI)
    fix i assume i: "i < length (sy_conns (rq_state t))"
    show "conn_fine (\<not> is_notified (hi_shutdown (sy_handle (rq_state t)))) (rq_now t) i (sy_conns (rq_state t) ! i)
        (ts_accepts (rq_sys t) ! i) (rq_since t ! i)"
    proof (cases "i < length (sy_conns ?y)")
      case True
      with assms(1) server(1,3) show ?thesis by (simp add: agrees_def conns_fine_def t signals nth_append)
    next
      case False
      let ?k = "i - length (sy_conns ?y)"
      from False i have k: "?k < length (so_spawn out)" by (simp add: t)
      from spawned_new [OF nth_mem [OF k, unfolded out_def]] obtain r where "so_spawn out ! ?k = conn_spawn r"
        unfolding out_def by blast
      with False k server(1) starts [OF ok] show ?thesis
        by (simp add: t nth_append conn_fine_def conn_spawn_def conn_phase_def accepting_new_def)
    qed
  qed
  moreover have "awaited t" using assms(1) server(4) by (auto simp: agrees_def awaited_def t signals nth_append)
  moreover obtain served where "served_fine s served" "reference s served"
    using assms(1) by (auto simp: agrees_def)
  moreover from this(1) have "served_fine t served"
    using server(4) by (auto simp: served_fine_def t signals nth_append)
  ultimately show ?thesis
    using assms(1) by (intro agreesI [where served = served]) (simp_all add: agrees_def t signals)
qed

lemma closed_dropped:
  assumes "conns_fine s" and "i < length (sy_conns (rq_state s))"
  shows "conn_closed i (rq_state s) \<longleftrightarrow> conn_phase (sy_conns (rq_state s) ! i) = PhDrop"
proof -
  from assms have "conn_fine (\<not> is_notified (hi_shutdown (sy_handle (rq_state s)))) (rq_now s) i (sy_conns (rq_state s) ! i)
      (ts_accepts (rq_sys s) ! i) (rq_since s ! i)" by (simp add: conns_fine_def)
  with assms(2) show ?thesis
    by (cases "conn_phase (sy_conns (rq_state s) ! i)") (auto simp: conn_fine_def conn_closed_def)
qed

lemma fine_updates [simp]:
  "conns_fine (s\<lparr>rq_script := ops\<rparr>) = conns_fine s" "conns_fine (s\<lparr>rq_waiting := b\<rparr>) = conns_fine s"
  "conns_fine (s\<lparr>rq_clients := cs\<rparr>) = conns_fine s" "conns_fine (s\<lparr>rq_backlog := q\<rparr>) = conns_fine s"
  "conns_fine (s\<lparr>rq_timer := d\<rparr>) = conns_fine s"
  "server_fine (s\<lparr>rq_script := ops\<rparr>) = server_fine s" "server_fine (s\<lparr>rq_waiting := b\<rparr>) = server_fine s"
  "server_fine (s\<lparr>rq_timer := d\<rparr>) = server_fine s" "server_fine (s\<lparr>rq_now := n\<rparr>) = server_fine s"
  "length cs = length (rq_clients s) \<Longrightarrow> server_fine (s\<lparr>rq_clients := cs\<rparr>) = server_fine s"
  "served_fine (s\<lparr>rq_script := ops\<rparr>) served = served_fine s served"
  "served_fine (s\<lparr>rq_waiting := b\<rparr>) served = served_fine s served"
  "served_fine (s\<lparr>rq_clients := cs\<rparr>) served = served_fine s served"
  "served_fine (s\<lparr>rq_backlog := q\<rparr>) served = served_fine s served"
  "served_fine (s\<lparr>rq_timer := d\<rparr>) served = served_fine s served"
  "served_fine (s\<lparr>rq_now := n\<rparr>) served = served_fine s served"
  by (simp_all add: conns_fine_def server_fine_def served_fine_def)

text \<open>On one thread, a task that is suspended when shutdown is called does not poll Hyper again.\<close>

lemma conns_fine_shutdown:
  assumes "conns_fine s" and "rw_current w \<Longrightarrow> list_all (\<lambda>c. pc_suspended (cn_pc c)) (sy_conns (rq_state s))"
    and "sy_conns (rq_state t) = sy_conns (rq_state s)" and "ts_accepts (rq_sys t) = ts_accepts (rq_sys s)"
    and "is_notified (hi_shutdown (sy_handle (rq_state t)))" and "rq_now t = rq_now s" and "rq_since t = rq_since s"
  shows "conns_fine t"
  unfolding conns_fine_def
proof (intro allI impI)
  fix i assume i: "i < length (sy_conns (rq_state t))"
  with assms(1,3,4) have "conn_fine (\<not> is_notified (hi_shutdown (sy_handle (rq_state s)))) (rq_now s) i (sy_conns (rq_state t) ! i)
      (ts_accepts (rq_sys t) ! i) (rq_since s ! i)" by (simp add: conns_fine_def)
  moreover have "\<not> pc_nears_hyper (cn_pc (sy_conns (rq_state t) ! i))" if "rw_current w"
  proof -
    from assms(2) [OF that] i assms(3) have "pc_suspended (cn_pc (sy_conns (rq_state t) ! i))" by (simp add: list_all_length)
    then show ?thesis by (cases "cn_pc (sy_conns (rq_state t) ! i)") auto
  qed
  ultimately show "conn_fine (\<not> is_notified (hi_shutdown (sy_handle (rq_state t)))) (rq_now t) i (sy_conns (rq_state t) ! i)
      (ts_accepts (rq_sys t) ! i) (rq_since t ! i)"
    using assms(5-7) by (auto simp: conn_fine_def split: phase.splits)
qed

lemma listening_has_address:
  assumes "server_fine s" and "is_notified (hi_addr_notify (sy_handle (rq_state s)))"
  shows "hi_addr (sy_handle (rq_state s)) = Some (rw_addr w)"
  using assms by (cases "sy_serve (rq_state s)") (auto simp: server_fine_def Let_def)

lemma up_serving:
  assumes "server_fine s" and "\<not> is_notified (hi_shutdown (sy_handle (rq_state s)))"
  shows "\<not> serve_over (sy_serve (rq_state s))"
  using assms by (cases "sy_serve (rq_state s)") (auto simp: server_fine_def Let_def)

text \<open>The answer that a waiting test gets is the one that the reference tells, and its client is served.\<close>

lemma awaited_gets:
  assumes "agrees s" and "rq_waiting s" and "rq_script s = RqRequest i req P # ops" and "client_gets i s = Ready r"
  shows "r = (if is_notified (hi_shutdown (sy_handle (rq_state s))) \<or> \<not> client_speaks i then None else Some (answer req))"
    and "served_fine s served \<Longrightarrow> served_fine s (insert i served)"
proof -
  have "(r = (if is_notified (hi_shutdown (sy_handle (rq_state s))) \<or> \<not> client_speaks i then None else Some (answer req))) \<and>
    served_fine s {i}"
  proof (cases "rq_clients s ! i")
    case (Answered x)
    with assms show ?thesis by (auto simp: agrees_def awaited_def client_gets_def served_fine_def)
  next
    case NoRequest
    with assms show ?thesis by (auto simp: agrees_def awaited_def)
  next
    case (Sent req')
    with assms(4) have closed: "conn_closed i (rq_state s)" "r = None" by (auto simp: client_gets_def split: if_splits)
    then have i: "i < length (sy_conns (rq_state s))" by (simp add: conn_closed_def)
    with assms(1) closed closed_dropped [of s i]
    have "conn_phase (sy_conns (rq_state s) ! i) = PhDrop" and "is_notified (hi_shutdown (sy_handle (rq_state s))) \<or> \<not> client_speaks i"
      by (auto simp: agrees_def conns_fine_def conn_fine_def)
    with i closed show ?thesis by (auto simp: served_fine_def)
  qed
  then show "r = (if is_notified (hi_shutdown (sy_handle (rq_state s))) \<or> \<not> client_speaks i then None else Some (answer req))"
    and "served_fine s served \<Longrightarrow> served_fine s (insert i served)" by (auto simp: served_fine_def)
qed

lemma agrees_test:
  assumes "agrees s" and "rw_current w \<Longrightarrow> list_all (\<lambda>c. pc_suspended (cn_pc c)) (sy_conns (rq_state s))"
  shows "agrees (req_test_step w s)"
proof (cases "rq_script s")
  case Nil
  with assms(1) show ?thesis by simp
next
  case (Cons x ops)
  let ?y = "rq_state s"
  from assms(1) have fine: "\<not> rq_failed s" "server_fine s" "conns_fine s" "awaited s" by (simp_all add: agrees_def)
  from assms(1) obtain served where served: "served_fine s served" "reference s served" by (auto simp: agrees_def)
  have conns: "length (sy_conns ?y) \<le> length (rq_clients s)" using fine(2) by (simp add: server_fine_def Let_def)
  show ?thesis
  proof (cases x)
    case (RqListening addr)
    with fine served Cons listening_has_address [OF fine(2)] show ?thesis
      by (auto intro!: agreesI [where served = served] simp: awaited_def)
  next
    case (RqConnect a)
    with served Cons have up: "\<not> is_notified (hi_shutdown (sy_handle ?y))" by simp
    from RqConnect fine served Cons up_serving [OF fine(2) up] show ?thesis
      by (auto intro!: agreesI [where served = served] simp: server_fine_def conns_fine_def served_fine_def awaited_def Let_def)
  next
    case (RqRequest i req P)
    show ?thesis
    proof (cases "rq_waiting s")
      case False
      from served RqRequest Cons conns have "i < length (rq_clients s)" by (force simp: served_fine_def split: if_splits)
      with False RqRequest fine served Cons show ?thesis
        by (auto intro!: agreesI [where served = served] simp: awaited_def)
    next
      case True
      show ?thesis
      proof (cases "client_gets i s")
        case Pending
        with True RqRequest Cons assms(1) show ?thesis by simp
      next
        case (Ready r)
        have script: "rq_script s = RqRequest i req P # ops" using RqRequest Cons by simp
        note gets = awaited_gets [OF assms(1) True script Ready]
        from served script gets(1) have P: "P r" by (auto split: if_splits)
        from gets(2) [OF served(1)] True Ready script P fine served(2) show ?thesis
          by (auto intro!: agreesI [where served = "insert i served"] simp: awaited_def)
      qed
    qed
  next
    case (RqSleep d)
    with fine(4) Cons have "\<not> rq_waiting s" by (auto simp: awaited_def)
    with RqSleep fine served Cons show ?thesis
      by (auto intro!: agreesI [where served = served] simp: awaited_def split: option.split)
  next
    case RqShutdown
    with served Cons have up: "\<not> is_notified (hi_shutdown (sy_handle ?y))" by simp
    obtain t where t: "req_sys_step w (TaSys ActShutdown) s = Some t"
      "sy_conns (rq_state t) = sy_conns ?y" "ts_accepts (rq_sys t) = ts_accepts (rq_sys s)"
      "is_notified (hi_shutdown (sy_handle (rq_state t)))" "rq_now t = rq_now s" "rq_since t = rq_since s"
      "rq_failed t = rq_failed s" "rq_waiting t = rq_waiting s" "rq_clients t = rq_clients s" "server_fine t"
      using fine(2) by (auto simp: req_sys_step_def handle_simps server_fine_def Let_def serve_steady_shutdown)
    have "served_fine t served" using served(1) by (auto simp: served_fine_def t)
    moreover from RqShutdown Cons fine(4) have "\<not> rq_waiting s" by (auto simp: awaited_def)
    ultimately show ?thesis
      using RqShutdown Cons t fine served conns_fine_shutdown [OF fine(3) assms(2) t(2-6)]
      by (auto intro!: agreesI [where served = served] simp: awaited_def)
  next
    case (RqServer P)
    show ?thesis
    proof (cases "sy_serve ?y")
      case (SvReturned r)
      with fine(2) have "r = Inr ()" by (simp add: server_fine_def Let_def)
      with SvReturned RqServer fine served Cons show ?thesis
        by (auto intro!: agreesI [where served = served] simp: awaited_def)
    qed (use RqServer Cons assms(1) in simp_all)
  next
    case (RqClosed i)
    with fine served Cons assms(1) show ?thesis
      by (auto intro!: agreesI [where served = served] simp: awaited_def)
  qed
qed

text \<open>The test never waits in vain: when nothing can move, it is over or it sleeps.\<close>

lemma idle_task:
  assumes "agrees s" and "req_idle w s" and "i < length (sy_conns (rq_state s))" and ok: "ok"
  shows "conn_closed i (rq_state s) \<or>
    \<not> is_notified (hi_shutdown (sy_handle (rq_state s))) \<and> \<not> is_sent (rq_clients s ! i)"
proof -
  let ?c = "sy_conns (rq_state s) ! i" and ?a = "ts_accepts (rq_sys s) ! i"
  from assms(1,3) have fine: "conn_fine (\<not> is_notified (hi_shutdown (sy_handle (rq_state s)))) (rq_now s) i ?c ?a (rq_since s ! i)"
    and store: "ts_store (rq_sys s) = rw_store w"
    by (simp_all add: agrees_def conns_fine_def server_fine_def Let_def)
  from assms(2,3) have waits: "conn_waits w s i" by (simp add: req_idle_def list_all_iff)
  show ?thesis
  proof (cases "conn_phase ?c")
    case PhAccept
    obtain r b where poll: "accept_poll (rw_server w) (rw_store w) (rw_fenv w True) ?a = (r, b)" by fastforce
    from fine PhAccept waits have "fresh (ac_future ?a)" by (auto simp: conn_fine_def conn_waits_def Let_def)
    from polls [OF ok poll this] waits PhAccept poll store show ?thesis by (auto simp: conn_waits_def Let_def)
  next
    case PhDrop
    with fine assms(3) show ?thesis by (simp add: conn_fine_def conn_closed_def)
  qed (use fine waits in \<open>auto simp: conn_fine_def conn_waits_def Let_def\<close>)
qed

definition sleeps where
  "sleeps s \<longleftrightarrow> sleeping s \<and> (\<exists>d ops. rq_script s = RqSleep d # ops)"

lemma idle_done:
  assumes "agrees s" and "req_idle w s" and ok: "ok" and "rq_script s \<noteq> []"
  shows "sleeps s" and "length (sy_conns (rq_state s)) \<le> length (rq_clients s)"
proof -
  let ?y = "rq_state s"
  from assms(1) have fine: "\<not> rq_failed s" "server_fine s" "awaited s" by (simp_all add: agrees_def)
  from assms(1) obtain served where served: "served_fine s served" "reference s served" by (auto simp: agrees_def)
  have blocked: "serve_blocked (sy_handle ?y) (rq_backlog s) (sy_serve ?y)" using assms(2) by (simp add: req_idle_def)
  have listening: "is_notified (hi_addr_notify (sy_handle ?y))"
    using blocked fine(2)
    by (cases "(sy_handle ?y, rq_backlog s, sy_serve ?y)" rule: serve_blocked.cases) (auto simp: server_fine_def Let_def)
  have all: "length (sy_conns ?y) = length (rq_clients s)" if "\<not> is_notified (hi_shutdown (sy_handle ?y))"
    using blocked fine(2) that
    by (cases "(sy_handle ?y, rq_backlog s, sy_serve ?y)" rule: serve_blocked.cases) (auto simp: server_fine_def Let_def)
  have returned: "serve_over (sy_serve ?y)" if "is_notified (hi_shutdown (sy_handle ?y))"
    using blocked that by (cases "(sy_handle ?y, rq_backlog s, sy_serve ?y)" rule: serve_blocked.cases) auto
  have waits: "req_test_waits s" using assms(2) by (simp add: req_idle_def)
  note conn = idle_task [OF assms(1,2) _ ok]
  show "length (sy_conns (rq_state s)) \<le> length (rq_clients s)" using fine(2) by (simp add: server_fine_def Let_def)
  from assms(4) obtain x ops where Cons: "rq_script s = x # ops" by (cases "rq_script s") auto
  show "sleeps s"
  proof (cases x)
    case (RqRequest i req P)
    with waits Cons fine(1) have w: "rq_waiting s" "client_gets i s = Pending" by (simp_all add: req_test_waits_def)
    with fine(3) Cons RqRequest have i: "i < length (rq_clients s)" "is_sent (rq_clients s ! i)"
      by (auto simp: awaited_def client_gets_def)
    have "i < length (sy_conns ?y)"
      using served Cons RqRequest i(1) all
      by (cases "is_notified (hi_shutdown (sy_handle ?y))") (auto simp: served_fine_def)
    from conn [OF this] i(2) w(2) show ?thesis by (cases "rq_clients s ! i") (auto simp: client_gets_def)
  next
    case (RqSleep d)
    with waits Cons fine(1) show ?thesis by (simp add: req_test_waits_def sleeps_def)
  next
    case (RqClosed i)
    with served Cons have "i < length (sy_conns ?y)" "is_notified (hi_shutdown (sy_handle ?y))" by (auto simp: served_fine_def)
    with conn [OF this(1)] waits Cons fine(1) RqClosed show ?thesis by (auto simp: req_test_waits_def)
  qed (use waits Cons fine(1) listening returned served in \<open>auto simp: req_test_waits_def\<close>)
qed

text \<open>While the test sleeps, every connection has been served or dropped, and no first-request timeout runs.\<close>

lemma agrees_tick:
  assumes "agrees s" and "req_step w RqTick s = Some t" and ok: "ok"
  shows "agrees t"
proof -
  let ?up = "\<not> is_notified (hi_shutdown (sy_handle (rq_state s)))"
  from assms(2) have idle: "req_idle w s" "rq_script s \<noteq> []" and t: "t = s\<lparr>rq_now := min_list (req_deadlines w s)\<rparr>"
    by (auto split: if_splits)
  from assms(1) obtain served where served: "served_fine s served" "reference s served" by (auto simp: agrees_def)
  from idle_done [OF assms(1) idle(1) ok idle(2)] served(2)
  have all: "?up" "\<And>i. i < length (sy_conns (rq_state s)) \<Longrightarrow> i \<in> served" by (auto simp: sleeps_def)
  have "conns_fine t"
    unfolding conns_fine_def
  proof (intro allI impI)
    fix i assume "i < length (sy_conns (rq_state t))"
    then have i: "i < length (sy_conns (rq_state s))" by (simp add: t)
    with assms(1) have fine: "conn_fine ?up (rq_now s) i (sy_conns (rq_state s) ! i) (ts_accepts (rq_sys s) ! i) (rq_since s ! i)"
      by (simp add: agrees_def conns_fine_def)
    from idle(1) i have "conn_waits w s i" by (simp add: req_idle_def list_all_iff)
    moreover from served(1) all(2) [OF i] all(1)
    have "first_done (rq_first s ! i) \<or> conn_phase (sy_conns (rq_state s) ! i) = PhDrop"
      by (auto simp: served_fine_def split: if_splits)
    ultimately have "conn_phase (sy_conns (rq_state s) ! i) \<noteq> PhFirst"
      using fine by (auto simp: conn_waits_def first_done_def conn_fine_def Let_def)
    with fine show "conn_fine (\<not> is_notified (hi_shutdown (sy_handle (rq_state t)))) (rq_now t) i (sy_conns (rq_state t) ! i)
        (ts_accepts (rq_sys t) ! i) (rq_since t ! i)"
      by (auto simp: t conn_fine_def split: phase.splits)
  qed
  with assms(1) served show ?thesis
    by (intro agreesI [where served = served]) (auto simp: agrees_def t awaited_def)
qed

lemma agrees_step:
  assumes "agrees s" and "req_step w b s = Some t" and ok: "ok"
  shows "agrees t"
proof (cases b)
  case RqServe
  with assms show ?thesis by (auto intro: agrees_serve simp del: req_step.simps)
next
  case (RqConn i answered arrived)
  with assms show ?thesis by (auto intro: agrees_conn simp del: req_step.simps)
next
  case RqTest
  with assms(1,2) agrees_test [OF assms(1)] show ?thesis by (auto simp del: req_test_step.simps split: if_splits)
next
  case RqTick
  with assms show ?thesis by (auto intro: agrees_tick simp del: req_step.simps)
qed

lemma agrees_start:
  assumes "requests_run client_speaks answer (rw_current w) (rw_addr w) ops 0 {} True"
  shows "agrees (req_start w ops)"
  using assms
  by (auto intro!: agreesI [where served = "{}"]
      simp: req_start_def tls_start_def sys_start_def handle_simps server_fine_def conns_fine_def served_fine_def
        awaited_def Let_def)

lemma reachable_agrees:
  assumes "req_reachable w ops s" and "requests_run client_speaks answer (rw_current w) (rw_addr w) ops 0 {} True" and ok: "ok"
  shows "agrees s"
  using assms(1,2)
  by (induction rule: reach.induct) (auto simp: req_moves_iff agrees_start intro: agrees_step [OF _ _ ok])

text \<open>
  A test passes: no assertion of it fails, and when nothing else can move it is over or the clock moves.
  A test that does not sleep is over.
\<close>

lemma test_passes_in_time:
  assumes "req_reachable w ops s" and "requests_run client_speaks answer (rw_current w) (rw_addr w) ops 0 {} True" and ok: "ok"
  shows "\<not> rq_failed s \<and> (req_idle w s \<longrightarrow> rq_script s = [] \<or> (\<exists>t. req_step w RqTick s = Some t))"
proof -
  note agrees = reachable_agrees [OF assms]
  have "\<exists>t. req_step w RqTick s = Some t" if "req_idle w s" "rq_script s \<noteq> []"
  proof -
    from idle_done(1) [OF agrees that(1) ok that(2)] obtain n where "rq_timer s = Some n" "rq_now s < n"
      by (auto simp: sleeps_def sleeping_def split: option.splits)
    then have "req_deadlines w s \<noteq> []" by (simp add: req_deadlines_def List.map_filter_simps)
    with that show ?thesis by simp
  qed
  with agrees show ?thesis unfolding agrees_def by blast
qed

lemma test_passes:
  assumes "req_reachable w ops s" and "requests_run client_speaks answer (rw_current w) (rw_addr w) ops 0 {} True" and ok: "ok"
    and "list_all (\<lambda>x. \<not> is_sleep x) ops"
  shows "\<not> rq_failed s \<and> (req_idle w s \<longrightarrow> rq_script s = [])"
proof -
  note agrees = reachable_agrees [OF assms(1-3)]
  have "\<not> sleeps s"
    using req_script_suffix [OF assms(1)] assms(4)
    by (fastforce simp: sleeps_def list_all_iff)
  with idle_done(1) [OF agrees _ ok] agrees show ?thesis by (auto simp: agrees_def)
qed

end

section \<open>The harness runs the system\<close>

lemma req_test_step_sys:
  "rq_sys (req_test_step w s) = rq_sys s \<or>
   (\<exists>b. tls_sys_step (rw_api w) (rw_cfg w) (rw_server w) b (rq_sys s) = Some (rq_sys (req_test_step w s)))"
proof (cases "\<exists>ops. rq_script s = RqShutdown # ops")
  case True
  then obtain ops where ops: "rq_script s = RqShutdown # ops" by blast
  show ?thesis
  proof (cases "req_sys_step w (TaSys ActShutdown) s")
    case (Some t)
    from req_sys_step_sys(1) [OF this] ops Some
    have "tls_sys_step (rw_api w) (rw_cfg w) (rw_server w) (TaSys ActShutdown) (rq_sys s) = Some (rq_sys (req_test_step w s))"
      by (simp del: tls_sys_step.simps)
    then show ?thesis by blast
  qed (simp add: ops)
next
  case False
  then show ?thesis by (auto split: list.split req_op.split option.split poll.split serve_pc.split)
qed

lemma req_step_sys:
  assumes "req_step w b s = Some t"
  shows "rq_sys t = rq_sys s \<or> (\<exists>x. tls_sys_step (rw_api w) (rw_cfg w) (rw_server w) x (rq_sys s) = Some (rq_sys t))"
proof (cases b)
  case RqTest
  with assms req_test_step_sys [of w s] show ?thesis
    by (auto simp del: req_test_step.simps tls_sys_step.simps split: if_splits)
qed (use assms in \<open>auto simp: Let_def simp del: tls_sys_step.simps dest!: req_sys_step_sys(1) split: if_splits\<close>)

interpretation request_system: simulation "\<lambda>t. t = tls_start (rw_api w) (rw_store w)"
    "tls_moves (rw_api w) (rw_cfg w) (rw_server w)" "\<lambda>s. s = req_start w ops" "req_moves w" rq_sys
  for w :: "('a, 'n, 'f, 'fe, 'out, 'h, 'op, 'req, 'resp) request_world" and ops
proof
  show "rq_sys s = tls_start (rw_api w) (rw_store w)" if "s = req_start w ops"
    for s :: "('a, 'n, 'f, 'fe, 'out, 'h, 'req, 'resp) req_test"
    using that by (simp add: req_start_def)
  show "tls_moves (rw_api w) (rw_cfg w) (rw_server w) (rq_sys s) (rq_sys t) \<or> rq_sys t = rq_sys s"
    if "req_moves w s t" for s t :: "('a, 'n, 'f, 'fe, 'out, 'h, 'req, 'resp) req_test"
  proof -
    from that obtain b where "req_step w b s = Some t" by (auto simp: req_moves_iff)
    from req_step_sys [OF this] show ?thesis by (auto simp: tls_moves_iff simp del: tls_sys_step.simps)
  qed
qed

section \<open>Requests after shutdown\<close>

text \<open>How many answers the \<open>i\<close>-th client gets in a run.\<close>

fun is_answered :: "('req, 'resp) exchange \<Rightarrow> bool" where
  "is_answered (Answered r) = True"
| "is_answered _ = False"

lemma sent_unanswered: "is_sent e \<Longrightarrow> \<not> is_answered e"
  by (cases e) simp_all

definition gets_answer where
  "gets_answer i s t \<longleftrightarrow> i < length (rq_clients s) \<and> is_sent (rq_clients s ! i) \<and> is_answered (rq_clients t ! i)"

fun req_answers ::
  "('a, 'n, 'f, 'fe, 'out, 'h, 'op, 'req, 'resp) request_world \<Rightarrow> nat \<Rightarrow> req_action list \<Rightarrow>
   ('a, 'n, 'f, 'fe, 'out, 'h, 'req, 'resp) req_test \<Rightarrow> nat"
where
  "req_answers w i [] s = 0"
| "req_answers w i (b # bs) s =
     (case req_step w b s of
        None \<Rightarrow> 0
      | Some t \<Rightarrow> (if gets_answer i s t then 1 else 0) + req_answers w i bs t)"

text \<open>An answer is possible without another look at the latch.\<close>

definition past_latch where
  "past_latch i s \<longleftrightarrow> i < length (sy_conns (rq_state s)) \<and> pc_nears_hyper (cn_pc (sy_conns (rq_state s) ! i))"

text \<open>Once shutdown is notified, a task comes to Hyper only in the poll that is under way.\<close>

lemma conn_step_nears:
  assumes "is_notified (hi_shutdown h)" and "c' = snd (conn_step api cfg env h c)"
  shows "pc_nears_hyper (cn_pc c') \<Longrightarrow> pc_nears_hyper (cn_pc c)"
    and "pc_polls_hyper (cn_pc c) \<Longrightarrow> \<not> pc_nears_hyper (cn_pc c')"
  using assms
  by (cases "cn_pc c"; auto simp: conn_step_def conn_simps split: poll.splits sum.splits if_splits option.splits prod.splits)+

lemma sys_step_nears:
  assumes "is_notified (hi_shutdown (sy_handle y))" and "sys_step api cfg b y = Some y'"
    and "i < length (sy_conns y')" and "pc_nears_hyper (cn_pc (sy_conns y' ! i))"
  shows "i < length (sy_conns y) \<and> pc_nears_hyper (cn_pc (sy_conns y ! i)) \<and>
    (\<forall>env. b = ActConn i env \<longrightarrow> \<not> pc_polls_hyper (cn_pc (sy_conns y ! i)))"
proof (cases b)
  case (ActServe env)
  let ?new = "so_spawn (serve_step api cfg env (sy_handle y) (sy_serve y))"
  have y': "sy_conns y' = sy_conns y @ ?new" using assms(2) ActServe by (auto simp: Let_def)
  have "i < length (sy_conns y)"
  proof (rule ccontr)
    assume i: "\<not> i < length (sy_conns y)"
    with assms(3) y' have "?new ! (i - length (sy_conns y)) \<in> set ?new" by (intro nth_mem) simp
    from spawned_new [OF this] i assms(4) show False by (auto simp: y' nth_append conn_spawn_def)
  qed
  with assms(4) y' ActServe show ?thesis by (simp add: nth_append)
next
  case (ActConn j env)
  with assms show ?thesis
    using conn_step_nears [OF assms(1) refl, where api = api and cfg = cfg and env = env and c = "sy_conns y ! j"]
    by (cases "j = i") (auto simp: Let_def case_prod_beta split: if_splits)
next
  case (ActAbort j)
  have "\<not> pc_nears_hyper (cn_pc (conn_abort (sy_conns y ! j)))"
    by (cases "cn_pc (sy_conns y ! j)") (simp_all add: conn_abort_def conn_return_def)
  with ActAbort assms(2-4) show ?thesis by (cases "j = i") (auto split: if_splits)
qed (use assms in \<open>auto split: nat.splits\<close>)

text \<open>One step: an answer uses up the poll of Hyper that was under way when shutdown came.\<close>

lemma answer_step:
  assumes "req_step w b s = Some t" and "gets_answer i s t"
  shows "\<exists>answered. b = RqConn i answered True \<and> i < length (sy_conns (rq_state s)) \<and>
    pc_polls_hyper (cn_pc (sy_conns (rq_state s) ! i))"
proof (cases b)
  case (RqConn j answered arrived)
  from assms RqConn obtain u where u: "tls_sys_step (rw_api w) (rw_cfg w) (rw_server w)
      (TaConn j (rw_fenv w answered) (request_env w j arrived s)) (rq_sys s) = Some u"
    and clients: "rq_clients t = (if arrived then hyper_answers w j s u else rq_clients s)"
    by (auto simp: req_sys_step_def simp del: tls_sys_step.simps)
  from u have "j < length (sy_conns (rq_state s))" by (auto simp: Let_def split: if_splits)
  moreover have "j = i \<or> rq_clients t ! i = rq_clients s ! i"
    by (cases "j = i") (auto simp: clients hyper_answers_def split: exchange.split option.split)
  moreover have "\<not> is_answered (rq_clients s ! i)" using assms(2) by (auto simp: gets_answer_def dest: sent_unanswered)
  ultimately show ?thesis
    using assms(2) clients RqConn
    by (auto simp: gets_answer_def hyper_answers_def hyper_calls_def split: if_splits exchange.splits option.splits)
next
  case RqTest
  have update: "(rq_clients s)[k := e] ! i = (if k = i then e else rq_clients s ! i)" if "i < length (rq_clients s)" for k e
    using that by (cases "k = i") simp_all
  have "is_sent (rq_clients (req_test_step w s) ! i) \<or> rq_clients (req_test_step w s) ! i = rq_clients s ! i"
    if "i < length (rq_clients s)"
    using that
    by (auto simp: req_sys_step_def nth_append update simp del: tls_sys_step.simps
        split: list.splits req_op.splits option.splits poll.splits serve_pc.splits if_splits)
  with assms RqTest show ?thesis
    by (auto simp: gets_answer_def simp del: req_test_step.simps split: if_splits dest: sent_unanswered)
next
  case RqServe
  with assms show ?thesis
    by (auto simp: gets_answer_def req_sys_step_def Let_def simp del: tls_sys_step.simps dest: sent_unanswered)
next
  case RqTick
  with assms show ?thesis by (auto simp: gets_answer_def dest: sent_unanswered split: if_splits)
qed

lemma shutdown_answer_step:
  assumes "req_step w b s = Some t" and "is_notified (hi_shutdown (sy_handle (rq_state s)))"
  shows "is_notified (hi_shutdown (sy_handle (rq_state t)))"
    and "past_latch i t \<Longrightarrow> past_latch i s \<and> \<not> gets_answer i s t"
    and "gets_answer i s t \<Longrightarrow> past_latch i s"
proof -
  show "gets_answer i s t \<Longrightarrow> past_latch i s"
    using answer_step [OF assms(1)] by (force simp: past_latch_def elim: pc_polls_hyper.elims)
  have kept: "is_notified (hi_shutdown (sy_handle (rq_state t))) \<and> (past_latch i t \<longrightarrow> past_latch i s)"
    if "rq_state t = rq_state s \<or> (\<exists>y. sys_step (rw_api w) (rw_cfg w) y (rq_state s) = Some (rq_state t))"
    using that assms(2) sys_step_nears [OF assms(2)] sys_step_grow
    by (fastforce simp: past_latch_def latches_grow_def)
  have step: "rq_state t = rq_state s \<or> (\<exists>y. sys_step (rw_api w) (rw_cfg w) y (rq_state s) = Some (rq_state t))"
    using req_step_sys [OF assms(1)] by (auto dest!: tls_step_label split: option.splits)
  from kept [OF this] show "is_notified (hi_shutdown (sy_handle (rq_state t)))" ..
  show "past_latch i s \<and> \<not> gets_answer i s t" if past: "past_latch i t"
  proof -
    have "\<not> gets_answer i s t"
    proof
      assume "gets_answer i s t"
      from answer_step [OF assms(1) this] obtain answered where b: "b = RqConn i answered True"
        and hyper: "pc_polls_hyper (cn_pc (sy_conns (rq_state s) ! i))" by blast
      from assms(1) b have "tls_sys_step (rw_api w) (rw_cfg w) (rw_server w)
          (TaConn i (rw_fenv w answered) (request_env w i True s)) (rq_sys s) = Some (rq_sys t)"
        by (auto simp: Let_def simp del: tls_sys_step.simps dest!: req_sys_step_sys(1))
      from tls_step_label [OF this] hyper
      have "sys_step (rw_api w) (rw_cfg w) (ActConn i (request_env w i True s)) (rq_state s) = Some (rq_state t)"
        by (auto split: if_splits)
      from sys_step_nears [OF assms(2) this] past hyper show False by (simp add: past_latch_def)
    qed
    with kept [OF step] past show ?thesis by blast
  qed
qed

lemma answers_after_shutdown:
  assumes "is_notified (hi_shutdown (sy_handle (rq_state s)))"
  shows "req_answers w i bs s \<le> (if past_latch i s then 1 else 0)"
  using assms
proof (induction bs arbitrary: s)
  case (Cons b bs)
  show ?case
  proof (cases "req_step w b s")
    case (Some t)
    note step = shutdown_answer_step [OF Some Cons.prems]
    from Cons.IH [OF step(1)] step(2) [where i = i] step(3) [where i = i] Some show ?thesis by (auto split: if_splits)
  qed simp
qed simp

text \<open>A task that polls Hyper when a request has come answers it, whatever the latches are.\<close>

lemma hyper_poll_answers:
  assumes "req_reachable w ops s" and "i < length (sy_conns (rq_state s))" and "i < length (rq_clients s)"
    and "pc_polls_hyper (cn_pc (sy_conns (rq_state s) ! i))" and "is_sent (rq_clients s ! i)" and "hyper_speaks w i s"
  shows "req_answers w i [RqConn i answered True] s = 1"
proof -
  let ?c = "sy_conns (rq_state s) ! i" and ?a = "ts_accepts (rq_sys s) ! i" and ?env = "request_env w i True s"
  have reach: "tls_reachable (rw_api w) (rw_cfg w) (rw_server w) (rw_store w) (rq_sys s)"
    using request_system.reach_abs [OF assms(1)] .
  from tls_accept_inv [OF this assms(2)] have inv: "accept_inv (rw_cfg w) (rw_server w) ?c ?a" "conn_wf (rw_cfg w) ?c" by simp_all
  from assms(4) have phase: "conn_phase ?c \<in> {PhFirst, PhMain, PhDrain}" and pc: "cn_pc ?c \<noteq> AccAccept"
    by (cases "cn_pc ?c"; simp add: conn_phase_def)+
  from inv(2) phase have "cn_serve ?c \<noteq> None" "cn_stream_open ?c" by (auto simp: conn_wf_def)
  moreover have "cn_serve ?c \<noteq> None \<longleftrightarrow> ac_accepted ?a \<noteq> None" using inv(1) unfolding accept_inv_def Let_def by blast
  ultimately obtain out where out: "ac_accepted ?a = Some out" and "cn_stream_open ?c" by blast
  have env: "\<not> ce_serve ?env" using assms(6) by (simp add: request_env_def hyper_fails_def)
  obtain h c a where step: "tls_conn_step (rw_api w) (rw_cfg w) (rw_server w) (ts_store (rq_sys s)) (rw_fenv w answered)
      ?env (sy_handle (rq_state s)) ?c ?a = (h, c, a)" by (metis prod_cases3)
  have "cn_stream_open c"
    using step env assms(4) pc \<open>cn_stream_open ?c\<close>
    by (cases "cn_pc ?c") (auto simp: tls_conn_step_other conn_step_def conn_simps)
  with out assms(2-6) step show ?thesis
    by (cases "rq_clients s ! i")
      (auto simp: req_sys_step_def gets_answer_def hyper_answers_def hyper_calls_def Let_def)
qed

end
