(* ===== verification/RequestServers.thy ===== *)
theory RequestServers
  imports RequestHarness CertificateTests ServerTests
begin

text \<open>
  The servers of the tests that send requests: what \<open>axum\<close> and \<open>http\<close> provide to the
  applications of the tests (a parameter, with its documented behaviour), the applications, the
  operations of the clients (\<open>do_empty_request_h1\<close>, \<open>do_slow_request\<close> and the like), and the
  interpretations of the contract \<open>answering_server\<close> for plain, rustls and OpenSSL acceptors.
\<close>

declare tls_sys_step.simps [simp del] req_test_step.simps [simp del]

section \<open>Applications\<close>

text \<open>
  A body that is sent in frames of one byte each, with the time until it comes;
  \<open>Request::new(body)\<close>, \<open>method_mut\<close> and \<open>uri_mut\<close>; the router of some routes, each a path, a
  method and a handler; the responses of a string and of a streamed body, the rejection of a
  missing extension; \<open>collect\<close> on the side of the client.
\<close>

type_synonym frames = "(duration \<times> 8 word) list"

record ('req, 'resp) axum_api =
  ax_request :: "frames \<Rightarrow> 'req"
  ax_set_method :: "string \<Rightarrow> 'req \<Rightarrow> 'req"
  ax_set_uri :: "string \<Rightarrow> 'req \<Rightarrow> 'req"
  ax_uri :: "'req \<Rightarrow> string"
  ax_method :: "'req \<Rightarrow> string"
  ax_body :: "'req \<Rightarrow> bytes"
  ax_router :: "(string \<times> string \<times> ('req \<Rightarrow> 'resp)) list \<Rightarrow> 'req \<Rightarrow> 'resp"
  ax_text :: "string \<Rightarrow> 'resp"
  ax_stream :: "frames \<Rightarrow> 'resp"
  ax_missing_extension :: 'resp
  ax_collect :: "'resp \<Rightarrow> bytes"

text \<open>A router is a service that is always ready.\<close>

definition app_ops :: "('req \<Rightarrow> 'resp) \<Rightarrow> ('s, 'req, unit, 'resp) service_ops" where
  "app_ops app = \<lparr>svc_poll_ready = (\<lambda>s. (Ready (Inr ()), s)), svc_call = (\<lambda>req s. (app req, s))\<rparr>"

definition slow_body :: "nat \<Rightarrow> duration \<Rightarrow> frames" where
  "slow_body n d = map (\<lambda>frame. (d div n, frame)) (replicate n (of_char (CHR ''X'')))"

definition hello_app where
  "hello_app ax = ax_router ax [(''/'', ''GET'', (\<lambda>req. ax_text ax ''Hello, world!''))]"

definition echo_app where
  "echo_app ax = ax_router ax
     [(''/'', ''GET'', (\<lambda>req. ax_text ax ''Hello, world!'')),
      (''/echo_slowly'', ''POST'', (\<lambda>req. ax_stream ax (slow_body (length (ax_body ax req)) (from_millis 100))))]"

text \<open>\<open>show_addr\<close>: \<open>SocketAddr::to_string\<close>.\<close>

definition local_addr_app where
  "local_addr_app ax ext show_addr = ax_router ax
     [(''/'', ''GET'', (\<lambda>req. case ex_local_addr ext req of
         None \<Rightarrow> ax_missing_extension ax
       | Some (LocalAddr local) \<Rightarrow> ax_text ax (show_addr local)))]"

definition unwrap_or_empty :: "string option \<Rightarrow> string" where
  "unwrap_or_empty name = (case name of Some s \<Rightarrow> s | None \<Rightarrow> '''')"

definition show_bool :: "bool \<Rightarrow> string" where
  "show_bool b = (if b then ''true'' else ''false'')"

fun show_nat :: "nat \<Rightarrow> string" where
  "show_nat n = (if n < 10 then [''0123456789'' ! n] else show_nat (n div 10) @ [''0123456789'' ! (n mod 10)])"

declare show_nat.simps [simp del]

definition tls_info_page :: "tls_info \<Rightarrow> string" where
  "tls_info_page info = unwrap_or_empty (ti_server_name info) @ ''|'' @ show_bool (ti_alpn_protocol info \<noteq> None) @ ''|'' @
     show_nat (length (ti_peer_certificates info))"

definition tls_info_app where
  "tls_info_app ax ext = ax_router ax
     [(''/'', ''GET'', (\<lambda>req. case ex_tls_info ext req of
         None \<Rightarrow> ax_missing_extension ax
       | Some info \<Rightarrow> ax_text ax (tls_info_page info)))]"

definition tls_and_local_app where
  "tls_and_local_app ax ext show_addr = ax_router ax
     [(''/'', ''GET'', (\<lambda>req. case (ex_tls_info ext req, ex_local_addr ext req) of
         (Some info, Some (LocalAddr local)) \<Rightarrow> ax_text ax (tls_info_page info @ ''|'' @ show_addr local)
       | _ \<Rightarrow> ax_missing_extension ax))]"

text \<open>What is documented: the first route of the path and the method answers; extensions are not part of either.\<close>

definition same_route where
  "same_route ax req req' \<longleftrightarrow> ax_uri ax req' = ax_uri ax req \<and> ax_method ax req' = ax_method ax req \<and>
     ax_body ax req' = ax_body ax req"

definition axum_documented where
  "axum_documented ax ext \<longleftrightarrow>
     (\<forall>routes req r. find (\<lambda>(p, m, h). p = ax_uri ax req \<and> m = ax_method ax req) routes = Some r \<longrightarrow>
        ax_router ax routes req = snd (snd r) req) \<and>
     (\<forall>b. ax_uri ax (ax_request ax b) = ''/'' \<and> ax_method ax (ax_request ax b) = ''GET'' \<and> ax_body ax (ax_request ax b) = map snd b) \<and>
     (\<forall>m req. ax_uri ax (ax_set_method ax m req) = ax_uri ax req \<and> ax_method ax (ax_set_method ax m req) = m \<and>
        ax_body ax (ax_set_method ax m req) = ax_body ax req) \<and>
     (\<forall>u req. ax_uri ax (ax_set_uri ax u req) = u \<and> ax_method ax (ax_set_uri ax u req) = ax_method ax req \<and>
        ax_body ax (ax_set_uri ax u req) = ax_body ax req) \<and>
     (\<forall>a req. same_route ax req (ex_insert_local_addr ext a req)) \<and>
     (\<forall>i req. same_route ax req (ex_insert_tls_info ext i req)) \<and>
     (\<forall>s. ax_collect ax (ax_text ax s) = byte_string s) \<and> (\<forall>b. ax_collect ax (ax_stream ax b) = map snd b) \<and> ext_documented ext"

section \<open>The clients\<close>

text \<open>\<open>ok\<close>: the test goes on with \<open>unwrap\<close>, otherwise with \<open>unwrap_err\<close>.\<close>

definition empty_request where
  "empty_request ax = ax_request ax []"

definition hello_received :: "bool \<Rightarrow> bytes option \<Rightarrow> bool" where
  "hello_received ok r = (case r of None \<Rightarrow> \<not> ok | Some body \<Rightarrow> ok \<and> body = byte_string ''Hello, world!'')"

definition do_empty_request_h1 where
  "do_empty_request_h1 ax i ok = RqRequest i (empty_request ax) (hello_received ok)"

definition do_empty_request_h2 where
  "do_empty_request_h2 ax i ok = RqRequest i (empty_request ax) (hello_received ok)"

definition slow_request where
  "slow_request ax duration =
     (let req_body_len = 10; req = ax_request ax (slow_body req_body_len duration)
      in ax_set_uri ax ''/echo_slowly'' (ax_set_method ax ''POST'' req))"

definition recv_slow_response_body :: "bytes option \<Rightarrow> bool" where
  "recv_slow_response_body r = (case r of None \<Rightarrow> False | Some body \<Rightarrow> length body = 10)"

definition do_slow_request where
  "do_slow_request ax i duration = RqRequest i (slow_request ax duration) recv_slow_response_body"

definition do_slow_request_h2 where
  "do_slow_request_h2 ax i duration = RqRequest i (slow_request ax duration) recv_slow_response_body"

text \<open>\<open>send_empty_request\<close> of the TLS modules, with the assertion about the body.\<close>

definition send_empty_request where
  "send_empty_request ax i expected = RqRequest i (empty_request ax) (\<lambda>r. r = Some (byte_string expected))"

text \<open>What the applications answer, whatever extensions a layer has added.\<close>

lemma app_answers:
  assumes "axum_documented ax ext" and "ax_uri ax req = ''/''" and "ax_method ax req = ''GET''"
  shows "ax_collect ax (hello_app ax req) = byte_string ''Hello, world!''"
    and "ax_collect ax (echo_app ax req) = byte_string ''Hello, world!''"
    and "ex_local_addr ext req = Some (LocalAddr local) \<Longrightarrow>
      ax_collect ax (local_addr_app ax ext show_addr req) = byte_string (show_addr local)"
    and "ex_tls_info ext req = Some info \<Longrightarrow>
      ax_collect ax (tls_info_app ax ext req) = byte_string (tls_info_page info)"
    and "ex_tls_info ext req = Some info \<Longrightarrow> ex_local_addr ext req = Some (LocalAddr local) \<Longrightarrow>
      ax_collect ax (tls_and_local_app ax ext show_addr req) = byte_string (tls_info_page info @ ''|'' @ show_addr local)"
  using assms
  by (simp_all add: axum_documented_def hello_app_def echo_app_def local_addr_app_def tls_info_app_def tls_and_local_app_def)

text \<open>The requests of the clients, as they come to an application below some layers.\<close>

lemma request_routes:
  assumes "axum_documented ax ext"
  shows "ax_uri ax (empty_request ax) = ''/''" "ax_method ax (empty_request ax) = ''GET''"
    "ax_uri ax (slow_request ax d) = ''/echo_slowly''" "ax_method ax (slow_request ax d) = ''POST''"
    "ax_body ax (slow_request ax d) = map snd (slow_body 10 d)"
    "ax_uri ax (ex_insert_tls_info ext i req) = ax_uri ax req" "ax_method ax (ex_insert_tls_info ext i req) = ax_method ax req"
    "ax_uri ax (ex_insert_local_addr ext a req) = ax_uri ax req" "ax_method ax (ex_insert_local_addr ext a req) = ax_method ax req"
  using assms by (simp_all add: axum_documented_def empty_request_def slow_request_def same_route_def Let_def)

lemma echo_answers:
  assumes "axum_documented ax ext"
  shows "length (ax_collect ax (echo_app ax (slow_request ax d))) = 10"
proof -
  note r = request_routes [OF assms]
  have "find (\<lambda>(p, m, h). p = ax_uri ax (slow_request ax d) \<and> m = ax_method ax (slow_request ax d))
      [(''/'', ''GET'', (\<lambda>req. ax_text ax ''Hello, world!'')),
       (''/echo_slowly'', ''POST'', (\<lambda>req. ax_stream ax (slow_body (length (ax_body ax req)) (from_millis 100))))] =
      Some (''/echo_slowly'', ''POST'', (\<lambda>req. ax_stream ax (slow_body (length (ax_body ax req)) (from_millis 100))))"
    by (simp add: r)
  with assms have "echo_app ax (slow_request ax d) = ax_stream ax (slow_body (length (ax_body ax (slow_request ax d))) (from_millis 100))"
    unfolding axum_documented_def echo_app_def by auto
  with assms show ?thesis by (simp add: r(5) slow_body_def axum_documented_def)
qed

section \<open>The servers\<close>

text \<open>What Hyper does with a request: it calls the service and sends the answer.\<close>

definition hyper_response where
  "hyper_response ax ops req out = ax_collect ax (fst (svc_call ops req (snd out)))"

definition ready_request_world where
  "ready_request_world api cfg accept bound stream service respond speaks current =
     \<lparr>rw_api = api, rw_cfg = cfg, rw_server = ready_server accept, rw_store = (), rw_addr = bound,
      rw_fenv = (\<lambda>_. (stream, service)), rw_respond = respond, rw_speaks = speaks, rw_current = current\<rparr>"

interpretation ready_requests: answering_server "cc_first_request_timeout cfg \<noteq> Some 0 \<and> accept stream service = Inr out"
    "ready_request_world api cfg accept bound stream service respond speaks current" "\<lambda>f. f = Some (accept stream service)"
    "\<lambda>req. respond req out"
  for api :: "'n notify_api" and cfg accept and bound :: 'a and stream service
    and respond :: "'req \<Rightarrow> 'out \<Rightarrow> 'resp" and speaks current out
  by unfold_locales (auto simp: ready_request_world_def ready_server_def accept_poll_def)

text \<open>\<open>inner\<close>: the result of the inner acceptor; \<open>session\<close>: the TLS session with the client.\<close>

definition rustls_handshake_env ::
  "('i \<times> 's) io_result \<Rightarrow> 'h \<Rightarrow> ('cfg \<Rightarrow> 'tls) \<Rightarrow> bool \<Rightarrow> ('cfg, 'i, 's, 'tls, 'h) rustls_env" where
  "rustls_handshake_env inner store session answered = \<lparr>re_inner = Ready inner, re_store = store,
     re_handshake = (\<lambda>cfg _ _. if answered then Ready (Inr (Inr (session cfg))) else Pending)\<rparr>"

definition rustls_request_world where
  "rustls_request_world api ru sw conn cfg acceptor store bound inner session respond speaks current =
     \<lparr>rw_api = api, rw_cfg = cfg, rw_server = rustls_server ru sw conn acceptor, rw_store = store, rw_addr = bound,
      rw_fenv = rustls_handshake_env inner store session, rw_respond = respond, rw_speaks = speaks, rw_current = current\<rparr>"

interpretation rustls_requests: answering_server "cc_first_request_timeout cfg \<noteq> Some 0 \<and> inner = Inr (stream, service)"
    "rustls_request_world api ru sw conn cfg acceptor store bound inner session respond speaks current"
    "\<lambda>f. f = rustls_accept acceptor \<or>
       f = \<lparr>rf_inner = RfAccept (rustls_get_inner sw (ra_config acceptor) store) stream (ra_handshake_timeout acceptor)
              (Some service), rf_config = None\<rparr>"
    "\<lambda>req. let tls = session (rustls_get_inner sw (ra_config acceptor) store)
       in respond req (tls, tls_service_new service (rustls_tls_info conn tls))"
  for api :: "'n notify_api" and ru and sw :: "('cfg, 'h) swap_api" and conn :: "'tls conn_api" and cfg acceptor store
    and bound :: 'a and inner session and respond :: "'req \<Rightarrow> 'tls \<times> 's tls_service \<Rightarrow> 'resp" and speaks current stream service
  by unfold_locales
    (auto simp: rustls_request_world_def rustls_handshake_env_def accept_poll_def rustls_accept_def
      rustls_future_new_def rustls_poll_stages Let_def split: if_splits prod.splits)

definition openssl_request_world where
  "openssl_request_world api os sw ss cfg acceptor store bound stream service respond speaks current =
     \<lparr>rw_api = api, rw_cfg = cfg, rw_server = openssl_server os sw ss acceptor, rw_store = store, rw_addr = bound,
      rw_fenv = openssl_client stream service store (), rw_respond = respond, rw_speaks = speaks, rw_current = current\<rparr>"

interpretation openssl_requests: answering_server
    "cc_first_request_timeout cfg \<noteq> Some 0 \<and> stream_documented ss (\<lambda>_. ()) (\<lambda>_. ())"
    "openssl_request_world api os sw ss cfg acceptor store bound stream service respond speaks current"
    "\<lambda>f. f = openssl_accept acceptor \<or>
       f = \<lparr>of_inner = OfTlsAccepting (Some (ssl_stream_of ss (openssl_get_inner sw (oa_config acceptor) store) stream))
              (oa_handshake_timeout acceptor) (Some service), of_config = None\<rparr>"
    "\<lambda>req. let tls = ssl_stream_of ss (openssl_get_inner sw (oa_config acceptor) store) stream
       in respond req (tls, tls_service_new service (openssl_tls_info ss tls))"
  for api :: "'n notify_api" and os and sw :: "('acc, 'h) swap_api" and ss and cfg acceptor store
    and bound :: 'a and stream service and respond :: "'req \<Rightarrow> 'st \<times> 's tls_service \<Rightarrow> 'resp" and speaks current
  by unfold_locales
    (auto simp: openssl_request_world_def accept_poll_def openssl_client_polls Let_def split: if_splits prod.splits)

end
