(* ===== verification/RequestTests.thy ===== *)
theory RequestTests
  imports RequestServers
begin

text \<open>
  The tests that send requests, in the harness of the theory \<open>RequestHarness\<close>: those of
  \<open>src/src/server.rs\<close>, \<open>src/src/tls_rustls/mod.rs\<close> and \<open>src/src/tls_openssl/mod.rs\<close> whose
  outcome does not depend on how long a body takes. That a test passes means: in every
  interleaving no assertion and no \<open>unwrap\<close> of it fails, and when nothing can move any more the
  test is over or, if it sleeps, the clock goes on.
\<close>

section \<open>The tests of the server\<close>

definition start_server_with_http_version where
  "start_server_with_http_version api bd addr version handle hp =
     (let (server, hp) = server_bind api bd addr hp;
          server = (case version of
            Some Http1 \<Rightarrow> http1_only bd server
          | Some Http2 \<Rightarrow> http2_only bd server
          | None \<Rightarrow> server)
      in server_handle handle server)"

definition start_and_request where
  "start_and_request ax client addr =
     [RqListening addr, RqConnect (client (0 :: nat)), do_empty_request_h1 ax 0 True, do_slow_request ax 0 (from_millis 50)]"

definition test_shutdown where
  "test_shutdown ax client addr =
     [RqListening addr, RqConnect (client (0 :: nat)), do_empty_request_h1 ax 0 True,
      RqShutdown, do_empty_request_h1 ax 0 False, RqClosed 0]"

text \<open>The version of the server, those of the clients in the order they connect, and the test.\<close>

definition test_http1_only where
  "test_http1_only ax client addr = (Some Http1, [Http1, Http2],
     [RqListening addr, RqConnect (client (0 :: nat)), do_empty_request_h1 ax 0 True, do_slow_request ax 0 (from_millis 50),
      RqConnect (client 1), do_empty_request_h2 ax 1 False])"

definition test_http2_only where
  "test_http2_only ax client addr = (Some Http2, [Http2, Http1],
     [RqListening addr, RqConnect (client (0 :: nat)), do_empty_request_h2 ax 0 True, do_slow_request_h2 ax 0 (from_millis 50),
      RqConnect (client 1), do_empty_request_h1 ax 1 False])"

definition local_addr_server where
  "local_addr_server api bd addr handle hp =
     (let (server, hp) = server_bind api bd addr hp
      in server_handle handle (server_acceptor server ()))"

definition local_addr_acceptor_adds_extension where
  "local_addr_acceptor_adds_extension ax show_addr client addr =
     [RqListening addr, RqConnect (client (0 :: nat)), send_empty_request ax 0 (show_addr addr),
      RqShutdown, RqServer is_ok]"

text \<open>The server, its application and the test; the server is that of the test of the silent client.\<close>

definition first_request_timeout_keeps_established_connection where
  "first_request_timeout_keeps_established_connection api bd ax addr handle hp client bound =
     (first_request_timeout_server api bd addr handle hp, hello_app ax,
      [RqListening bound, RqConnect (client (0 :: nat)), do_empty_request_h1 ax 0 True,
       RqSleep (from_millis 300), do_empty_request_h1 ax 0 True, RqShutdown, RqServer is_ok])"

text \<open>
  What Hyper documents of the versions of HTTP on a connection. \<open>serve_connection\<close> of a builder on
  which no version was set accepts both; \<open>http1_only\<close> and \<open>http2_only\<close>, each of which asserts that no
  version was set before, restrict it to one. \<open>serve_connection_with_upgrades\<close> accepts both, whatever
  was set. \<open>free b\<close>: no version was set on \<open>b\<close>.
\<close>

definition builder_speaks ::
  "'b builder_api \<Rightarrow> ('b \<Rightarrow> serve_kind \<Rightarrow> http_version \<Rightarrow> bool) \<Rightarrow> bool" where
  "builder_speaks bd speaks \<longleftrightarrow>
     (\<exists>free. free (bd_new bd) \<and> (\<forall>b. free b \<longrightarrow> free (bd_http1_timer bd b)) \<and>
        (\<forall>d b. free b \<longrightarrow> free (bd_header_read_timeout bd d b)) \<and> (\<forall>b. free b \<longrightarrow> free (bd_http2_timer bd b)) \<and>
        (\<forall>b v. free b \<longrightarrow> speaks b ServePlain v) \<and>
        (\<forall>b v. free b \<longrightarrow> (speaks (bd_http1_only bd b) ServePlain v \<longleftrightarrow> v = Http1)) \<and>
        (\<forall>b v. free b \<longrightarrow> (speaks (bd_http2_only bd b) ServePlain v \<longleftrightarrow> v = Http2))) \<and>
     (\<forall>b v. speaks b ServeUpgrades v)"

definition speaks_to where
  "speaks_to speaks server clients kind i = speaks (sv_builder server) kind (clients ! i :: http_version)"

definition plain_response where
  "plain_response ax app = hyper_response ax (app_ops app)"

lemma http_server_parts:
  assumes "server = start_server_with_http_version api bd addr version handle hp" and "builder_speaks bd speaks"
  shows "cc_first_request_timeout (server_config server) = None"
    and "speaks (sv_builder server) (serve_as (server_config server)) v \<longleftrightarrow> version = None \<or> version = Some v"
  using assms
  by (auto simp: start_server_with_http_version_def server_bind_def http1_only_def http2_only_def server_config_def
      server_handle_def default_builder_def builder_speaks_def handle_alloc_def serve_as_def Let_def
      split: option.splits http_version.splits)

lemmas client_ops =
  do_empty_request_h1_def do_empty_request_h2_def hello_received_def do_slow_request_def do_slow_request_h2_def
  recv_slow_response_body_def send_empty_request_def

lemma request_answers:
  assumes "axum_documented ax ext"
  shows "plain_response ax (echo_app ax) (empty_request ax) out = byte_string ''Hello, world!''"
    and "length (plain_response ax (echo_app ax) (slow_request ax d) out) = 10"
  by (simp_all add: plain_response_def hyper_response_def app_ops_def app_answers(2) [OF assms request_routes(1,2) [OF assms]]
      echo_answers [OF assms])

theorem start_and_request_passes:
  assumes "axum_documented ax ext" and "builder_speaks bd speaks"
    and "server = start_server_with_http_version api bd addr None handle hp"
    and "w = ready_request_world api (server_config server) default_accept bound stream service
      (plain_response ax (echo_app ax)) (speaks_to speaks server [Http1]) current"
    and "req_reachable w (start_and_request ax client bound) s"
  shows "\<not> rq_failed s \<and> (req_idle w s \<longrightarrow> rq_script s = [])"
  using assms(5) unfolding assms(4)
  by (rule ready_requests.test_passes)
    (simp_all add: start_and_request_def client_ops ready_request_world_def default_accept_def speaks_to_def
      http_server_parts [OF assms(3,2)] request_answers [OF assms(1)])

text \<open>
  C17. The test \<open>test_shutdown\<close> passes in every interleaving on the runtime it runs on, which has
  one thread: the request before shutdown is answered, the one after it fails, and the
  connection ends.
\<close>

theorem shutdown_test_passes:
  assumes "axum_documented ax ext" and "builder_speaks bd speaks"
    and "server = start_server_with_http_version api bd addr None handle hp"
    and "w = ready_request_world api (server_config server) default_accept bound stream service
      (plain_response ax (echo_app ax)) (speaks_to speaks server [Http1]) True"
    and "req_reachable w (test_shutdown ax client bound) s"
  shows "\<not> rq_failed s \<and> (req_idle w s \<longrightarrow> rq_script s = [])"
  using assms(5) unfolding assms(4)
  by (rule ready_requests.test_passes)
    (simp_all add: test_shutdown_def client_ops ready_request_world_def default_accept_def speaks_to_def
      http_server_parts [OF assms(3,2)] request_answers [OF assms(1)])


text \<open>
  C19. The tests \<open>test_http1_only\<close> and \<open>test_http2_only\<close> pass in every interleaving: a server that
  was restricted to one version of HTTP answers the requests of a client that speaks it, however
  slowly their bodies are sent, and fails those of a client that speaks the other one.
\<close>

theorem http_version_tests_pass:
  assumes "axum_documented ax ext" and "builder_speaks bd speaks"
    and "(version, clients, ops) \<in> {test_http1_only ax client bound, test_http2_only ax client bound}"
    and "server = start_server_with_http_version api bd addr version handle hp"
    and "w = ready_request_world api (server_config server) default_accept bound stream service
      (plain_response ax (echo_app ax)) (speaks_to speaks server clients) current"
    and "req_reachable w ops s"
  shows "\<not> rq_failed s \<and> (req_idle w s \<longrightarrow> rq_script s = [])"
  using assms(6) unfolding assms(5)
  by (rule ready_requests.test_passes)
    (use assms(3) in \<open>auto simp: test_http1_only_def test_http2_only_def client_ops
      ready_request_world_def default_accept_def speaks_to_def http_server_parts [OF assms(4,2)] request_answers [OF assms(1)]\<close>)

lemma first_server_parts:
  assumes "server = first_request_timeout_server api bd addr handle hp" and "builder_speaks bd speaks"
  shows "cc_first_request_timeout (server_config server) = Some (from_millis 100)" and "speaks (sv_builder server) (serve_as (server_config server)) v"
  using assms
  by (auto simp: first_request_timeout_server_def first_request_timeout_def server_bind_def server_config_def
      server_handle_def default_builder_def builder_speaks_def handle_alloc_def serve_as_def Let_def)

text \<open>
  C23. The test \<open>first_request_timeout_keeps_established_connection\<close> passes in every interleaving:
  on a connection that has served a request, its service has stopped the timeout of 100 ms, the
  second request, 300 ms later, is answered too, and the server shuts down with \<open>Ok\<close>. When nothing
  else can move, the test is over or the clock goes on.
\<close>

theorem first_request_timeout_keeps_established:
  assumes "axum_documented ax ext" and "builder_speaks bd speaks"
    and "(server, app, ops) = first_request_timeout_keeps_established_connection api bd ax addr handle hp client bound"
    and "w = ready_request_world api (server_config server) default_accept bound stream service
      (plain_response ax app) (speaks_to speaks server [Http1]) current"
    and "req_reachable w ops s"
  shows "\<not> rq_failed s \<and> (req_idle w s \<longrightarrow> rq_script s = [] \<or> (\<exists>t. req_step w RqTick s = Some t))"
proof -
  from assms(3) have server: "server = first_request_timeout_server api bd addr handle hp" and app: "app = hello_app ax"
    by (simp_all add: first_request_timeout_keeps_established_connection_def)
  have "plain_response ax app (empty_request ax) out = byte_string ''Hello, world!''" for out
    by (simp add: app plain_response_def hyper_response_def app_ops_def app_answers(1) [OF assms(1) request_routes(1,2) [OF assms(1)]])
  then show ?thesis
    using assms(3,5) unfolding assms(4)
    by (intro ready_requests.test_passes_in_time)
      (auto simp: first_request_timeout_keeps_established_connection_def client_ops ready_request_world_def default_accept_def
        speaks_to_def first_server_parts [OF refl assms(2)] from_millis_def less_Suc_eq)
qed

text \<open>
  The test \<open>local_addr_acceptor_adds_extension\<close> passes in every interleaving: the handler
  finds the local address of the connection in the extensions of the request, which is the
  address that \<open>listening\<close> gives, and the server shuts down with \<open>Ok\<close>.
\<close>

theorem local_addr_test_passes:
  assumes "axum_documented ax ext" and "builder_speaks bd speaks"
    and "server = local_addr_server api bd addr handle hp"
    and "tcp_local_addr tcp stream = Inr bound"
    and "w = ready_request_world api (server_config server) (local_addr_accept tcp) bound stream service
      (hyper_response ax (local_addr_ops ext (app_ops (local_addr_app ax ext show_addr)))) (speaks_to speaks server [Http1]) current"
    and "req_reachable w (local_addr_acceptor_adds_extension ax show_addr client bound) s"
  shows "\<not> rq_failed s \<and> (req_idle w s \<longrightarrow> rq_script s = [])"
proof -
  let ?service = "\<lparr>las_inner = service, las_local_addr = LocalAddr bound\<rparr>"
  have parts: "cc_first_request_timeout (server_config server) = None" "speaks (sv_builder server) (serve_as (server_config server)) Http1"
    using assms(2) by (auto simp: assms(3) local_addr_server_def server_bind_def server_config_def server_handle_def
        server_acceptor_def default_builder_def builder_speaks_def handle_alloc_def serve_as_def Let_def)
  have accept: "local_addr_accept tcp stream service = Inr (stream, ?service)"
    by (simp add: local_addr_accept_def assms(4))
  let ?req = "ex_insert_local_addr ext (LocalAddr bound) (empty_request ax)"
  have req: "ax_uri ax ?req = ''/''" "ax_method ax ?req = ''GET''" "ex_local_addr ext ?req = Some (LocalAddr bound)"
    using request_routes [OF assms(1)] assms(1) by (simp_all add: axum_documented_def ext_documented_def)
  from app_answers(3) [OF assms(1) req]
  have "hyper_response ax (local_addr_ops ext (app_ops (local_addr_app ax ext show_addr))) (empty_request ax) (stream, ?service) =
      byte_string (show_addr bound)"
    by (simp add: hyper_response_def local_addr_ops_def app_ops_def)
  note answer = this
  show ?thesis
    using assms(6) unfolding assms(5)
    by (rule ready_requests.test_passes [where accept = "local_addr_accept tcp" and out = "(stream, ?service)"])
      (simp_all add: accept parts answer local_addr_acceptor_adds_extension_def client_ops ready_request_world_def speaks_to_def)
qed

section \<open>The tests of the rustls module\<close>

definition rustls_start_and_request where
  "rustls_start_and_request ax client addr =
     [RqListening addr, RqConnect (client (0 :: nat)), send_empty_request ax 0 ''Hello, world!'']"

definition encrypted_key_starts_and_serves where
  "encrypted_key_starts_and_serves ax client addr =
     [RqListening addr, RqConnect (client (0 :: nat)), send_empty_request ax 0 ''Hello, world!'', RqShutdown]"

definition rustls_tls_info_server where
  "rustls_tls_info_server api bd addr config handle hp =
     (let acceptor = rustls_acceptor_acceptor () (rustls_acceptor_new_test config);
          (server, hp) = server_bind api bd addr hp
      in server_handle handle (server_acceptor server acceptor))"

definition rustls_tls_info_is_available where
  "rustls_tls_info_is_available ax show_addr client addr =
     [RqListening addr, RqConnect (client (0 :: nat)), send_empty_request ax 0 (''localhost|true|0|'' @ show_addr addr),
      RqShutdown, RqServer is_ok]"

text \<open>What \<open>tls_connector\<close> offers, and \<open>dns_name\<close>.\<close>

definition connector_protocols :: "bytes list" where
  "connector_protocols = [byte_string ''h2'', byte_string ''http/1.1'']"

definition dns_name :: string where
  "dns_name = ''localhost''"

text \<open>
  A session with a client that asks for a name, offers protocols and has no certificate: a
  protocol is agreed on when both sides have one in common.
\<close>

definition session_documented where
  "session_documented ru conn session \<longleftrightarrow>
     (\<forall>cfg name protocols. tc_server_name conn (session cfg name protocols) = Some name \<and>
        (set (ru_alpn ru cfg) \<inter> set protocols \<noteq> {} \<longrightarrow> tc_alpn_protocol conn (session cfg name protocols) \<noteq> None) \<and>
        tc_peer_certificates conn (session cfg name protocols) = None)"

definition tls_response where
  "tls_response ax ext ops = hyper_response ax (tls_service_ops ext ops)"

lemma tls_server_parts:
  assumes "builder_speaks bd speaks"
  shows "server = start_server_with_config api bd addr config handle hp \<Longrightarrow>
      cc_first_request_timeout (server_config server) = None \<and> speaks (sv_builder server) (serve_as (server_config server)) v"
    and "server' = rustls_tls_info_server api bd addr config handle hp \<Longrightarrow>
      cc_first_request_timeout (server_config server') = None \<and> speaks (sv_builder server') (serve_as (server_config server')) v \<and>
      ra_config (sv_acceptor server') = config"
    and "server'' = openssl_test_server api bd addr config'' handle hp \<Longrightarrow>
      cc_first_request_timeout (server_config server'') = None \<and> speaks (sv_builder server'') (serve_as (server_config server'')) v \<and>
      oa_config (sv_acceptor server'') = config''"
  using assms
  by (auto simp: start_server_with_config_def rustls_tls_info_server_def openssl_test_server_def openssl_acceptor_new_test_def
      rustls_acceptor_acceptor_def rustls_acceptor_new_test_def
      server_bind_def server_config_def server_handle_def server_acceptor_def default_builder_def builder_speaks_def
      handle_alloc_def serve_as_def Let_def)

lemma hello_over_tls:
  assumes "axum_documented ax ext"
  shows "tls_response ax ext (app_ops (hello_app ax)) (empty_request ax) out = byte_string ''Hello, world!''"
proof -
  let ?req = "ex_insert_tls_info ext (tsv_info (snd out)) (empty_request ax)"
  have "ax_uri ax ?req = ''/''" "ax_method ax ?req = ''GET''" using request_routes [OF assms] by simp_all
  from app_answers(1) [OF assms this] show ?thesis
    by (simp add: tls_response_def hyper_response_def tls_service_ops_def app_ops_def)
qed

theorem rustls_request_tests_pass:
  assumes "axum_documented ax ext" and "builder_speaks bd speaks"
    and "ops \<in> {rustls_start_and_request ax client bound, encrypted_key_starts_and_serves ax client bound}"
    and "server = start_server_with_config api bd addr config handle hp"
    and "w = rustls_request_world api ru sw conn (server_config server) (sv_acceptor server) store bound
      (default_accept stream service) (\<lambda>cfg. session cfg dns_name connector_protocols)
      (tls_response ax ext (app_ops (hello_app ax))) (speaks_to speaks server [Http1]) current"
    and "req_reachable w ops s"
  shows "\<not> rq_failed s \<and> (req_idle w s \<longrightarrow> rq_script s = [])"
  using assms(6) unfolding assms(5)
  by (rule rustls_requests.test_passes [where stream = stream and service = service])
    (use assms(3) in \<open>auto simp: rustls_start_and_request_def encrypted_key_starts_and_serves_def client_ops
      rustls_request_world_def default_accept_def speaks_to_def tls_server_parts(1) [OF assms(2,4)] hello_over_tls [OF assms(1)]
      Let_def\<close>)

text \<open>
  C16. The test \<open>tls_info_is_available_to_handlers\<close> of the rustls module passes in every
  interleaving: over \<open>RustlsAcceptor\<close> on \<open>LocalAddrAcceptor\<close> the handler finds in the extensions of
  the request the name that the client asked for, a protocol agreed on by ALPN, no certificate of
  the client, and the local address that \<open>listening\<close> gives; then the server shuts down with \<open>Ok\<close>.
\<close>

theorem rustls_tls_info_test_passes:
  assumes "axum_documented ax ext" and "builder_speaks bd speaks" and "swap_documented sw live"
    and "\<forall>ps cfg. ru_alpn ru (ru_set_alpn ru ps cfg) = ps" and "session_documented ru conn session"
    and "rustls_from_pem_file ru sw read cert_pem key_pem h = (Inr config, store)"
    and "server = rustls_tls_info_server api bd addr config handle hp"
    and "tcp_local_addr tcp stream = Inr bound"
    and "w = rustls_request_world api ru sw conn (server_config server) (sv_acceptor server) store bound
      (local_addr_accept tcp stream service) (\<lambda>cfg. session cfg dns_name connector_protocols)
      (tls_response ax ext (local_addr_ops ext (app_ops (tls_and_local_app ax ext show_addr))))
      (speaks_to speaks server [Http1]) current"
    and "req_reachable w (rustls_tls_info_is_available ax show_addr client bound) s"
  shows "\<not> rq_failed s \<and> (req_idle w s \<longrightarrow> rq_script s = [])"
proof -
  let ?service = "\<lparr>las_inner = service, las_local_addr = LocalAddr bound\<rparr>"
  let ?tls = "session (rustls_get_inner sw config store) dns_name connector_protocols"
  let ?req = "ex_insert_local_addr ext (LocalAddr bound) (ex_insert_tls_info ext (rustls_tls_info conn ?tls) (empty_request ax))"
  note parts = tls_server_parts(2) [OF assms(2,7)]
  from rustls_cells.create_gets [OF assms(3) assms(6) [unfolded rustls_from_pem_file_def]]
  have "config_from_pem_file ru read cert_pem key_pem = Inr (rustls_get_inner sw config store)" by simp
  then have "ru_alpn ru (rustls_get_inner sw config store) = alpn_protocols"
    using assms(4) by (auto simp: config_from_pem_file_def config_from_pem_def config_from_cert_and_key_def set_alpn_def) metis
  with assms(5) have page: "tls_info_page (rustls_tls_info conn ?tls) = ''localhost|true|0''"
    by (simp add: session_documented_def connector_protocols_def alpn_protocols_def rustls_tls_info_def tls_info_new_def
        tls_info_page_def unwrap_or_empty_def show_bool_def show_nat.simps dns_name_def)
  have accept: "local_addr_accept tcp stream service = Inr (stream, ?service)"
    by (simp add: local_addr_accept_def assms(8))
  have req: "ax_uri ax ?req = ''/''" "ax_method ax ?req = ''GET''" "ex_local_addr ext ?req = Some (LocalAddr bound)"
      "ex_tls_info ext ?req = Some (rustls_tls_info conn ?tls)"
    using request_routes [OF assms(1)] assms(1) by (simp_all add: axum_documented_def ext_documented_def)
  from app_answers(5) [OF assms(1) req(1,2,4,3)] page
  have answer: "tls_response ax ext (local_addr_ops ext (app_ops (tls_and_local_app ax ext show_addr))) (empty_request ax)
      (?tls, tls_service_new ?service (rustls_tls_info conn ?tls)) = byte_string (''localhost|true|0|'' @ show_addr bound)"
    by (simp add: tls_response_def hyper_response_def tls_service_ops_def local_addr_ops_def app_ops_def tls_service_new_def)
  show ?thesis
    using assms(10) unfolding assms(9)
    by (rule rustls_requests.test_passes [where stream = stream and service = ?service])
      (simp_all add: accept parts answer rustls_tls_info_is_available_def client_ops rustls_request_world_def speaks_to_def)
qed

section \<open>The tests of the OpenSSL module\<close>

definition openssl_start_and_request where
  "openssl_start_and_request ax client addr =
     [RqListening addr, RqConnect (client (0 :: nat)), send_empty_request ax 0 ''Hello, world!'']"

definition openssl_tls_info_is_available where
  "openssl_tls_info_is_available ax client addr =
     [RqListening addr, RqConnect (client (0 :: nat)), send_empty_request ax 0 ''localhost|true|0'',
      RqShutdown, RqServer is_ok]"

text \<open>\<open>b"\x08http/1.1\x02h2"\<close>.\<close>

definition openssl_connector_protocols :: bytes where
  "openssl_connector_protocols = 0x08 # byte_string ''http/1.1'' @ 0x02 # byte_string ''h2''"

text \<open>
  \<open>callback\<close>: the ALPN callback of an acceptor, which decides what is agreed on with the client;
  the client asks for a name and has no certificate.
\<close>

definition connector_documented where
  "connector_documented os ss callback name wire \<longleftrightarrow>
     (\<forall>f b. callback (os_build os (os_set_alpn_select_callback os f b)) = f) \<and>
     (\<forall>acc ssl i tls. ss_new ss acc = Inr ssl \<and> ss_stream ss ssl i = Inr tls \<longrightarrow>
        ss_servername ss tls = Some name \<and> ss_peer_cert_chain ss tls = None \<and> ss_peer_certificate ss tls = None \<and>
        (\<forall>p. callback acc wire = Inr p \<longrightarrow> ss_alpn_protocol ss tls = Some p))"

theorem openssl_request_test_passes:
  assumes "axum_documented ax ext" and "builder_speaks bd speaks" and "stream_documented ss (\<lambda>_. ()) (\<lambda>_. ())"
    and "server = openssl_test_server api bd addr config handle hp"
    and "w = openssl_request_world api os sw ss (server_config server) (sv_acceptor server) store bound stream service
      (tls_response ax ext (app_ops (hello_app ax))) (speaks_to speaks server [Http1]) current"
    and "req_reachable w (openssl_start_and_request ax client bound) s"
  shows "\<not> rq_failed s \<and> (req_idle w s \<longrightarrow> rq_script s = [])"
  using assms(6) unfolding assms(5)
  by (rule openssl_requests.test_passes)
    (simp_all add: openssl_start_and_request_def client_ops openssl_request_world_def speaks_to_def assms(3)
      tls_server_parts(3) [OF assms(2,4)] hello_over_tls [OF assms(1)] Let_def)

text \<open>
  The test \<open>tls_info_is_available_to_handlers\<close> of the OpenSSL module passes in every
  interleaving: the handler finds in the extensions of the request the name that the client
  asked for, the protocol that the ALPN callback chose, and no certificate of the client.
\<close>

theorem openssl_tls_info_test_passes:
  assumes "axum_documented ax ext" and "builder_speaks bd speaks" and "swap_documented sw live"
    and "stream_documented ss (\<lambda>_. ()) (\<lambda>_. ())"
    and "\<forall>server client ps cs. alpn_decode server = Some ps \<longrightarrow> alpn_decode client = Some cs \<longrightarrow>
      os_select_next_proto os server client = find (\<lambda>p. p \<in> set cs) ps"
    and "connector_documented os ss callback dns_name openssl_connector_protocols"
    and "openssl_from_pem_file os sw cert_pem key_pem h = (Inr config, store)"
    and "server = openssl_test_server api bd addr config handle hp"
    and "w = openssl_request_world api os sw ss (server_config server) (sv_acceptor server) store bound stream service
      (tls_response ax ext (app_ops (tls_info_app ax ext))) (speaks_to speaks server [Http1]) current"
    and "req_reachable w (openssl_tls_info_is_available ax client bound) s"
  shows "\<not> rq_failed s \<and> (req_idle w s \<longrightarrow> rq_script s = [])"
proof -
  let ?acc = "openssl_get_inner sw config store" and ?tls = "ssl_stream_of ss (openssl_get_inner sw config store) stream"
  let ?req = "ex_insert_tls_info ext (openssl_tls_info ss ?tls) (empty_request ax)"
  note parts = tls_server_parts(3) [OF assms(2,8)]
  from openssl_cells.create_gets [OF assms(3) assms(7) [unfolded openssl_from_pem_file_def]]
  have "openssl_config_from_pem_file os cert_pem key_pem = Inr ?acc" by simp
  then have "callback ?acc = alpn_select os"
    using assms(6) by (auto simp: openssl_config_from_pem_file_def connector_documented_def) metis
  moreover have "alpn_decode openssl_connector_protocols = Some [byte_string ''http/1.1'', byte_string ''h2'']"
    using alpn_decode_encode [of "[byte_string ''http/1.1'', byte_string ''h2'']"]
    by (simp add: openssl_connector_protocols_def alpn_encode_def byte_string_def)
  ultimately have alpn: "\<exists>p. callback ?acc openssl_connector_protocols = Inr p"
    using alpn_select_prefers_http2 [OF assms(5)] by simp
  from stream_documented_of [OF assms(4)] obtain ssl where
    "ss_new ss ?acc = Inr ssl" "ss_stream ss ssl stream = Inr ?tls" by metis
  with assms(6) alpn have "ss_servername ss ?tls = Some dns_name \<and> ss_peer_cert_chain ss ?tls = None \<and>
      ss_peer_certificate ss ?tls = None \<and> (\<exists>p. ss_alpn_protocol ss ?tls = Some p)"
    unfolding connector_documented_def by metis
  then have page: "tls_info_page (openssl_tls_info ss ?tls) = ''localhost|true|0''"
    by (auto simp: openssl_tls_info_def tls_info_new_def tls_info_page_def unwrap_or_empty_def show_bool_def
        show_nat.simps dns_name_def)
  have req: "ax_uri ax ?req = ''/''" "ax_method ax ?req = ''GET''" "ex_tls_info ext ?req = Some (openssl_tls_info ss ?tls)"
    using request_routes [OF assms(1)] assms(1) by (simp_all add: axum_documented_def ext_documented_def)
  from app_answers(4) [OF assms(1) req] page
  have answer: "tls_response ax ext (app_ops (tls_info_app ax ext)) (empty_request ax)
      (?tls, tls_service_new service (openssl_tls_info ss ?tls)) = byte_string ''localhost|true|0''"
    by (simp add: tls_response_def hyper_response_def tls_service_ops_def app_ops_def tls_service_new_def)
  show ?thesis
    using assms(10) unfolding assms(9)
    by (rule openssl_requests.test_passes)
      (simp_all add: assms(4) parts answer openssl_tls_info_is_available_def client_ops openssl_request_world_def
        speaks_to_def Let_def)
qed

section \<open>Runs\<close>

text \<open>
  A request is its path, its method, its body and its extensions, a response its body; a builder
  of Hyper is the only version it speaks, if there is one.
\<close>

type_synonym toy_http = "string \<times> string \<times> bytes \<times> toy_request"

definition toy_axum :: "(toy_http, bytes) axum_api" where
  "toy_axum = \<lparr>ax_request = (\<lambda>b. (''/'', ''GET'', map snd b, None, None)), ax_set_method = (\<lambda>m (u, _, x). (u, m, x)),
     ax_set_uri = (\<lambda>u (_, x). (u, x)), ax_uri = fst, ax_method = (\<lambda>(u, m, b, x). m), ax_body = (\<lambda>(u, m, b, x). b),
     ax_router = (\<lambda>routes req. case find (\<lambda>(p, m, h). p = fst req \<and> m = fst (snd req)) routes of
        None \<Rightarrow> [] | Some (p, m, h) \<Rightarrow> h req),
     ax_text = byte_string, ax_stream = map snd, ax_missing_extension = [], ax_collect = id\<rparr>"

definition toy_http_ext :: "(toy_http, nat) ext_api" where
  "toy_http_ext = \<lparr>ex_insert_local_addr = (\<lambda>a (u, m, b, _, i). (u, m, b, Some a, i)),
     ex_insert_tls_info = (\<lambda>i (u, m, b, a, _). (u, m, b, a, Some i)),
     ex_local_addr = (\<lambda>(u, m, b, a, i). a), ex_tls_info = (\<lambda>(u, m, b, a, i). i)\<rparr>"

lemma toy_axum_documented: "axum_documented toy_axum toy_http_ext"
  by (auto simp: axum_documented_def ext_documented_def same_route_def toy_axum_def toy_http_ext_def)

definition toy_versions :: "http_version option builder_api" where
  "toy_versions = \<lparr>bd_new = None, bd_http1_timer = id, bd_header_read_timeout = (\<lambda>_. id), bd_http2_timer = id,
     bd_http1_only = (\<lambda>_. Some Http1), bd_http2_only = (\<lambda>_. Some Http2)\<rparr>"

definition toy_speaks :: "http_version option \<Rightarrow> serve_kind \<Rightarrow> http_version \<Rightarrow> bool" where
  "toy_speaks b kind v \<longleftrightarrow> kind = ServeUpgrades \<or> b = None \<or> b = Some v"

lemma toy_versions_speak: "builder_speaks toy_versions toy_speaks"
  by (auto simp: builder_speaks_def toy_versions_def toy_speaks_def intro!: exI [of _ "\<lambda>b. b = None"])

type_synonym ('a, 'b, 'acc) toy_server = "('acc, 'b, 'a, nat, nat) server"

definition toy_http_server :: "http_version option \<Rightarrow> (nat, http_version option, unit) toy_server" where
  "toy_http_server version = start_server_with_http_version toy_api toy_versions 0 version 0 []"

type_synonym toy_ready_requests =
  "(nat, toy_notify, (nat \<times> nat) io_result option, nat \<times> nat, nat \<times> nat, unit, unit, toy_http, bytes) request_world"

definition toy_http_world :: "http_version option \<Rightarrow> http_version list \<Rightarrow> bool \<Rightarrow> toy_ready_requests" where
  "toy_http_world version clients current = ready_request_world toy_api (server_config (toy_http_server version))
     default_accept 80 1 2 (plain_response toy_axum (echo_app toy_axum)) (speaks_to toy_speaks (toy_http_server version) clients)
     current"

text \<open>The server listens; a client connects and sends a request, which is answered.\<close>

definition rq_listens :: "req_action list" where
  "rq_listens = replicate 3 RqServe @ [RqTest]"

definition rq_visit :: "nat \<Rightarrow> req_action list" where
  "rq_visit i = [RqTest, RqTest] @ replicate 7 RqServe @ replicate 6 (RqConn i True True) @ [RqTest]"

definition rq_again :: "nat \<Rightarrow> req_action list" where
  "rq_again i = [RqTest] @ replicate 3 (RqConn i True True) @ [RqTest]"

lemmas req_run_simps =
  test_run_simps req_step.simps req_test_step.simps req_sys_step_def tls_sys_step.simps req_start_def hyper_fails_def hyper_speaks_def serve_as_def
  hyper_answers_def hyper_calls_def hyper_signals_def overdue_def request_env_def first_setup_def
  first_notify_def first_chan_def first_signalled_def first_request_setup_def conn_phase_def client_gets_def conn_closed_def rq_listens_def rq_visit_def rq_again_def client_ops
  toy_http_world_def toy_http_server_def ready_request_world_def ready_server_def start_server_with_http_version_def
  speaks_to_def plain_response_def hyper_response_def app_ops_def echo_app_def empty_request_def slow_request_def
  toy_axum_def slow_body_def toy_versions_def toy_speaks_def default_builder_def http1_only_def http2_only_def

theorem shutdown_test_passes_witness:
  "\<exists>s. req_run (toy_http_world None [Http1] True)
       (rq_listens @ rq_visit 0 @ [RqTest, RqTest, RqConn 0 True True, RqConn 0 True True, RqTest, RqTest])
       (req_start (toy_http_world None [Http1] True) (test_shutdown toy_axum id 80)) = Some s \<and>
     rq_script s = [] \<and> \<not> rq_failed s"
proof -
  obtain s where s: "req_run (toy_http_world None [Http1] True)
       (rq_listens @ rq_visit 0 @ [RqTest, RqTest, RqConn 0 True True, RqConn 0 True True, RqTest, RqTest])
       (req_start (toy_http_world None [Http1] True) (test_shutdown toy_axum id 80)) = Some s" "rq_script s = []"
    by (simp add: req_run_simps test_shutdown_def)
  from shutdown_test_passes [OF toy_axum_documented toy_versions_speak toy_http_server_def toy_http_world_def
      req_start_reachable [OF s(1)]] s
  show ?thesis by auto
qed



theorem http_version_tests_pass_witness:
  "\<exists>s. req_run (toy_http_world (Some Http2) [Http2, Http1] True) (rq_listens @ rq_visit 0 @ rq_again 0 @ rq_visit 1)
       (req_start (toy_http_world (Some Http2) [Http2, Http1] True) (snd (snd (test_http2_only toy_axum id 80)))) = Some s \<and>
     rq_script s = [] \<and> \<not> rq_failed s"
proof -
  let ?ops = "snd (snd (test_http2_only toy_axum id 80))"
  obtain s where s: "req_run (toy_http_world (Some Http2) [Http2, Http1] True) (rq_listens @ rq_visit 0 @ rq_again 0 @ rq_visit 1)
       (req_start (toy_http_world (Some Http2) [Http2, Http1] True) ?ops) = Some s" "rq_script s = []"
    by (simp add: req_run_simps test_http2_only_def)
  have "(Some Http2, [Http2, Http1], ?ops) \<in> {test_http1_only toy_axum id 80, test_http2_only toy_axum id (80 :: nat)}"
    by (simp add: test_http2_only_def)
  from http_version_tests_pass [OF toy_axum_documented toy_versions_speak this toy_http_server_def toy_http_world_def
      req_start_reachable [OF s(1)]] s
  show ?thesis by auto
qed

definition toy_first_test where
  "toy_first_test =
     (first_request_timeout_keeps_established_connection toy_api toy_versions toy_axum (0 :: nat) 0 [] id (80 :: nat)
      :: (nat, http_version option, unit) toy_server \<times> (toy_http \<Rightarrow> bytes) \<times> (nat, toy_http, bytes) req_op list)"

definition toy_first_world :: toy_ready_requests where
  "toy_first_world = ready_request_world toy_api (server_config (fst toy_first_test)) default_accept 80 1 2
     (plain_response toy_axum (fst (snd toy_first_test))) (speaks_to toy_speaks (fst toy_first_test) [Http1]) True"

definition toy_keeps_run :: "req_action list" where
  "toy_keeps_run = rq_listens @ [RqTest, RqTest] @ replicate 7 RqServe @ replicate 8 (RqConn 0 True True) @
     [RqTest] @ replicate 4 (RqConn 0 True True) @ [RqTest, RqTick, RqTest] @ rq_again 0 @ RqTest # replicate 6 RqServe @ [RqTest]"

lemmas sleep_run_simps =
  first_request_new_def first_request_notify_def req_idle_def conn_waits_def req_test_waits_def sleeping_def
  req_deadlines_def first_deadline_def List.map_filter_simps

theorem first_request_timeout_keeps_established_witness:
  "\<exists>s. req_run toy_first_world toy_keeps_run (req_start toy_first_world (snd (snd toy_first_test))) = Some s \<and>
     rq_now s = from_millis 300 \<and> rq_script s = [] \<and> \<not> rq_failed s"
proof -
  obtain s where s: "req_run toy_first_world toy_keeps_run (req_start toy_first_world (snd (snd toy_first_test))) = Some s"
      "rq_now s = from_millis 300" "rq_script s = []"
    by (simp add: req_run_simps sleep_run_simps toy_first_world_def toy_keeps_run_def toy_first_test_def
        first_request_timeout_keeps_established_connection_def first_request_timeout_server_def first_request_timeout_def
        hello_app_def)
  have "(fst toy_first_test, fst (snd toy_first_test), snd (snd toy_first_test)) =
      first_request_timeout_keeps_established_connection toy_api toy_versions toy_axum 0 0 [] id 80"
    by (simp add: toy_first_test_def)
  from first_request_timeout_keeps_established [OF toy_axum_documented toy_versions_speak this toy_first_world_def
      req_start_reachable [OF s(1)]] s
  show ?thesis by auto
qed

definition toy_local_server :: "(nat, http_version option, unit) toy_server" where
  "toy_local_server = local_addr_server toy_api toy_versions (0 :: nat) 0 []"

definition toy_local_world ::
  "(nat, toy_notify, (toy_socket \<times> (nat, nat) local_addr_service) io_result option, toy_socket \<times> nat, toy_socket \<times> (nat, nat) local_addr_service, unit, unit, toy_http, bytes) request_world" where
  "toy_local_world = ready_request_world toy_api (server_config toy_local_server) (local_addr_accept toy_tcp) 80
     (80, False, []) 2 (hyper_response toy_axum (local_addr_ops toy_http_ext (app_ops (local_addr_app toy_axum toy_http_ext show_nat))))
     (speaks_to toy_speaks toy_local_server [Http1]) True"

theorem local_addr_test_passes_witness:
  "\<exists>s. req_run toy_local_world (rq_listens @ rq_visit 0 @ RqTest # replicate 6 RqServe @ [RqTest])
       (req_start toy_local_world (local_addr_acceptor_adds_extension toy_axum show_nat id 80)) = Some s \<and>
     rq_clients s ! 0 = Answered (byte_string ''80'') \<and> rq_script s = [] \<and> \<not> rq_failed s"
proof -
  obtain s where s: "req_run toy_local_world (rq_listens @ rq_visit 0 @ RqTest # replicate 6 RqServe @ [RqTest])
       (req_start toy_local_world (local_addr_acceptor_adds_extension toy_axum show_nat id 80)) = Some s"
      "rq_clients s ! 0 = Answered (byte_string ''80'')" "rq_script s = []"
    by (simp add: req_run_simps local_addr_acceptor_adds_extension_def toy_local_world_def toy_local_server_def
        local_addr_server_def local_addr_app_def local_addr_accept_def local_addr_ops_def toy_tcp_def toy_http_ext_def
        show_nat.simps)
  have "tcp_local_addr toy_tcp (80, False, []) = Inr 80" by (simp add: toy_tcp_def)
  from local_addr_test_passes [OF toy_axum_documented toy_versions_speak toy_local_server_def this toy_local_world_def
      req_start_reachable [OF s(1)]] s
  show ?thesis by auto
qed

text \<open>A session is the configuration, the name and the protocols of the client.\<close>

type_synonym toy_session = "toy_cfg \<times> string \<times> bytes list"

definition toy_session_conn :: "toy_session conn_api" where
  "toy_session_conn = \<lparr>tc_server_name = (\<lambda>(c, name, ps). Some name),
     tc_alpn_protocol = (\<lambda>(c, name, ps). find (\<lambda>p. p \<in> set ps) (snd c)), tc_peer_certificates = (\<lambda>_. None)\<rparr>"

abbreviation toy_session :: "toy_cfg \<Rightarrow> string \<Rightarrow> bytes list \<Rightarrow> toy_session" where
  "toy_session cfg name ps \<equiv> (cfg, name, ps)"

lemma toy_session_documented: "session_documented toy_rustls toy_session_conn toy_session"
  by (auto simp: session_documented_def toy_session_conn_def toy_rustls_def find_None_iff)

definition toy_info_server :: "(nat, http_version option, unit rustls_acceptor) toy_server" where
  "toy_info_server = rustls_tls_info_server toy_api toy_versions (0 :: nat) \<lparr>rc_inner = 0\<rparr> 0 []"

type_synonym toy_info_world =
  "(nat, toy_notify, (toy_cfg, toy_socket, (nat, nat) local_addr_service) rustls_future,
    (toy_cfg, toy_socket, (nat, nat) local_addr_service, toy_session, toy_cfg list) rustls_env,
    toy_session \<times> (nat, nat) local_addr_service tls_service, toy_cfg list, (toy_cfg, string) rustls_op, toy_http, bytes) request_world"

definition toy_info_world :: toy_info_world where
  "toy_info_world = rustls_request_world toy_api toy_rustls toy_swap toy_session_conn (server_config toy_info_server)
     (sv_acceptor toy_info_server) [([[2], [1]], alpn_protocols)] 80 (local_addr_accept toy_tcp (80, False, []) 2)
     (\<lambda>cfg. toy_session cfg dns_name connector_protocols)
     (tls_response toy_axum toy_http_ext (local_addr_ops toy_http_ext (app_ops (tls_and_local_app toy_axum toy_http_ext show_nat))))
     (speaks_to toy_speaks toy_info_server [Http1]) True"

lemmas tls_req_run_simps =
  req_run_simps rustls_request_world_def rustls_handshake_env_def rustls_server_def rustls_accept_def rustls_future_new_def
  rustls_poll_stages rustls_get_inner_def toy_swap_def rustls_tls_info_server_def rustls_acceptor_new_test_def
  rustls_acceptor_acceptor_def tls_response_def tls_service_ops_def tls_service_new_def rustls_tls_info_def
  tls_info_new_def tls_info_page_def unwrap_or_empty_def show_bool_def show_nat.simps dns_name_def
  local_addr_accept_def local_addr_ops_def toy_tcp_def toy_http_ext_def

theorem rustls_tls_info_test_passes_witness:
  "\<exists>s. req_run toy_info_world (rq_listens @ rq_visit 0 @ RqTest # replicate 6 RqServe @ [RqTest])
       (req_start toy_info_world (rustls_tls_info_is_available toy_axum show_nat id 80)) = Some s \<and>
     rq_clients s ! 0 = Answered (byte_string ''localhost|true|0|80'') \<and> rq_script s = [] \<and> \<not> rq_failed s"
proof -
  obtain s where s: "req_run toy_info_world (rq_listens @ rq_visit 0 @ RqTest # replicate 6 RqServe @ [RqTest])
       (req_start toy_info_world (rustls_tls_info_is_available toy_axum show_nat id 80)) = Some s"
      "rq_clients s ! 0 = Answered (byte_string ''localhost|true|0|80'')" "rq_script s = []"
    by (simp add: tls_req_run_simps rustls_tls_info_is_available_def toy_info_world_def toy_info_server_def
        tls_and_local_app_def toy_session_conn_def connector_protocols_def alpn_protocols_def)
  have alpn: "\<forall>ps cfg. ru_alpn toy_rustls (ru_set_alpn toy_rustls ps cfg) = ps"
    by (simp add: toy_rustls_def split: prod.split)
  have paths: "key_pem \<noteq> cert_pem" by (simp add: key_pem_def cert_pem_def)
  have start: "rustls_from_pem_file toy_rustls toy_swap toy_files cert_pem key_pem [] =
      (Inr \<lparr>rc_inner = 0\<rparr>, [([[2], [1]], alpn_protocols)])"
    using paths by (simp add: rustls_from_pem_file_def config_from_pem_file_def toy_files_def rustls_create_def swap_create_def
        toy_swap_def config_from_pem_def certificates_from_pem_def private_key_from_pem_def toy_rustls_def
        config_from_cert_and_key_def set_alpn_def Let_def)
  have "tcp_local_addr toy_tcp (80, False, []) = Inr 80" by (simp add: toy_tcp_def)
  from rustls_tls_info_test_passes [OF toy_axum_documented toy_versions_speak toy_swap_documented alpn toy_session_documented
      start toy_info_server_def this toy_info_world_def req_start_reachable [OF s(1)]] s
  show ?thesis by auto
qed

text \<open>An OpenSSL whose builders, acceptors and streams are ALPN callbacks.\<close>

definition toy_alpn_openssl :: "(string, bytes, bytes, alpn_callback, alpn_callback, string) openssl_api" where
  "toy_alpn_openssl = \<lparr>os_x509_from_der = Inr, os_x509_from_pem = Inr, os_key_from_der = Inr, os_key_from_pem = Inr,
     os_mozilla_modern_v5 = Inr (\<lambda>_. Inl NoAck), os_set_certificate = (\<lambda>_. Inr), os_set_private_key = (\<lambda>_. Inr),
     os_set_certificate_file = (\<lambda>_ _. Inr), os_set_certificate_chain_file = (\<lambda>_. Inr),
     os_set_private_key_file = (\<lambda>_ _. Inr), os_check_private_key = (\<lambda>_. Inr ()),
     os_set_alpn_select_callback = (\<lambda>f _. f), os_build = (\<lambda>f. f),
     os_select_next_proto = os_select_next_proto toy_openssl\<rparr>"

definition toy_alpn_ssl :: "(alpn_callback, alpn_callback, nat, alpn_callback, nat, string) ssl_api" where
  "toy_alpn_ssl = \<lparr>ss_new = Inr, ss_stream = (\<lambda>ssl i. Inr ssl),
     ss_timeout = (\<lambda>d elapsed p. case p of Ready r \<Rightarrow> Ready (Inr r)
       | Pending \<Rightarrow> if elapsed then Ready (Inl ''deadline has elapsed'') else Pending),
     ss_peer_cert_chain = (\<lambda>_. None), ss_peer_certificate = (\<lambda>_. None), ss_to_der = (\<lambda>c. Inr []),
     ss_servername = (\<lambda>_. Some dns_name), ss_alpn_protocol = (\<lambda>f. res_ok (f openssl_connector_protocols))\<rparr>"

lemma toy_alpn_documented:
  "stream_documented toy_alpn_ssl (\<lambda>_. ()) (\<lambda>_. ())"
  "connector_documented toy_alpn_openssl toy_alpn_ssl id dns_name openssl_connector_protocols"
  by (auto simp: stream_documented_def ssl_documented_def connector_documented_def toy_alpn_ssl_def toy_alpn_openssl_def)

definition toy_alpn_server :: "(nat, http_version option, unit openssl_acceptor) toy_server" where
  "toy_alpn_server = openssl_test_server toy_api toy_versions (0 :: nat) \<lparr>oc_acceptor = 0\<rparr> 0 []"

type_synonym toy_alpn_world =
  "(nat, toy_notify, (alpn_callback, nat) openssl_future, (nat, nat, alpn_callback, alpn_callback list) openssl_env,
    alpn_callback \<times> nat tls_service, alpn_callback list, (alpn_callback, string) openssl_op, toy_http, bytes) request_world"

definition toy_alpn_world :: toy_alpn_world where
  "toy_alpn_world = openssl_request_world toy_api toy_alpn_openssl toy_swap toy_alpn_ssl (server_config toy_alpn_server)
     (sv_acceptor toy_alpn_server) [alpn_select toy_alpn_openssl] 80 1 2
     (tls_response toy_axum toy_http_ext (app_ops (tls_info_app toy_axum toy_http_ext)))
     (speaks_to toy_speaks toy_alpn_server [Http1]) True"

lemma toy_alpn_law:
  "\<forall>server client ps cs. alpn_decode server = Some ps \<longrightarrow> alpn_decode client = Some cs \<longrightarrow>
     os_select_next_proto toy_alpn_openssl server client = find (\<lambda>p. p \<in> set cs) ps"
  by (simp add: toy_alpn_openssl_def toy_openssl_def)

lemma toy_alpn_selects: "alpn_select toy_alpn_openssl openssl_connector_protocols = Inr (byte_string ''h2'')"
proof -
  have "alpn_decode openssl_connector_protocols = Some [byte_string ''http/1.1'', byte_string ''h2'']"
    using alpn_decode_encode [of "[byte_string ''http/1.1'', byte_string ''h2'']"]
    by (simp add: openssl_connector_protocols_def alpn_encode_def byte_string_def)
  from alpn_select_prefers_http2 [OF toy_alpn_law this] show ?thesis by simp
qed

theorem openssl_tls_info_test_passes_witness:
  "\<exists>s. req_run toy_alpn_world (rq_listens @ rq_visit 0 @ RqTest # replicate 6 RqServe @ [RqTest])
       (req_start toy_alpn_world (openssl_tls_info_is_available toy_axum id 80)) = Some s \<and>
     rq_clients s ! 0 = Answered (byte_string ''localhost|true|0'') \<and> rq_script s = [] \<and> \<not> rq_failed s"
proof -
  obtain s where s: "req_run toy_alpn_world (rq_listens @ rq_visit 0 @ RqTest # replicate 6 RqServe @ [RqTest])
       (req_start toy_alpn_world (openssl_tls_info_is_available toy_axum id 80)) = Some s"
      "rq_clients s ! 0 = Answered (byte_string ''localhost|true|0'')" "rq_script s = []"
    by (simp add: req_run_simps openssl_tls_info_is_available_def toy_alpn_world_def toy_alpn_server_def
        openssl_request_world_def openssl_server_def openssl_test_server_def openssl_acceptor_new_test_def openssl_accept_def
        openssl_future_new_def openssl_poll_stages openssl_client_def openssl_get_inner_def tls_accept_poll_def toy_swap_def
        toy_alpn_ssl_def toy_alpn_selects tls_response_def tls_service_ops_def tls_service_new_def openssl_tls_info_def
        tls_info_new_def tls_info_page_def unwrap_or_empty_def show_bool_def show_nat.simps dns_name_def tls_info_app_def
        toy_http_ext_def)
  have start: "openssl_from_pem_file toy_alpn_openssl toy_swap cert_pem key_pem [] =
      (Inr \<lparr>oc_acceptor = 0\<rparr>, [alpn_select toy_alpn_openssl])"
    by (simp add: openssl_from_pem_file_def openssl_config_from_pem_file_def openssl_create_def swap_create_def toy_swap_def
        toy_alpn_openssl_def)
  from openssl_tls_info_test_passes [OF toy_axum_documented toy_versions_speak toy_swap_documented toy_alpn_documented(1)
      toy_alpn_law toy_alpn_documented(2) start toy_alpn_server_def toy_alpn_world_def req_start_reachable [OF s(1)]] s
  show ?thesis by auto
qed

end
